(* ===== verification/Rust_Prelude.thy ===== *)
theory Rust_Prelude
  imports Main "HOL-Library.Word" "HOL-Library.AList" "HOL-Library.FSet" "HOL-Library.Multiset"
begin

text \<open>
  What the components share: Rust's \<^verbatim>\<open>Result\<close> together with panics, byte strings and their
  big-endian integers, checked machine arithmetic, the effects the crate draws from its
  environment (randomness, the system clock, the iteration order of a hash map), and the two
  interfaces every component relies on, a fixed-width codec and a hash map.
\<close>

unbundle bit_operations_syntax

named_theorems codec_simps \<open>round trips of the byte codecs\<close>
named_theorems run_simps \<open>evaluation of runs on the executable instance of the primitives\<close>
named_theorems wf_intros \<open>well-formedness of the values an operation returns\<close>

section \<open>Results and panics\<close>

text \<open>
  A Rust function returns \<^verbatim>\<open>Ok\<close> or \<^verbatim>\<open>Err\<close>, or it panics (an \<^verbatim>\<open>expect\<close> on a missing
  value); the release profile of \<^verbatim>\<open>Cargo.toml\<close> turns a panic into an abort of the process.
\<close>

datatype ('a, 'e) result = Ok 'a | Err 'e | Panic

text \<open>The \<^verbatim>\<open>?\<close> operator.\<close>

primrec and_then :: "('a, 'e) result \<Rightarrow> ('a \<Rightarrow> ('b, 'e) result) \<Rightarrow> ('b, 'e) result" where
  "and_then (Ok a) f = f a"
| "and_then (Err e) f = Err e"
| "and_then Panic f = Panic"

primrec map_err :: "('e \<Rightarrow> 'f) \<Rightarrow> ('a, 'e) result \<Rightarrow> ('a, 'f) result" where
  "map_err g (Ok a) = Ok a"
| "map_err g (Err e) = Err (g e)"
| "map_err g Panic = Panic"

primrec ok_or :: "'e \<Rightarrow> 'a option \<Rightarrow> ('a, 'e) result" where
  "ok_or e None = Err e"
| "ok_or e (Some a) = Ok a"

primrec expect :: "'a option \<Rightarrow> ('a, 'e) result" where
  "expect None = Panic"
| "expect (Some a) = Ok a"

primrec is_ok :: "('a, 'e) result \<Rightarrow> bool" where
  "is_ok (Ok a) = True"
| "is_ok (Err e) = False"
| "is_ok Panic = False"

lemma is_ok_iff: "is_ok r \<longleftrightarrow> (\<exists>x. r = Ok x)"
  by (cases r) auto

lemma and_then_eq_Ok [simp]:
  "and_then r f = Ok b \<longleftrightarrow> (\<exists>a. r = Ok a \<and> f a = Ok b)"
  by (cases r) auto

lemma and_then_eq_Err:
  "and_then r f = Err e \<longleftrightarrow> r = Err e \<or> (\<exists>a. r = Ok a \<and> f a = Err e)"
  by (cases r) auto

lemma and_then_eq_Panic:
  "and_then r f = Panic \<longleftrightarrow> r = Panic \<or> (\<exists>a. r = Ok a \<and> f a = Panic)"
  by (cases r) auto

lemma ok_or_eq [simp]:
  "ok_or e x = Ok a \<longleftrightarrow> x = Some a"
  "ok_or e x = Err e' \<longleftrightarrow> x = None \<and> e' = e"
  "ok_or e x \<noteq> Panic"
  by (cases x; auto)+

lemma expect_eq [simp]:
  "expect x = Ok a \<longleftrightarrow> x = Some a"
  "expect x \<noteq> Err e"
  "expect x = Panic \<longleftrightarrow> x = None"
  by (cases x; auto)+

lemma map_err_eq_Ok [simp]: "map_err g r = Ok a \<longleftrightarrow> r = Ok a"
  by (cases r) auto

text \<open>
  The same for a function on \<^verbatim>\<open>&mut self\<close>: the state and the environment are passed on in
  every outcome, because an early return keeps the mutations made so far.
\<close>

definition bind_st :: "('a, 'e) result \<times> 's \<times> 'w \<Rightarrow> ('a \<Rightarrow> 's \<Rightarrow> 'w \<Rightarrow> ('b, 'e) result \<times> 's \<times> 'w) \<Rightarrow> ('b, 'e) result \<times> 's \<times> 'w" where
  "bind_st r f =
     (case r of (Ok a, s, w) \<Rightarrow> f a s w | (Err e, s, w) \<Rightarrow> (Err e, s, w) | (Panic, s, w) \<Rightarrow> (Panic, s, w))"

lemma bind_st_simps [simp]:
  "bind_st (Ok a, s, w) f = f a s w"
  "bind_st (Err e, s, w) f = (Err e, s, w)"
  "bind_st (Panic, s, w) f = (Panic, s, w)"
  by (simp_all add: bind_st_def)

lemma bind_st_Ok:
  "bind_st t g = (Ok b, s', w') \<longleftrightarrow> (\<exists>a s w. t = (Ok a, s, w) \<and> g a s w = (Ok b, s', w'))"
  by (cases t rule: prod_cases3; cases "fst t") auto

lemma bind_st_OkE:
  assumes "bind_st t g = (Ok b, s', w')"
  obtains a s w where "t = (Ok a, s, w)" "g a s w = (Ok b, s', w')"
  using assms by (auto simp: bind_st_Ok)

lemma bind_st_cases:
  assumes "bind_st r f = (x, s, w)"
  obtains (ok) a s1 w1 where "r = (Ok a, s1, w1)" "f a s1 w1 = (x, s, w)"
    | (err) e where "r = (Err e, s, w)" "x = Err e"
    | (panic) "r = (Panic, s, w)" "x = Panic"
  using assms by (cases r rule: prod_cases3; cases "fst r") auto

text \<open>
  Every outcome keeps \<open>P\<close>, success moreover gives \<open>Q\<close>, and there is no panic.
\<close>

definition st_safe :: "('s \<Rightarrow> bool) \<Rightarrow> ('a \<Rightarrow> 's \<Rightarrow> bool) \<Rightarrow> ('a, 'e) result \<times> 's \<times> 'w \<Rightarrow> bool" where
  "st_safe P Q r =
     (case r of (Ok a, s, w) \<Rightarrow> P s \<and> Q a s | (Err e, s, w) \<Rightarrow> P s | (Panic, s, w) \<Rightarrow> False)"

lemma st_safe_simps [simp]:
  "st_safe P Q (Ok a, s, w) \<longleftrightarrow> P s \<and> Q a s"
  "st_safe P Q (Err e, s, w) \<longleftrightarrow> P s"
  "\<not> st_safe P Q (Panic, s, w)"
  by (simp_all add: st_safe_def)

lemma st_safe_bind:
  assumes "st_safe P Q r" and "\<And>a s w. P s \<Longrightarrow> Q a s \<Longrightarrow> st_safe P R (f a s w)"
  shows "st_safe P R (bind_st r f)"
proof -
  obtain x s w where r: "r = (x, s, w)" by (cases r)
  then show ?thesis using assms by (cases x) auto
qed

text \<open>A part of the state that no outcome changes.\<close>

definition st_keeps :: "('s \<Rightarrow> 'x) \<Rightarrow> 'x \<Rightarrow> ('a, 'e) result \<times> 's \<times> 'w \<Rightarrow> bool" where
  "st_keeps f x r \<longleftrightarrow> f (fst (snd r)) = x"

lemma st_keeps_simps [simp]: "st_keeps f x (y, s, w) \<longleftrightarrow> f s = x"
  by (simp add: st_keeps_def)

lemma st_keeps_bind:
  assumes "st_keeps f x r" and "\<And>a s w. f s = x \<Longrightarrow> st_keeps f x (g a s w)"
  shows "st_keeps f x (bind_st r g)"
proof -
  obtain y s w where r: "r = (y, s, w)" by (cases r)
  then show ?thesis using assms by (cases y) auto
qed

lemma st_safeD: "st_safe P Q (x, s, w) \<Longrightarrow> P s \<and> x \<noteq> Panic"
  by (cases x) auto

section \<open>Bytes and machine integers\<close>

type_synonym u8 = "8 word"
type_synonym u32 = "32 word"
type_synonym u64 = "64 word"
type_synonym bytes = "u8 list"

text \<open>A Rust array \<^verbatim>\<open>[u8; n]\<close> is a byte list of length \<open>n\<close>; the slice \<open>b[i..j]\<close>.\<close>

abbreviation is_array :: "nat \<Rightarrow> bytes \<Rightarrow> bool" where
  "is_array n b \<equiv> length b = n"

definition slice :: "nat \<Rightarrow> nat \<Rightarrow> bytes \<Rightarrow> bytes" where
  "slice i j b = take (j - i) (drop i b)"

lemma length_slice [simp]: "length (slice i j b) = min (length b - i) (j - i)"
  by (simp add: slice_def min.commute)

lemma slice_append_left [simp]: "slice 0 (length a) (a @ b) = a"
  by (simp add: slice_def)

lemma slice_join: "i \<le> j \<Longrightarrow> j \<le> k \<Longrightarrow> slice i j b @ slice j k b = slice i k b"
proof -
  assume ij: "i \<le> j" and jk: "j \<le> k"
  then have "drop j b = drop (j - i) (drop i b)" by simp
  then have "slice i j b @ slice j k b
      = take (j - i) (drop i b) @ take (k - j) (drop (j - i) (drop i b))"
    by (simp add: slice_def)
  also have "\<dots> = take ((j - i) + (k - j)) (drop i b)"
    by (simp only: take_add)
  finally show ?thesis using ij jk by (simp add: slice_def)
qed

lemma slice_all [simp]: "slice 0 (length b) b = b"
  by (simp add: slice_def)

text \<open>\<^verbatim>\<open>checked_add\<close>: \<^verbatim>\<open>None\<close> on overflow.\<close>

definition checked_add :: "'a::len word \<Rightarrow> 'a word \<Rightarrow> 'a word option" where
  "checked_add x y = (if unat x + unat y < 2 ^ LENGTH('a) then Some (x + y) else None)"

lemma checked_add_Some:
  fixes x y z :: "'a::len word"
  assumes "checked_add x y = Some z"
  shows "z = x + y" and "unat z = unat x + unat y"
  using assms by (auto simp: checked_add_def unat_word_ariths split: if_splits)

lemma checked_incr_less:
  fixes x y :: "'a::len word"
  assumes "x < y"
  shows "checked_add x 1 = Some (x + 1)" and "unat (x + 1) = Suc (unat x)"
proof -
  have "Suc (unat x) \<le> unat y"
    using assms by (simp add: word_less_nat_alt)
  then have "Suc (unat x) < 2 ^ LENGTH('a)"
    by (rule le_less_trans) simp
  then show ca: "checked_add x 1 = Some (x + 1)"
    by (simp add: checked_add_def)
  have one: "unat (1 :: 'a word) = 1" by simp
  from checked_add_Some(2) [OF ca] one show "unat (x + 1) = Suc (unat x)" by simp
qed

lemma unat_u32:
  assumes "x < 2 ^ 32" obtains n :: u32 where "unat n = x"
  using that [of "of_nat x"] assms by (simp add: unat_of_nat)

section \<open>Big-endian integers\<close>

definition to_be_bytes :: "nat \<Rightarrow> 'a::len word \<Rightarrow> bytes" where
  "to_be_bytes k x = map (\<lambda>i. ucast (drop_bit (8 * i) x)) (rev [0..<k])"

definition from_be_bytes :: "bytes \<Rightarrow> 'a::len word" where
  "from_be_bytes bs = foldl (\<lambda>a b. push_bit 8 a OR ucast b) 0 bs"

lemma length_to_be_bytes [simp]: "length (to_be_bytes k x) = k"
  by (simp add: to_be_bytes_def)

lemma bit_from_be_bytes:
  "bit (from_be_bytes bs :: 'a::len word) i \<longleftrightarrow>
     i < LENGTH('a) \<and> i < 8 * length bs \<and> bit (rev bs ! (i div 8)) (i mod 8)"
proof (induction bs arbitrary: i rule: rev_induct)
  case Nil
  then show ?case by (simp add: from_be_bytes_def)
next
  case (snoc b bs)
  have *: "from_be_bytes (bs @ [b]) = (push_bit 8 (from_be_bytes bs) OR ucast b :: 'a word)"
    by (simp add: from_be_bytes_def)
  show ?case
  proof (cases "i < 8")
    case True
    then show ?thesis
      by (auto simp: * bit_or_iff bit_push_bit_iff bit_ucast_iff dest: bit_imp_le_length)
  next
    case False
    then obtain j where j: "i = j + 8" by (metis add.commute le_Suc_ex not_less)
    have "\<not> bit b i" using False by (auto dest: bit_imp_le_length)
    then show ?thesis using j
      by (auto simp: * snoc.IH bit_or_iff bit_push_bit_iff bit_ucast_iff)
  qed
qed

lemma rev_to_be_bytes: "rev (to_be_bytes k x) = map (\<lambda>i. ucast (drop_bit (8 * i) x)) [0..<k]"
  by (simp add: to_be_bytes_def rev_map)

lemma from_to_be_bytes [simp, codec_simps]:
  fixes x :: "'a::len word"
  assumes "LENGTH('a) \<le> 8 * k"
  shows "from_be_bytes (to_be_bytes k x) = x"
proof (rule bit_word_eqI)
  fix i assume i: "i < LENGTH('a)"
  then have "i div 8 < k" using assms by linarith
  then show "bit (from_be_bytes (to_be_bytes k x) :: 'a word) i \<longleftrightarrow> bit x i"
    using i assms
    by (simp add: bit_from_be_bytes rev_to_be_bytes bit_ucast_iff bit_drop_bit_eq)
qed

lemma to_from_be_bytes [simp, codec_simps]:
  assumes "length bs = k" and "8 * k \<le> LENGTH('a::len)"
  shows "to_be_bytes k (from_be_bytes bs :: 'a word) = bs"
proof -
  have "rev (to_be_bytes k (from_be_bytes bs :: 'a word)) = rev bs"
  proof (rule nth_equalityI)
    show "length (rev (to_be_bytes k (from_be_bytes bs :: 'a word))) = length (rev bs)"
      using assms by simp
  next
    fix j assume "j < length (rev (to_be_bytes k (from_be_bytes bs :: 'a word)))"
    then have j: "j < k" by simp
    show "rev (to_be_bytes k (from_be_bytes bs :: 'a word)) ! j = rev bs ! j"
    proof (rule bit_word_eqI)
      fix i assume i: "i < LENGTH(8)"
      have "i + 8 * j < LENGTH('a)" using i j assms(2) by simp
      moreover have "(i + 8 * j) div 8 = j" "(i + 8 * j) mod 8 = i" using i by simp_all
      ultimately show "bit (rev (to_be_bytes k (from_be_bytes bs :: 'a word)) ! j) i
          \<longleftrightarrow> bit (rev bs ! j) i"
        using i j assms
        by (simp add: rev_to_be_bytes bit_from_be_bytes bit_ucast_iff bit_drop_bit_eq add.commute)
    qed
  qed
  then show ?thesis by simp
qed

section \<open>The interface of a byte codec\<close>

text \<open>
  A value written at a fixed width: what the framing of the associated data and the header
  format rely on. A codec adds the reader, which accepts exactly the images of the writer.
\<close>

locale fixed_width =
  fixes enc :: "'x \<Rightarrow> bytes" and valid :: "'x \<Rightarrow> bool" and width :: nat
  assumes length_enc: "valid x \<Longrightarrow> length (enc x) = width"
    and enc_inject: "valid x \<Longrightarrow> valid y \<Longrightarrow> enc x = enc y \<Longrightarrow> x = y"
begin

lemma frame_inject:
  assumes "valid x" and "valid y" and "enc x @ r = enc y @ s"
  shows "x = y \<and> r = s"
proof -
  have "length (enc x) = length (enc y)" using assms by (simp add: length_enc)
  then have "enc x = enc y" and "r = s" using assms(3) by simp_all
  then show ?thesis using assms enc_inject by blast
qed

end

locale fixed_codec =
  fixes enc :: "'x \<Rightarrow> bytes" and dec :: "bytes \<Rightarrow> ('x, 'e) result"
    and valid :: "'x \<Rightarrow> bool" and width :: nat
  assumes dec_enc: "valid x \<Longrightarrow> dec (enc x) = Ok x"
    and enc_dec: "length bs = width \<Longrightarrow> dec bs = Ok x \<Longrightarrow> enc x = bs \<and> valid x"
    and enc_width: "valid x \<Longrightarrow> length (enc x) = width"

sublocale fixed_codec \<subseteq> fixed_width enc valid width
proof
  fix x assume "valid x" then show "length (enc x) = width" by (rule enc_width)
next
  fix x y assume "valid x" "valid y" "enc x = enc y"
  then have "dec (enc x) = Ok x" and "dec (enc x) = Ok y" using dec_enc by metis+
  then show "x = y" by simp
qed

context fixed_codec
begin

lemma dec_iff:
  assumes "length bs = width"
  shows "dec bs = Ok x \<longleftrightarrow> valid x \<and> enc x = bs"
  using assms dec_enc enc_dec by blast

lemma dec_inject:
  assumes "length a = width" and "length b = width" and "dec a = Ok x" and "dec b = Ok x"
  shows "a = b"
  using assms enc_dec by metis

end

interpretation be32: fixed_width "to_be_bytes 4 :: u32 \<Rightarrow> bytes" "\<lambda>_. True" 4
  by unfold_locales (auto dest: arg_cong [where f = "from_be_bytes :: bytes \<Rightarrow> u32"])

interpretation be64: fixed_width "to_be_bytes 8 :: u64 \<Rightarrow> bytes" "\<lambda>_. True" 8
  by unfold_locales (auto dest: arg_cong [where f = "from_be_bytes :: bytes \<Rightarrow> u64"])

section \<open>The interface of a hash map\<close>

locale kv_map =
  fixes empty :: "'m"
    and lookup :: "'m \<Rightarrow> 'k \<Rightarrow> 'v option"
    and insert_kv :: "'k \<Rightarrow> 'v \<Rightarrow> 'm \<Rightarrow> 'm"
    and remove :: "'k \<Rightarrow> 'm \<Rightarrow> 'm"
    and len :: "'m \<Rightarrow> nat"
    and inv :: "'m \<Rightarrow> bool"
  assumes lookup_empty: "lookup empty = Map.empty"
    and lookup_insert: "lookup (insert_kv k v m) = (lookup m)(k \<mapsto> v)"
    and lookup_remove: "lookup (remove k m) = (lookup m)(k := None)"
    and inv_empty: "inv empty"
    and inv_insert: "inv m \<Longrightarrow> inv (insert_kv k v m)"
    and inv_remove: "inv m \<Longrightarrow> inv (remove k m)"
    and finite_dom: "finite (dom (lookup m))"
    and len_card: "inv m \<Longrightarrow> len m = card (dom (lookup m))"
begin

lemma len_empty: "len empty = 0"
  using len_card [OF inv_empty] by (simp add: lookup_empty)

lemma len_insert:
  "inv m \<Longrightarrow> len (insert_kv k v m) = (if lookup m k = None then Suc (len m) else len m)"
  using finite_dom [of m]
  by (auto simp: len_card inv_insert lookup_insert card_insert_if domIff)

lemma len_insert_le: "inv m \<Longrightarrow> len (insert_kv k v m) \<le> Suc (len m)"
  by (simp add: len_insert)

lemma len_remove:
  "inv m \<Longrightarrow> len (remove k m) = (if lookup m k = None then len m else len m - 1)"
  using finite_dom [of m]
  by (auto simp: len_card inv_remove lookup_remove card_Diff_singleton domIff)

lemma inv_removes: "inv m \<Longrightarrow> inv (fold remove ks m)"
  by (induction ks arbitrary: m) (auto intro: inv_remove)

lemma lookup_removes: "lookup (fold remove ks m) = (lookup m) |` (- set ks)"
  by (induction ks arbitrary: m)
    (auto simp: lookup_remove restrict_map_def fun_eq_iff)

lemma len_removes:
  assumes "inv m" and "distinct ks" and "set ks \<subseteq> dom (lookup m)"
  shows "len (fold remove ks m) = len m - length ks"
proof -
  have "dom (lookup (fold remove ks m)) = dom (lookup m) - set ks"
    by (auto simp: lookup_removes restrict_map_def split: if_splits)
  then have "len (fold remove ks m) = card (dom (lookup m) - set ks)"
    by (simp add: len_card inv_removes assms(1))
  also have "\<dots> = card (dom (lookup m)) - card (set ks)"
    using assms(3) by (simp add: card_Diff_subset)
  finally show ?thesis using assms by (simp add: len_card distinct_card)
qed

lemma inv_inserts: "inv m \<Longrightarrow> inv (fold (\<lambda>(k, v). insert_kv k v) kvs m)"
  by (induction kvs arbitrary: m) (auto intro: inv_insert)

lemma lookup_inserts:
  "lookup (fold (\<lambda>(k, v). insert_kv k v) kvs m) = lookup m ++ map_of (rev kvs)"
  by (induction kvs arbitrary: m) (auto simp: lookup_insert map_add_def fun_eq_iff split: option.splits)

text \<open>A map read back from its own entries, in whatever order they were listed.\<close>

lemma rebuild:
  assumes "distinct (map fst kvs)" and "map_of kvs = lookup m"
  shows "lookup (fold (\<lambda>(k, v). insert_kv k v) kvs empty) = lookup m"
proof -
  have "map_of (rev kvs) = map_of kvs"
    using assms(1) by (simp add: map_of_inject_set rev_map [symmetric])
  then show ?thesis using assms(2) by (simp add: lookup_inserts lookup_empty)
qed

end

text \<open>
  \<^verbatim>\<open>HashMap\<close> is an association list with distinct keys; its order means nothing by itself,
  the order the code sees is that of \<open>hm_iter\<close> below.
\<close>

abbreviation distinct_keys :: "('k \<times> 'v) list \<Rightarrow> bool" where
  "distinct_keys m \<equiv> distinct (map fst m)"

interpretation hm: kv_map "[]" map_of AList.update AList.delete length distinct_keys
proof
  fix m :: "('k \<times> 'v) list" assume "distinct_keys m"
  then show "length m = card (dom (map_of m))"
    by (metis dom_map_of_conv_image_fst distinct_card length_map set_map)
qed (auto simp: update_conv' delete_conv' finite_dom_map_of intro: distinct_update distinct_delete)

section \<open>Machines\<close>

text \<open>
  A machine whose every step keeps a predicate, and one that also issues values indexed by a
  counter: what it issues over any run is distinct.
\<close>

fun emissions :: "('op \<Rightarrow> 's \<Rightarrow> 's) \<Rightarrow> ('op \<Rightarrow> 's \<Rightarrow> 'e option) \<Rightarrow> 'op list \<Rightarrow> 's \<Rightarrow> 'e list" where
  "emissions step emit [] s = []"
| "emissions step emit (op # ops) s =
     (case emit op s of None \<Rightarrow> [] | Some e \<Rightarrow> [e]) @ emissions step emit ops (step op s)"

locale guarded_machine =
  fixes step :: "'op \<Rightarrow> 's \<Rightarrow> 's" and good :: "'s \<Rightarrow> bool"
  assumes step_good: "good s \<Longrightarrow> good (step op s)"
begin

lemma run_good: "good s \<Longrightarrow> good (fold step ops s)"
  by (induction ops arbitrary: s) (simp_all add: step_good)

end

locale issuing_machine = guarded_machine +
  fixes emit :: "'op \<Rightarrow> 's \<Rightarrow> 'e option" and index :: "'e \<Rightarrow> nat" and counter :: "'s \<Rightarrow> nat"
  assumes emit_index: "good s \<Longrightarrow> emit op s = Some e \<Longrightarrow> index e = counter s \<and> counter s < counter (step op s)"
    and counter_mono: "good s \<Longrightarrow> counter s \<le> counter (step op s)"
begin

lemma emissions_above:
  "good s \<Longrightarrow> e \<in> set (emissions step emit ops s) \<Longrightarrow> counter s \<le> index e"
proof (induction ops arbitrary: s)
  case (Cons op ops)
  then show ?case
    using emit_index [of s op] counter_mono [of s op] step_good [of s op]
    by (fastforce split: option.splits)
qed simp

lemma emissions_distinct: "good s \<Longrightarrow> distinct (emissions step emit ops s)"
proof (induction ops arbitrary: s)
  case (Cons op ops)
  have "e \<notin> set (emissions step emit ops (step op s))" if "emit op s = Some e" for e
    using emissions_above [OF step_good [OF Cons.prems], of e ops op] emit_index [OF Cons.prems that] by auto
  then show ?case using Cons step_good by (auto split: option.splits)
qed simp

end

section \<open>The environment\<close>

text \<open>
  \<open>rand_tape\<close> is the output of \<^verbatim>\<open>OsRng\<close> and \<open>rand_pos\<close> how much of it has been drawn,
  \<open>clock\<close> the successive readings of \<^verbatim>\<open>SystemTime::now()\<close> (not assumed monotone) and
  \<open>ticks\<close> the number taken. \<open>hash_rank\<close> gives the iteration order of a hash map: it may
  depend on every key in the map, so any order of any map is some \<open>hash_rank\<close>.
\<close>

record World =
  rand_tape :: "nat \<Rightarrow> u8"
  rand_pos :: nat
  clock :: "nat \<Rightarrow> int"
  ticks :: nat
  hash_rank :: "(bytes \<times> u32) list \<Rightarrow> bytes \<times> u32 \<Rightarrow> nat"

definition os_rng_fill :: "nat \<Rightarrow> World \<Rightarrow> bytes \<times> World" where
  "os_rng_fill n w =
     (map (rand_tape w) [rand_pos w..<rand_pos w + n], w\<lparr>rand_pos := rand_pos w + n\<rparr>)"

definition system_time_now :: "World \<Rightarrow> int \<times> World" where
  "system_time_now w = (clock w (ticks w), w\<lparr>ticks := Suc (ticks w)\<rparr>)"

definition hm_iter :: "World \<Rightarrow> ((bytes \<times> u32) \<times> 'v) list \<Rightarrow> ((bytes \<times> u32) \<times> 'v) list" where
  "hm_iter w m = sort_key (\<lambda>(k, v). hash_rank w (map fst m) k) m"

lemma length_os_rng_fill [simp]: "length (fst (os_rng_fill n w)) = n"
  by (simp add: os_rng_fill_def)

lemma hm_iter_perm [simp]:
  "mset (hm_iter w m) = mset m" "set (hm_iter w m) = set m" "length (hm_iter w m) = length m"
  by (simp_all add: hm_iter_def)

lemma distinct_hm_iter [simp]: "distinct_keys (hm_iter w m) = distinct_keys m"
proof -
  have "mset (map fst (hm_iter w m)) = mset (map fst m)" by simp
  then show ?thesis by (rule mset_eq_imp_distinct_iff)
qed

lemma map_of_hm_iter: "distinct_keys m \<Longrightarrow> map_of (hm_iter w m) = map_of m"
  by (simp add: map_of_inject_set)

end
