(* ===== verification/Primitives.thy ===== *)
theory Primitives
  imports Rust_Prelude
begin

text \<open>
  The third-party cryptography the crate calls (\<^verbatim>\<open>x25519-dalek\<close>, \<^verbatim>\<open>hmac\<close>, \<^verbatim>\<open>hkdf\<close>,
  \<^verbatim>\<open>sha2\<close>, \<^verbatim>\<open>aes-gcm\<close>, \<^verbatim>\<open>cbc\<close>) is a parameter of every definition that uses it: a record
  of functions over bytes. Its documented behaviour is stated as separate predicates, so that a
  theorem names exactly what it relies on. No predicate claims secrecy or unforgeability: where
  a theorem needs a header not to open under a foreign key, that is a hypothesis about the keys
  of the run at hand. \<open>reference_crypto\<close> is one executable instance with all the predicates.
\<close>

section \<open>The primitives\<close>

record crypto =
  x25519_dh :: "bytes \<Rightarrow> bytes \<Rightarrow> bytes" \<comment> \<open>\<open>StaticSecret::diffie_hellman\<close>: secret, public\<close>
  x25519_base :: "bytes \<Rightarrow> bytes" \<comment> \<open>\<open>PublicKey::from(&StaticSecret)\<close>\<close>
  hmac_sha256 :: "bytes \<Rightarrow> bytes \<Rightarrow> bytes" \<comment> \<open>key, message\<close>
  hkdf_sha256 :: "bytes option \<Rightarrow> bytes \<Rightarrow> bytes \<Rightarrow> nat \<Rightarrow> bytes option"
    \<comment> \<open>\<open>Hkdf::new(salt, ikm).expand(info, okm)\<close> with the length of \<open>okm\<close>\<close>
  hkdf_sha512 :: "bytes option \<Rightarrow> bytes \<Rightarrow> bytes \<Rightarrow> nat \<Rightarrow> bytes option"
  sha512 :: "bytes \<Rightarrow> bytes"
  aes256gcm_encrypt :: "bytes \<Rightarrow> bytes \<Rightarrow> bytes \<Rightarrow> bytes option" \<comment> \<open>key, nonce, plaintext\<close>
  aes256gcm_decrypt :: "bytes \<Rightarrow> bytes \<Rightarrow> bytes \<Rightarrow> bytes option" \<comment> \<open>key, nonce, ciphertext\<close>
  aes256cbc_encrypt :: "bytes \<Rightarrow> bytes \<Rightarrow> bytes \<Rightarrow> bytes" \<comment> \<open>key, IV, plaintext; PKCS#7\<close>
  aes256cbc_decrypt :: "bytes \<Rightarrow> bytes \<Rightarrow> bytes \<Rightarrow> bytes option" \<comment> \<open>key, IV, ciphertext\<close>

section \<open>Their documented behaviour\<close>

definition hmac_sized :: "crypto \<Rightarrow> bool" where
  "hmac_sized c \<longleftrightarrow> (\<forall>k m. length (hmac_sha256 c k m) = 32)"

text \<open>HKDF fails only when more than 255 blocks of output are asked for (RFC 5869).\<close>

definition hkdf_total :: "crypto \<Rightarrow> bool" where
  "hkdf_total c \<longleftrightarrow>
     (\<forall>salt ikm info n. n \<le> 255 * 32 \<longrightarrow>
        (\<exists>okm. hkdf_sha256 c salt ikm info n = Some okm \<and> length okm = n)) \<and>
     (\<forall>salt ikm info n. n \<le> 255 * 64 \<longrightarrow>
        (\<exists>okm. hkdf_sha512 c salt ikm info n = Some okm \<and> length okm = n))"

definition sha512_sized :: "crypto \<Rightarrow> bool" where
  "sha512_sized c \<longleftrightarrow> (\<forall>x. length (sha512 c x) = 64)"

definition x25519_sized :: "crypto \<Rightarrow> bool" where
  "x25519_sized c \<longleftrightarrow>
     (\<forall>a. is_array 32 a \<longrightarrow> is_array 32 (x25519_base c a)) \<and>
     (\<forall>a b. is_array 32 a \<longrightarrow> is_array 32 b \<longrightarrow> is_array 32 (x25519_dh c a b))"

text \<open>Diffie-Hellman: both sides compute the same point (RFC 7748, section 6.1).\<close>

definition dh_commutes :: "crypto \<Rightarrow> bool" where
  "dh_commutes c \<longleftrightarrow>
     (\<forall>a b. is_array 32 a \<longrightarrow> is_array 32 b \<longrightarrow>
        x25519_dh c a (x25519_base c b) = x25519_dh c b (x25519_base c a))"

definition gcm_correct :: "crypto \<Rightarrow> bool" where
  "gcm_correct c \<longleftrightarrow>
     (\<forall>k nonce p. is_array 32 k \<longrightarrow> is_array 12 nonce \<longrightarrow> length p \<le> 2 ^ 36 \<longrightarrow>
        (\<exists>ct. aes256gcm_encrypt c k nonce p = Some ct \<and> length ct = length p + 16 \<and>
              aes256gcm_decrypt c k nonce ct = Some p))"

definition cbc_correct :: "crypto \<Rightarrow> bool" where
  "cbc_correct c \<longleftrightarrow>
     (\<forall>k iv p. is_array 32 k \<longrightarrow> is_array 16 iv \<longrightarrow>
        length (aes256cbc_encrypt c k iv p) = 16 * Suc (length p div 16) \<and>
        aes256cbc_decrypt c k iv (aes256cbc_encrypt c k iv p) = Some p)"

definition crypto_ok :: "crypto \<Rightarrow> bool" where
  "crypto_ok c \<longleftrightarrow> hmac_sized c \<and> hkdf_total c \<and> sha512_sized c \<and> x25519_sized c \<and>
     dh_commutes c \<and> gcm_correct c \<and> cbc_correct c"

lemma hmac_sizedD: "hmac_sized c \<Longrightarrow> length (hmac_sha256 c k m) = 32"
  by (simp add: hmac_sized_def)

lemma hkdf_totalD:
  assumes "hkdf_total c"
  shows "n \<le> 8160 \<Longrightarrow> \<exists>okm. hkdf_sha256 c salt ikm info n = Some okm \<and> length okm = n"
    and "n \<le> 16320 \<Longrightarrow> \<exists>okm. hkdf_sha512 c salt ikm info n = Some okm \<and> length okm = n"
  using assms by (simp_all add: hkdf_total_def)

lemma dh_commutesD:
  "dh_commutes c \<Longrightarrow> is_array 32 a \<Longrightarrow> is_array 32 b \<Longrightarrow>
     x25519_dh c a (x25519_base c b) = x25519_dh c b (x25519_base c a)"
  by (simp add: dh_commutes_def)

lemma gcm_correctD:
  "gcm_correct c \<Longrightarrow> is_array 32 k \<Longrightarrow> is_array 12 nonce \<Longrightarrow> length p \<le> 2 ^ 36 \<Longrightarrow>
     \<exists>ct. aes256gcm_encrypt c k nonce p = Some ct \<and> length ct = length p + 16 \<and>
          aes256gcm_decrypt c k nonce ct = Some p"
  by (simp add: gcm_correct_def)

lemma crypto_okD:
  assumes "crypto_ok c"
  shows "hmac_sized c" and "hkdf_total c" and "sha512_sized c" and "x25519_sized c"
    and "dh_commutes c" and "gcm_correct c" and "cbc_correct c"
  using assms by (simp_all add: crypto_ok_def)

section \<open>An executable instance\<close>

text \<open>
  No security, only the documented laws: the hashes repeat a byte computed from the first byte
  of the key and the sum of the message, Diffie-Hellman adds the two byte strings, and the
  ciphers leave the text in the clear, the first with a tag that depends on the key, the
  second with PKCS#7 padding. Runs on it are computed by rewriting.
\<close>

definition ref_byte :: "bytes \<Rightarrow> u8" where
  "ref_byte b = (case b of [] \<Rightarrow> 0 | x # _ \<Rightarrow> x)"

definition ref_expand :: "nat \<Rightarrow> u8 \<Rightarrow> bytes" where
  "ref_expand n s = take n (replicate 32 s @ replicate 32 (s + 1) @ replicate n (s + 2))"

definition ref_hkdf :: "nat \<Rightarrow> bytes option \<Rightarrow> bytes \<Rightarrow> bytes \<Rightarrow> nat \<Rightarrow> bytes option" where
  "ref_hkdf limit salt ikm info n =
     (if n \<le> limit
      then Some (ref_expand n ((case salt of None \<Rightarrow> 0 | Some s \<Rightarrow> ref_byte s) + ref_byte ikm + sum_list info))
      else None)"

definition ref_tag :: "bytes \<Rightarrow> bytes" where
  "ref_tag k = take 16 k"

definition ref_unseal :: "bytes \<Rightarrow> bytes \<Rightarrow> bytes option" where
  "ref_unseal k ct =
     (if 16 \<le> length ct \<and> drop (length ct - 16) ct = ref_tag k
      then Some (take (length ct - 16) ct) else None)"

definition ref_pad :: "bytes \<Rightarrow> bytes" where
  "ref_pad p = (let d = 16 - length p mod 16 in p @ replicate d (of_nat d))"

definition ref_unpad :: "bytes \<Rightarrow> bytes option" where
  "ref_unpad ct =
     (if ct = [] then None
      else let d = unat (last ct) in
        if 1 \<le> d \<and> d \<le> 16 \<and> d \<le> length ct then Some (take (length ct - d) ct) else None)"

definition reference_crypto :: crypto where
  "reference_crypto = \<lparr>
     x25519_dh = (\<lambda>a p. map2 (+) a p),
     x25519_base = (\<lambda>a. a),
     hmac_sha256 = (\<lambda>k m. replicate 32 (ref_byte k + sum_list m + 5)),
     hkdf_sha256 = ref_hkdf 8160,
     hkdf_sha512 = ref_hkdf 16320,
     sha512 = (\<lambda>x. ref_expand 64 (sum_list x)),
     aes256gcm_encrypt = (\<lambda>k nonce p. Some (p @ ref_tag k)),
     aes256gcm_decrypt = (\<lambda>k nonce ct. ref_unseal k ct),
     aes256cbc_encrypt = (\<lambda>k iv p. ref_pad p),
     aes256cbc_decrypt = (\<lambda>k iv ct. ref_unpad ct) \<rparr>"

text \<open>An environment for runs on it.\<close>

definition demo_world :: World where
  "demo_world = \<lparr> rand_tape = (\<lambda>i. of_nat (3 + i div 32)), rand_pos = 0, clock = int, ticks = 0,
                  hash_rank = (\<lambda>_ (_, n). unat n) \<rparr>"

lemma reference_crypto_simps [run_simps]:
  "x25519_dh reference_crypto a p = map2 (+) a p"
  "x25519_base reference_crypto a = a"
  "hmac_sha256 reference_crypto k m = replicate 32 (ref_byte k + sum_list m + 5)"
  "hkdf_sha256 reference_crypto = ref_hkdf 8160"
  "hkdf_sha512 reference_crypto = ref_hkdf 16320"
  "aes256gcm_encrypt reference_crypto k nonce p = Some (p @ ref_tag k)"
  "aes256gcm_decrypt reference_crypto k nonce ct = ref_unseal k ct"
  "aes256cbc_encrypt reference_crypto k iv p = ref_pad p"
  "aes256cbc_decrypt reference_crypto k iv ct = ref_unpad ct"
  by (simp_all add: reference_crypto_def)

lemma ref_byte_replicate [run_simps]: "0 < n \<Longrightarrow> ref_byte (replicate n x) = x"
  by (cases n) (simp_all add: ref_byte_def)

lemma sum_list_replicate_word [run_simps]: "sum_list (replicate n (x :: u8)) = of_nat n * x"
  by (simp add: sum_list_replicate)

lemma map2_replicate [run_simps]: "map2 (+) (replicate n x) (replicate n y) = replicate n (x + y :: u8)"
  by (simp add: zip_replicate)

lemma length_ref_expand [simp]: "length (ref_expand n s) = n"
  by (simp add: ref_expand_def)

lemma ref_unseal_tag: "length k = 32 \<Longrightarrow> ref_unseal k (p @ ref_tag k) = Some p"
  by (simp add: ref_unseal_def ref_tag_def)

lemma ref_unpad_pad: "ref_unpad (ref_pad p) = Some p"
proof -
  define d where "d = 16 - length p mod 16"
  have d: "1 \<le> d" "d \<le> 16" by (simp_all add: d_def Suc_leI)
  then have "unat (of_nat d :: u8) = d" by (simp add: unat_of_nat)
  moreover have "last (ref_pad p) = of_nat d" "ref_pad p = p @ replicate d (of_nat d)"
    using d by (simp_all add: ref_pad_def d_def [symmetric] Let_def)
  ultimately show ?thesis using d by (auto simp: ref_unpad_def Let_def)
qed

lemma length_ref_pad: "length (ref_pad p) = 16 * Suc (length p div 16)"
proof -
  have "length p + (16 - length p mod 16) = 16 * Suc (length p div 16)" by presburger
  then show ?thesis by (simp add: ref_pad_def Let_def)
qed

lemma reference_crypto_ok: "crypto_ok reference_crypto"
proof -
  have "map2 (+) a b = map2 (+) b a" for a b :: bytes
    by (simp add: list_eq_iff_nth_eq add.commute min.commute)
  then show ?thesis
    by (simp add: crypto_ok_def hmac_sized_def hkdf_total_def sha512_sized_def x25519_sized_def
        dh_commutes_def gcm_correct_def cbc_correct_def reference_crypto_def ref_hkdf_def
        ref_unseal_tag ref_unpad_pad length_ref_pad) (simp add: ref_tag_def)
qed

end
