(* ===== verification/Ratchet_Types.thy ===== *)
theory Ratchet_Types
  imports Primitives
begin

text \<open>
  The data of \<^verbatim>\<open>src/ratchet.rs\<close>: the error enum, the limits, the message header with its
  40-byte wire format, the skipped message keys and the session state.
\<close>

section \<open>Errors and limits\<close>

datatype RatchetError =
    InvalidKey | DecryptionFailed | OldMessageKeysLimitReached | DuplicateMessage
  | InvalidHeader | HeaderDecryptionFailed | CounterOverflow | ADTooLarge
  | InvalidState | TooManyMessages

definition MAX_SKIP :: u32 where "MAX_SKIP = 1000"
definition MAX_SKIPPED_KEYS :: nat where "MAX_SKIPPED_KEYS = 2000"
definition MAX_AD_SIZE :: nat where "MAX_AD_SIZE = 64 * 1024"
definition MAX_RECEIVED_TRACKING :: nat where "MAX_RECEIVED_TRACKING = 10000"

definition ascii :: "string \<Rightarrow> bytes" where
  "ascii s = map of_char s"

definition HKDF_INFO_ROOT :: bytes where
  "HKDF_INFO_ROOT = ascii ''Signal-DoubleRatchet-Root''"

section \<open>The message header\<close>

type_synonym DhPublicKey = bytes
type_synonym DhPrivateKey = bytes

record RatchetHeader =
  dh_pub :: DhPublicKey
  hdr_pn :: u32
  hdr_n :: u32

definition to_bytes :: "RatchetHeader \<Rightarrow> bytes" where
  "to_bytes h = dh_pub h @ to_be_bytes 4 (hdr_pn h) @ to_be_bytes 4 (hdr_n h)"

definition from_bytes :: "bytes \<Rightarrow> (RatchetHeader, RatchetError) result" where
  "from_bytes b =
     (if length b \<noteq> 32 + 4 + 4 then Err InvalidHeader
      else Ok \<lparr> dh_pub = slice 0 32 b,
                hdr_pn = from_be_bytes (slice 32 36 b),
                hdr_n = from_be_bytes (slice 36 40 b) \<rparr>)"

definition valid_header :: "RatchetHeader \<Rightarrow> bool" where
  "valid_header h \<longleftrightarrow> is_array 32 (dh_pub h)"

interpretation header: fixed_codec to_bytes from_bytes valid_header 40
proof
  fix h assume "valid_header h"
  then show "from_bytes (to_bytes h) = Ok h"
    by (simp add: valid_header_def from_bytes_def to_bytes_def slice_def)
next
  fix b h assume len: "length b = 40" and ok: "from_bytes b = Ok h"
  have "slice 0 32 b @ slice 32 36 b @ slice 36 40 b = b"
    using len slice_all [of b] by (simp add: slice_join)
  with len ok show "to_bytes h = b \<and> valid_header h"
    by (auto simp: from_bytes_def to_bytes_def valid_header_def)
next
  fix h assume "valid_header h"
  then show "length (to_bytes h) = 40" by (simp add: valid_header_def to_bytes_def)
qed

lemma from_bytes_cases:
  "from_bytes b = Err InvalidHeader \<and> length b \<noteq> 40 \<or>
   (\<exists>h. from_bytes b = Ok h \<and> length b = 40 \<and> valid_header h \<and> to_bytes h = b)"
proof (cases "length b = 40")
  case True
  then obtain h where "from_bytes b = Ok h" by (simp add: from_bytes_def)
  with True header.enc_dec [of b h] show ?thesis by blast
qed (simp add: from_bytes_def)

lemma from_bytes_OkD: "from_bytes b = Ok h \<Longrightarrow> valid_header h"
  using from_bytes_cases [of b] by auto

lemma from_bytes_no_Panic [simp]: "from_bytes b \<noteq> Panic"
  using from_bytes_cases [of b] by auto

section \<open>The session state\<close>

record SkippedKey =
  skipped_mk :: bytes
  timestamp :: int

type_synonym SkippedKeyMap = "((bytes \<times> u32) \<times> SkippedKey) list"
type_synonym KeyPair = "DhPrivateKey \<times> DhPublicKey"
type_synonym KdfRkOutput = "bytes \<times> bytes \<times> bytes"

record RatchetState =
  dh_pair :: KeyPair
  dh_remote :: "DhPublicKey option"
  rk :: bytes
  ck_s :: "bytes option"
  ck_r :: "bytes option"
  hk_s :: "bytes option"
  hk_r :: "bytes option"
  nhk_s :: bytes
  nhk_r :: bytes
  ns :: u32
  nr :: u32
  pn :: u32
  mkskipped :: SkippedKeyMap
  header_nonce_counter :: u64
  is_sender :: bool
  received_messages :: "(bytes \<times> u32) fset"

text \<open>
  Rust's array types as an invariant: every key is 32 bytes, and the skipped keys are a map.
\<close>

definition option_array :: "nat \<Rightarrow> bytes option \<Rightarrow> bool" where
  "option_array n x \<longleftrightarrow> (case x of None \<Rightarrow> True | Some b \<Rightarrow> is_array n b)"

lemma option_array_simps [simp]:
  "option_array n None" "option_array n (Some b) = is_array n b"
  by (simp_all add: option_array_def)

definition wf_skipped :: "SkippedKeyMap \<Rightarrow> bool" where
  "wf_skipped m \<longleftrightarrow> distinct_keys m \<and>
     (\<forall>((hk, n), s) \<in> set m. is_array 32 hk \<and> is_array 32 (skipped_mk s))"

definition wf_state :: "RatchetState \<Rightarrow> bool" where
  "wf_state st \<longleftrightarrow>
     is_array 32 (fst (dh_pair st)) \<and> is_array 32 (snd (dh_pair st)) \<and>
     option_array 32 (dh_remote st) \<and> is_array 32 (rk st) \<and>
     option_array 32 (ck_s st) \<and> option_array 32 (ck_r st) \<and>
     option_array 32 (hk_s st) \<and> option_array 32 (hk_r st) \<and>
     is_array 32 (nhk_s st) \<and> is_array 32 (nhk_r st) \<and> wf_skipped (mkskipped st)"

lemma wf_stateD:
  assumes "wf_state st"
  shows "is_array 32 (fst (dh_pair st))" "is_array 32 (snd (dh_pair st))"
    "option_array 32 (dh_remote st)" "is_array 32 (rk st)" "option_array 32 (ck_s st)"
    "option_array 32 (ck_r st)" "option_array 32 (hk_s st)" "option_array 32 (hk_r st)"
    "is_array 32 (nhk_s st)" "is_array 32 (nhk_r st)" "wf_skipped (mkskipped st)"
  using assms by (simp_all add: wf_state_def)

lemma wf_skipped_Nil [simp, wf_intros]: "wf_skipped []"
  by (simp add: wf_skipped_def)

lemma wf_skippedD: "wf_skipped m \<Longrightarrow> distinct_keys m"
  by (simp add: wf_skipped_def)

lemma wf_skipped_insert [wf_intros]:
  assumes "wf_skipped m" and "is_array 32 hk" and "is_array 32 (skipped_mk s)"
  shows "wf_skipped (AList.update (hk, n) s m)"
proof -
  have "set (AList.update (hk, n) s m) \<subseteq> insert ((hk, n), s) (set m)"
    by (induction m) auto
  with assms show ?thesis
    by (auto simp: wf_skipped_def distinct_update)
qed

lemma set_delete_subset: "set (AList.delete k m) \<subseteq> set m"
  by (auto simp: AList.delete_eq)

lemma wf_skipped_delete [wf_intros]: "wf_skipped m \<Longrightarrow> wf_skipped (AList.delete k m)"
  using set_delete_subset [of k m]
  by (auto simp: wf_skipped_def intro!: distinct_delete)

lemma wf_skipped_deletes [wf_intros]: "wf_skipped m \<Longrightarrow> wf_skipped (fold AList.delete ks m)"
  by (induction ks arbitrary: m) (auto intro: wf_skipped_delete)

lemma wf_skipped_lookup:
  "wf_skipped m \<Longrightarrow> map_of m (hk, n) = Some s \<Longrightarrow> is_array 32 hk \<and> is_array 32 (skipped_mk s)"
  by (auto simp: wf_skipped_def dest!: map_of_SomeD)

section \<open>Properties\<close>

text \<open>C33: A header of 40 bytes reads back as exactly the header whose encoding it is, whatever its
  public key and counters, and every other length is refused as an invalid header.\<close>

theorem header_roundtrip:
  "(from_bytes b = Ok h \<longleftrightarrow> valid_header h \<and> to_bytes h = b) \<and>
   (from_bytes b = Err e \<longleftrightarrow> e = InvalidHeader \<and> length b \<noteq> 40)"
proof
  show "from_bytes b = Ok h \<longleftrightarrow> valid_header h \<and> to_bytes h = b"
    using from_bytes_cases [of b] header.dec_enc [of h] by fastforce
  show "from_bytes b = Err e \<longleftrightarrow> e = InvalidHeader \<and> length b \<noteq> 40"
    by (auto simp: from_bytes_def)
qed

end
