(* ===== verification/Ratchet_Kdf.thy ===== *)
theory Ratchet_Kdf
  imports Ratchet_Types
begin

text \<open>
  The cryptographic helpers of \<^verbatim>\<open>src/ratchet.rs\<close>: the three key derivations, the
  encrypt-then-MAC encryption of messages, the AES-GCM encryption of headers and the framing
  of the associated data. A locale states what the ratchet needs of an authenticated
  encryption; both encryptions interpret it.
\<close>

section \<open>Key derivation\<close>

definition kdf_rk_he :: "crypto \<Rightarrow> bytes \<Rightarrow> bytes \<Rightarrow> (KdfRkOutput, RatchetError) result" where
  "kdf_rk_he c root_key dh_out =
     and_then (ok_or InvalidKey (hkdf_sha512 c (Some root_key) dh_out HKDF_INFO_ROOT 96))
       (\<lambda>okm. Ok (slice 0 32 okm, slice 32 64 okm, slice 64 96 okm))"

definition derive_header_keys :: "crypto \<Rightarrow> bytes \<Rightarrow> (bytes \<times> bytes, RatchetError) result" where
  "derive_header_keys c sk =
     and_then (expect (hkdf_sha256 c None sk (ascii ''Signal-Header-Initiator-v1'') 32))
       (\<lambda>initiator_hk.
     and_then (expect (hkdf_sha256 c None sk (ascii ''Signal-Header-Responder-v1'') 32))
       (\<lambda>responder_hk. Ok (initiator_hk, responder_hk)))"

definition kdf_ck :: "crypto \<Rightarrow> bytes \<Rightarrow> bytes \<times> bytes" where
  "kdf_ck c ck = (hmac_sha256 c ck [0x01], hmac_sha256 c ck [0x02])"

lemma kdf_ck_sized:
  assumes "hmac_sized c"
  shows "is_array 32 (fst (kdf_ck c ck))" and "is_array 32 (snd (kdf_ck c ck))"
  using assms by (simp_all add: kdf_ck_def hmac_sizedD)

lemma kdf_rk_he_sized:
  assumes "hkdf_total c" and "kdf_rk_he c root_key dh_out = Ok (a, b, d)"
  shows "is_array 32 a" and "is_array 32 b" and "is_array 32 d"
  using assms hkdf_totalD(2) [OF assms(1), of 96 "Some root_key" dh_out HKDF_INFO_ROOT]
  by (auto simp: kdf_rk_he_def)

lemma kdf_rk_he_total:
  assumes "hkdf_total c"
  shows "\<exists>a b d. kdf_rk_he c root_key dh_out = Ok (a, b, d)"
  using hkdf_totalD(2) [OF assms, of 96 "Some root_key" dh_out HKDF_INFO_ROOT]
  by (auto simp: kdf_rk_he_def)

lemma kdf_rk_he_no_Panic [simp]: "kdf_rk_he c root_key dh_out \<noteq> Panic"
  by (simp add: kdf_rk_he_def and_then_eq_Panic)

lemma kdf_rk_he_Err: "kdf_rk_he c root_key dh_out = Err e \<Longrightarrow> e = InvalidKey"
  by (auto simp: kdf_rk_he_def and_then_eq_Err)

lemma derive_header_keys_total:
  assumes "hkdf_total c"
  shows "\<exists>i r. derive_header_keys c sk = Ok (i, r) \<and> is_array 32 i \<and> is_array 32 r"
  using hkdf_totalD(1) [OF assms, of 32 None sk "ascii ''Signal-Header-Initiator-v1''"]
    hkdf_totalD(1) [OF assms, of 32 None sk "ascii ''Signal-Header-Responder-v1''"]
  by (auto simp: derive_header_keys_def)

section \<open>Message encryption\<close>

definition expand_message_key :: "crypto \<Rightarrow> bytes \<Rightarrow> (bytes \<times> bytes \<times> bytes, RatchetError) result" where
  "expand_message_key c mk =
     and_then (expect (hkdf_sha256 c (Some (replicate 32 0)) mk
                         (ascii ''Signal-DoubleRatchet-Encrypt'') 80))
       (\<lambda>okm. Ok (slice 0 32 okm, slice 32 64 okm, slice 64 80 okm))"

definition encrypt_aead :: "crypto \<Rightarrow> bytes \<Rightarrow> bytes \<Rightarrow> bytes \<Rightarrow> (bytes, RatchetError) result" where
  "encrypt_aead c mk plaintext ad =
     and_then (expand_message_key c mk) (\<lambda>(enc_key, auth_key, iv).
       let ciphertext = aes256cbc_encrypt c enc_key iv plaintext;
           tag = hmac_sha256 c auth_key (ad @ ciphertext)
       in Ok (ciphertext @ tag))"

definition decrypt_aead :: "crypto \<Rightarrow> bytes \<Rightarrow> bytes \<Rightarrow> bytes \<Rightarrow> (bytes, RatchetError) result" where
  "decrypt_aead c mk ciphertext ad =
     (if length ciphertext < 48 then Err DecryptionFailed
      else let tag_start = length ciphertext - 32;
               ct_bytes = take tag_start ciphertext;
               received_tag = drop tag_start ciphertext
      in and_then (expand_message_key c mk) (\<lambda>(enc_key, auth_key, iv).
           let expected_tag = hmac_sha256 c auth_key (ad @ ct_bytes)
           in if expected_tag \<noteq> received_tag then Err DecryptionFailed
              else ok_or DecryptionFailed (aes256cbc_decrypt c enc_key iv ct_bytes)))"

lemma expand_message_key_total:
  assumes "hkdf_total c"
  shows "\<exists>e a i. expand_message_key c mk = Ok (e, a, i) \<and> is_array 32 e \<and> is_array 32 a \<and> is_array 16 i"
  using hkdf_totalD(1) [OF assms, of 80 "Some (replicate 32 0)" mk
      "ascii ''Signal-DoubleRatchet-Encrypt''"]
  by (auto simp: expand_message_key_def)

lemma decrypt_aead_no_Panic [simp]: "hkdf_total c \<Longrightarrow> decrypt_aead c mk ct ad \<noteq> Panic"
  using expand_message_key_total [of c mk]
  by (auto simp: decrypt_aead_def Let_def split: if_splits)

lemma decrypt_aead_Err: "decrypt_aead c mk ct ad = Err e \<Longrightarrow> e = DecryptionFailed"
  by (auto simp: decrypt_aead_def expand_message_key_def Let_def and_then_eq_Err split: if_splits)

text \<open>
  The interface of an authenticated encryption, for the ratchet: sealing always succeeds on
  the messages the ratchet seals, and opening gives the message back. \<open>ok\<close> is what the
  underlying primitives have to satisfy.
\<close>

locale sealing =
  fixes ok :: "crypto \<Rightarrow> bool" and key_ok :: "bytes \<Rightarrow> bool" and msg_ok :: "'m \<Rightarrow> bool"
    and param_ok :: "'a \<Rightarrow> bool"
    and seal :: "crypto \<Rightarrow> bytes \<Rightarrow> 'a \<Rightarrow> 'm \<Rightarrow> (bytes, RatchetError) result"
    and unseal :: "crypto \<Rightarrow> bytes \<Rightarrow> 'a \<Rightarrow> bytes \<Rightarrow> ('m, RatchetError) result"
  assumes seal_unseal: "ok c \<Longrightarrow> key_ok k \<Longrightarrow> param_ok a \<Longrightarrow> msg_ok m \<Longrightarrow>
      \<exists>ct. seal c k a m = Ok ct \<and> unseal c k a ct = Ok m"
begin

lemma unseal_seal:
  assumes "ok c" "key_ok k" "param_ok a" "msg_ok m" and "seal c k a m = Ok ct"
  shows "unseal c k a ct = Ok m"
  using seal_unseal [OF assms(1-4)] assms(5) by auto

lemma seal_total:
  assumes "ok c" "key_ok k" "param_ok a" "msg_ok m"
  obtains ct where "seal c k a m = Ok ct" and "unseal c k a ct = Ok m"
  using seal_unseal [OF assms] by blast

lemma seal_inject:
  assumes "ok c" "key_ok k" "param_ok a" "msg_ok m" "msg_ok m'"
    and "seal c k a m = Ok ct" "seal c k a m' = Ok ct"
  shows "m = m'"
  using unseal_seal [OF assms(1-4) assms(6)] unseal_seal [OF assms(1-3) assms(5) assms(7)] by simp

end

definition aead_ok :: "crypto \<Rightarrow> bool" where
  "aead_ok c \<longleftrightarrow> hmac_sized c \<and> hkdf_total c \<and> cbc_correct c"

lemma encrypt_decrypt_aead:
  assumes "aead_ok c"
  shows "\<exists>ct. encrypt_aead c mk p ad = Ok ct \<and> length ct = 16 * Suc (length p div 16) + 32 \<and>
              decrypt_aead c mk ct ad = Ok p"
proof -
  have hm: "hmac_sized c" and hk: "hkdf_total c" and cbc: "cbc_correct c"
    using assms by (simp_all add: aead_ok_def)
  obtain e a i where k: "expand_message_key c mk = Ok (e, a, i)"
      and "is_array 32 e" "is_array 16 i"
    using expand_message_key_total [OF hk] by blast
  then have dec: "aes256cbc_decrypt c e i (aes256cbc_encrypt c e i p) = Some p"
      and len: "length (aes256cbc_encrypt c e i p) = 16 * Suc (length p div 16)"
    using cbc by (simp_all add: cbc_correct_def)
  then show ?thesis
    by (simp add: encrypt_aead_def decrypt_aead_def k Let_def hmac_sizedD [OF hm])
qed

interpretation msg: sealing aead_ok "is_array 32" "\<lambda>_. True" "\<lambda>_. True"
    "\<lambda>c k ad p. encrypt_aead c k p ad" "\<lambda>c k ad ct. decrypt_aead c k ct ad"
  using encrypt_decrypt_aead by unfold_locales blast

section \<open>Header encryption\<close>

definition header_nonce :: "bool \<Rightarrow> u64 \<Rightarrow> bytes" where
  "header_nonce sender counter = [if sender then 0x00 else 0xFF, 0, 0, 0] @ to_be_bytes 8 counter"

definition seal_header :: "crypto \<Rightarrow> bytes \<Rightarrow> bytes \<Rightarrow> RatchetHeader \<Rightarrow> (bytes, RatchetError) result" where
  "seal_header c hk nonce_bytes header =
     and_then (ok_or HeaderDecryptionFailed (aes256gcm_encrypt c hk nonce_bytes (to_bytes header)))
       (\<lambda>ciphertext. Ok (nonce_bytes @ ciphertext))"

definition encrypt_header :: "crypto \<Rightarrow> RatchetState \<Rightarrow> RatchetHeader \<Rightarrow> (u64 \<times> bytes, RatchetError) result" where
  "encrypt_header c st header =
     and_then (ok_or InvalidKey (hk_s st)) (\<lambda>hk.
     and_then (ok_or CounterOverflow (checked_add (header_nonce_counter st) 1)) (\<lambda>new_nonce_counter.
     and_then (seal_header c hk (header_nonce (is_sender st) (header_nonce_counter st)) header)
       (\<lambda>enc_header. Ok (new_nonce_counter, enc_header))))"

definition decrypt_header_with_key :: "crypto \<Rightarrow> bytes \<Rightarrow> bytes \<Rightarrow> (RatchetHeader, RatchetError) result" where
  "decrypt_header_with_key c hk enc_header =
     (if length enc_header < 12 then Err HeaderDecryptionFailed
      else and_then (ok_or HeaderDecryptionFailed
             (aes256gcm_decrypt c hk (slice 0 12 enc_header) (drop 12 enc_header)))
           from_bytes)"

lemma length_header_nonce [simp]: "length (header_nonce b n) = 12"
  by (simp add: header_nonce_def)

lemma header_nonce_inject: "header_nonce b n = header_nonce b' n' \<longleftrightarrow> b = b' \<and> n = n'"
  using be64.enc_inject [of n n'] by (auto simp: header_nonce_def)

lemma decrypt_header_with_key_no_Panic [simp]: "decrypt_header_with_key c hk eh \<noteq> Panic"
  by (simp add: decrypt_header_with_key_def and_then_eq_Panic)

lemma decrypt_header_with_key_valid:
  "decrypt_header_with_key c hk eh = Ok h \<Longrightarrow> valid_header h"
  by (auto simp: decrypt_header_with_key_def split: if_splits dest: from_bytes_OkD)

interpretation hdr: sealing gcm_correct "is_array 32" valid_header "is_array 12"
    seal_header "\<lambda>c k nonce eh. decrypt_header_with_key c k eh"
proof
  fix c k a m
  assume ok: "gcm_correct c" and k: "is_array 32 k" and a: "is_array 12 a" and m: "valid_header m"
  obtain ct where "aes256gcm_encrypt c k a (to_bytes m) = Some ct"
      and "aes256gcm_decrypt c k a ct = Some (to_bytes m)"
    using ok k a gcm_correctD [of c k a "to_bytes m"] header.enc_width [OF m] by auto
  then show "\<exists>ct. seal_header c k a m = Ok ct \<and> decrypt_header_with_key c k ct = Ok m"
    using a m by (auto simp: seal_header_def decrypt_header_with_key_def slice_def header.dec_enc)
qed

lemma seal_header_prefix: "seal_header c hk nonce h = Ok eh \<Longrightarrow> is_array 12 nonce \<Longrightarrow> slice 0 12 eh = nonce"
  by (auto simp: seal_header_def slice_def)

section \<open>Associated data\<close>

definition concat_ad :: "bytes \<Rightarrow> bytes \<Rightarrow> bytes" where
  "concat_ad associated_data header =
     to_be_bytes 8 (of_nat (length associated_data) :: u64) @ associated_data @ header"

lemma concat_ad_inject:
  assumes "length a < 2 ^ 64" and "length b < 2 ^ 64" and "concat_ad a h = concat_ad b g"
  shows "a = b \<and> h = g"
proof -
  have "(of_nat (length a) :: u64) = of_nat (length b) \<and> a @ h = b @ g"
    using assms(3) by (intro be64.frame_inject) (simp_all add: concat_ad_def)
  moreover have "unat (of_nat (length a) :: u64) = length a" "unat (of_nat (length b) :: u64) = length b"
    using assms(1,2) by (simp_all add: unat_of_nat)
  ultimately have "length a = length b" and "a @ h = b @ g" by presburger+
  then show ?thesis by simp
qed

section \<open>Runs on the executable instance\<close>

lemma info_sums [run_simps]:
  "sum_list HKDF_INFO_ROOT = 130"
  "sum_list (ascii ''Signal-DoubleRatchet-Encrypt'') = 195"
  "sum_list (ascii ''Signal-Header-Initiator-v1'') = 136"
  "sum_list (ascii ''Signal-Header-Responder-v1'') = 135"
  by (simp_all add: HKDF_INFO_ROOT_def ascii_def)

lemma kdf_runs [run_simps]:
  "kdf_rk_he reference_crypto (replicate 32 x) (replicate 32 y) =
     Ok (replicate 32 (x + y + 130), replicate 32 (x + y + 131), replicate 32 (x + y + 132))"
  "derive_header_keys reference_crypto (replicate 32 x) =
     Ok (replicate 32 (x + 136), replicate 32 (x + 135))"
  "kdf_ck reference_crypto (replicate 32 x) = (replicate 32 (x + 6), replicate 32 (x + 7))"
  "expand_message_key reference_crypto (replicate 32 x) =
     Ok (replicate 32 (x + 195), replicate 32 (x + 196), replicate 16 (x + 197))"
  by (simp_all add: kdf_rk_he_def derive_header_keys_def kdf_ck_def expand_message_key_def
      ref_hkdf_def ref_expand_def slice_def run_simps algebra_simps)

section \<open>Properties\<close>

text \<open>C23: Encrypt-then-MAC. A message opens exactly when it is long enough, its last 32 bytes are
  the HMAC of the associated data and the ciphertext under the authentication key, and the body
  decrypts; the MAC is compared first, so a wrong tag is refused whatever the cipher would do,
  and every refusal is the same error.\<close>

theorem decrypt_aead_authenticates:
  assumes "hkdf_total c"
  shows "\<exists>enc_key auth_key iv. expand_message_key c mk = Ok (enc_key, auth_key, iv) \<and>
    (decrypt_aead c mk ct ad = Ok p \<longleftrightarrow>
       48 \<le> length ct \<and>
       drop (length ct - 32) ct = hmac_sha256 c auth_key (ad @ take (length ct - 32) ct) \<and>
       aes256cbc_decrypt c enc_key iv (take (length ct - 32) ct) = Some p) \<and>
    (decrypt_aead c mk ct ad = Err e \<longleftrightarrow> e = DecryptionFailed \<and> (\<nexists>q. decrypt_aead c mk ct ad = Ok q))"
proof -
  obtain enc_key auth_key iv where k: "expand_message_key c mk = Ok (enc_key, auth_key, iv)"
    using expand_message_key_total [OF assms] by blast
  have "decrypt_aead c mk ct ad = Ok p \<longleftrightarrow>
       48 \<le> length ct \<and>
       drop (length ct - 32) ct = hmac_sha256 c auth_key (ad @ take (length ct - 32) ct) \<and>
       aes256cbc_decrypt c enc_key iv (take (length ct - 32) ct) = Some p"
    by (auto simp: decrypt_aead_def k Let_def)
  moreover have "decrypt_aead c mk ct ad = Err e \<longleftrightarrow>
      e = DecryptionFailed \<and> (\<nexists>q. decrypt_aead c mk ct ad = Ok q)"
    using decrypt_aead_Err [of c mk ct ad] decrypt_aead_no_Panic [OF assms, of mk ct ad]
    by (cases "decrypt_aead c mk ct ad") auto
  ultimately show ?thesis using k by blast
qed

theorem decrypt_aead_authenticates_witness:
  "decrypt_aead reference_crypto (replicate 32 1) (replicate 48 0) [] = Err DecryptionFailed"
proof -
  have "decrypt_aead reference_crypto (replicate 32 1) (replicate 48 0) [] \<noteq> Ok q" for q
    using decrypt_aead_authenticates [OF crypto_okD(2) [OF reference_crypto_ok],
        of "replicate 32 1" "replicate 48 0" "[]" q]
    by (simp add: run_simps)
  then show ?thesis
    using decrypt_aead_authenticates [OF crypto_okD(2) [OF reference_crypto_ok],
        of "replicate 32 1" "replicate 48 0" "[]" "[]" DecryptionFailed] by blast
qed

text \<open>What is encrypted under a message key and associated data decrypts under the same key and
  data to the same plaintext, of any length; the ciphertext is the padded body and a 32-byte tag.\<close>

lemma aead_roundtrip:
  assumes "aead_ok c"
  shows "\<exists>ct. encrypt_aead c mk p ad = Ok ct \<and> length ct = 16 * Suc (length p div 16) + 32 \<and>
              decrypt_aead c mk ct ad = Ok p"
  using assms by (rule encrypt_decrypt_aead)

text \<open>A sealed header is its 12-byte nonce followed by the AES-GCM encryption of its 40 bytes, 68
  bytes in all, and opens under the same header key.\<close>

lemma sealed_header_opens:
  assumes "gcm_correct c" and "is_array 32 hk" and "valid_header h"
  shows "\<exists>eh. seal_header c hk (header_nonce b n) h = Ok eh \<and> length eh = 68 \<and>
              take 12 eh = header_nonce b n \<and> decrypt_header_with_key c hk eh = Ok h"
proof -
  obtain eh where eh: "seal_header c hk (header_nonce b n) h = Ok eh" "decrypt_header_with_key c hk eh = Ok h"
    by (rule hdr.seal_total [OF assms(1,2) length_header_nonce assms(3)])
  moreover have "length eh = 68"
    using eh(1) gcm_correctD [OF assms(1,2) length_header_nonce, of "to_bytes h" b n] header.enc_width [OF assms(3)]
    by (auto simp: seal_header_def)
  ultimately show ?thesis using seal_header_prefix [OF eh(1)] by (simp add: slice_def)
qed

text \<open>The associated data that authenticates a message fixes both the caller's data and the
  encrypted header: no two pairs have the same framing.\<close>

lemma concat_ad_injective:
  assumes "length a < 2 ^ 64" and "length b < 2 ^ 64"
  shows "concat_ad a h = concat_ad b g \<longleftrightarrow> a = b \<and> h = g"
  using concat_ad_inject [OF assms] by auto

end
