(* ===== verification/Skipped_Keys.thy ===== *)
theory Skipped_Keys
  imports Ratchet_Kdf
begin

text \<open>
  The store of skipped message keys of \<^verbatim>\<open>src/ratchet.rs\<close>: filling it
  (\<^verbatim>\<open>skip_message_keys\<close>), bounding it (\<^verbatim>\<open>evict_oldest_skipped_keys\<close>), decrypting from it
  (\<^verbatim>\<open>try_skipped_message_keys\<close>) and its serialised form. The store is the hash map of the
  prelude; every lemma about its contents goes through that interface.
\<close>

section \<open>The symmetric chain\<close>

text \<open>The chain key after \<open>n\<close> steps and the message key of its \<open>n\<close>-th message.\<close>

definition chain_key :: "crypto \<Rightarrow> nat \<Rightarrow> bytes \<Rightarrow> bytes" where
  "chain_key c n ck = ((\<lambda>k. fst (kdf_ck c k)) ^^ n) ck"

definition message_key :: "crypto \<Rightarrow> nat \<Rightarrow> bytes \<Rightarrow> bytes" where
  "message_key c n ck = snd (kdf_ck c (chain_key c n ck))"

lemma chain_key_0 [simp]: "chain_key c 0 ck = ck"
  by (simp add: chain_key_def)

lemma chain_key_Suc: "chain_key c (Suc n) ck = chain_key c n (fst (kdf_ck c ck))"
  by (simp add: chain_key_def funpow_Suc_right del: funpow.simps)

lemma chain_key_Suc_end: "chain_key c (Suc n) ck = fst (kdf_ck c (chain_key c n ck))"
  by (simp add: chain_key_def)

lemma chain_key_add: "chain_key c m (chain_key c n ck) = chain_key c (n + m) ck"
  by (simp add: chain_key_def funpow_add add.commute)

lemma message_key_0: "message_key c 0 ck = snd (kdf_ck c ck)"
  by (simp add: message_key_def)

lemma message_key_Suc: "message_key c (Suc n) ck = message_key c n (fst (kdf_ck c ck))"
  by (simp add: message_key_def chain_key_Suc)

lemma message_key_shift: "message_key c m (chain_key c n ck) = message_key c (n + m) ck"
  by (simp add: message_key_def chain_key_add)

lemma chain_key_sized: "hmac_sized c \<Longrightarrow> is_array 32 ck \<Longrightarrow> is_array 32 (chain_key c n ck)"
  by (cases n) (simp_all add: chain_key_Suc_end kdf_ck_sized)

lemma message_key_sized: "hmac_sized c \<Longrightarrow> is_array 32 (message_key c n ck)"
  by (simp add: message_key_def kdf_ck_sized)

section \<open>Eviction\<close>

definition eviction_order :: "World \<Rightarrow> SkippedKeyMap \<Rightarrow> (bytes \<times> u32) list" where
  "eviction_order w m = map fst (sort_key snd (map (\<lambda>(k, v). (k, timestamp v)) (hm_iter w m)))"

definition evict_oldest_skipped_keys :: "World \<Rightarrow> SkippedKeyMap \<Rightarrow> nat \<Rightarrow> SkippedKeyMap" where
  "evict_oldest_skipped_keys w m target_len =
     (let entries = eviction_order w m;
          to_remove = length entries - target_len
      in fold AList.delete (take to_remove entries) m)"

lemma set_eviction_order [simp]: "set (eviction_order w m) = fst ` set m"
  by (force simp: eviction_order_def)

lemma length_eviction_order [simp]: "length (eviction_order w m) = length m"
  by (simp add: eviction_order_def)

lemma distinct_eviction_order: "distinct_keys m \<Longrightarrow> distinct (eviction_order w m)"
proof -
  assume d: "distinct_keys m"
  have "mset (eviction_order w m) = image_mset fst (mset (map (\<lambda>(k, v). (k, timestamp v)) (hm_iter w m)))"
    by (simp add: eviction_order_def)
  also have "\<dots> = mset (map fst m)"
    by (simp add: image_mset.compositionality comp_def split_def)
  finally show ?thesis using d mset_eq_imp_distinct_iff by blast
qed

lemma evict_wf [wf_intros]: "wf_skipped m \<Longrightarrow> wf_skipped (evict_oldest_skipped_keys w m t)"
  by (simp add: evict_oldest_skipped_keys_def wf_skipped_deletes)

lemma evict_lookup:
  "map_of (evict_oldest_skipped_keys w m t) =
     (map_of m) |` (- set (take (length m - t) (eviction_order w m)))"
  by (simp add: evict_oldest_skipped_keys_def hm.lookup_removes)

lemma evict_length:
  assumes "distinct_keys m"
  shows "length (evict_oldest_skipped_keys w m t) = min (length m) t"
proof -
  let ?ks = "take (length m - t) (eviction_order w m)"
  have "set ?ks \<subseteq> dom (map_of m)"
    using set_take_subset [of "length m - t" "eviction_order w m"] by (simp add: dom_map_of_conv_image_fst)
  then have "length (fold AList.delete ?ks m) = length m - length ?ks"
    using assms by (intro hm.len_removes) (simp_all add: distinct_eviction_order)
  then show ?thesis by (simp add: evict_oldest_skipped_keys_def)
qed

lemma evict_mono: "map_of (evict_oldest_skipped_keys w m t) k = Some s \<Longrightarrow> map_of m k = Some s"
  by (auto simp: evict_lookup restrict_map_def split: if_splits)

text \<open>Oldest first: what goes is never younger than what stays.\<close>

lemma evict_oldest:
  assumes "distinct_keys m"
    and gone: "map_of m k = Some s" "map_of (evict_oldest_skipped_keys w m t) k = None"
    and kept: "map_of (evict_oldest_skipped_keys w m t) k' = Some s'"
  shows "timestamp s \<le> timestamp s'"
proof -
  define es where "es = sort_key snd (map (\<lambda>(k, v). (k, timestamp v)) (hm_iter w m))"
  define r where "r = length m - t"
  have order: "eviction_order w m = map fst es"
    by (simp add: eviction_order_def es_def)
  have es: "set es = (\<lambda>(k, v). (k, timestamp v)) ` set m"
    by (simp add: es_def)
  have sorted: "sorted (map snd es)" by (simp add: es_def)
  have in_take: "k \<in> fst ` set (take r es)"
    using gone by (auto simp: evict_lookup restrict_map_def order r_def take_map split: if_splits)
  have not_take: "k' \<notin> fst ` set (take r es)" and k': "map_of m k' = Some s'"
    using kept by (auto simp: evict_lookup restrict_map_def order r_def take_map split: if_splits)
  have "(k', timestamp s') \<in> set es"
    using k' es by (force dest: map_of_SomeD)
  then have late: "(k', timestamp s') \<in> set (drop r es)"
    using not_take by (metis append_take_drop_id Un_iff fst_conv image_eqI set_append)
  obtain ts where early: "(k, ts) \<in> set (take r es)" using in_take by force
  then have "(k, ts) \<in> set es" by (rule in_set_takeD)
  then obtain v where "(k, v) \<in> set m" "ts = timestamp v" using es by auto
  then have "ts = timestamp s"
    using gone(1) assms(1) by (metis map_of_eq_Some_iff option.inject)
  moreover have "sorted (map snd (take r es @ drop r es))" using sorted by simp
  then have "ts \<le> timestamp s'"
    using early late unfolding map_append sorted_append by fastforce
  ultimately show ?thesis by simp
qed

section \<open>Filling the store\<close>

definition store_skipped :: "crypto \<Rightarrow> bytes \<Rightarrow> u32 \<Rightarrow> bytes \<Rightarrow> SkippedKeyMap \<Rightarrow> World \<Rightarrow> bytes \<times> SkippedKeyMap \<times> World" where
  "store_skipped c hk current ck m w =
     (let m1 = (if length m \<ge> MAX_SKIPPED_KEYS
                then evict_oldest_skipped_keys w m (MAX_SKIPPED_KEYS div 2) else m);
          (next_ck, mk) = kdf_ck c ck;
          (now, w1) = system_time_now w
      in (next_ck, AList.update (hk, current) \<lparr>skipped_mk = mk, timestamp = now\<rparr> m1, w1))"

function skip_loop :: "crypto \<Rightarrow> bytes \<Rightarrow> u32 \<Rightarrow> u32 \<Rightarrow> bytes \<Rightarrow> SkippedKeyMap \<Rightarrow> World \<Rightarrow> (SkippedKeyMap, RatchetError) result \<times> World" where
  "skip_loop c hk target current ck m w =
     (if current < target
      then let (next_ck, m', w') = store_skipped c hk current ck m w
        in case checked_add current 1 of
             None \<Rightarrow> (Err CounterOverflow, w')
           | Some current' \<Rightarrow> skip_loop c hk target current' next_ck m' w'
      else (Ok m, w))"
  by pat_completeness auto
termination
proof (relation "measure (\<lambda>(c, hk, target, current, ck, m, w). unat target - unat current)", goal_cases)
  case 1
  show ?case by simp
next
  case (2 c hk target current ck m w p next_ck q m' w' current')
  then have "unat current < unat target" "unat current' = unat current + 1"
    by (simp_all add: word_less_nat_alt checked_add_Some)
  then show ?case by simp
qed

declare skip_loop.simps [simp del]

definition skip_message_keys :: "crypto \<Rightarrow> World \<Rightarrow> SkippedKeyMap \<Rightarrow> bytes \<Rightarrow> bytes \<Rightarrow> u32 \<Rightarrow> u32 \<Rightarrow> (SkippedKeyMap, RatchetError) result \<times> World" where
  "skip_message_keys c w m ck hk from_n target =
     (if target < from_n then (Err InvalidHeader, w)
      else let skip_count = (if target < from_n then 0 else target - from_n)
        in if skip_count > MAX_SKIP then (Err OldMessageKeysLimitReached, w)
           else skip_loop c hk target from_n ck m w)"

lemma skip_loop_step:
  assumes "current < target" and "store_skipped c hk current ck m w = (next_ck, m', w')"
  shows "skip_loop c hk target current ck m w = skip_loop c hk target (current + 1) next_ck m' w'"
  using assms by (simp add: skip_loop.simps [of c hk target current] checked_incr_less(1) Let_def)

lemma skip_loop_done: "\<not> current < target \<Longrightarrow> skip_loop c hk target current ck m w = (Ok m, w)"
  by (simp add: skip_loop.simps)

lemma skip_loop_induct [case_names finish step]:
  assumes "\<And>current ck m w. \<not> current < target \<Longrightarrow> P current ck m w"
    and "\<And>current ck m w next_ck m' w'. current < target \<Longrightarrow>
           store_skipped c hk current ck m w = (next_ck, m', w') \<Longrightarrow>
           unat (current + 1) = Suc (unat current) \<Longrightarrow>
           P (current + 1) next_ck m' w' \<Longrightarrow> P current ck m w"
  shows "P current ck m w"
proof (induction "unat target - unat current" arbitrary: current ck m w rule: less_induct)
  case (less current ck m w)
  show ?case
  proof (cases "current < target")
    case True
    obtain next_ck m' w' where st: "store_skipped c hk current ck m w = (next_ck, m', w')"
      by (metis prod_cases3)
    have suc: "unat (current + 1) = Suc (unat current)"
      using True by (rule checked_incr_less)
    moreover have "unat current < unat target" using True by (simp add: word_less_nat_alt)
    ultimately have "P (current + 1) next_ck m' w'" by (intro less) linarith
    with True st suc show ?thesis by (rule assms(2))
  qed (rule assms(1))
qed

lemma store_skipped_next: "store_skipped c hk n ck m w = (next_ck, m', w') \<Longrightarrow> next_ck = fst (kdf_ck c ck)"
  by (auto simp: store_skipped_def Let_def system_time_now_def split: prod.splits)

lemma store_skipped_world: "store_skipped c hk n ck m w = (next_ck, m', w') \<Longrightarrow> w' = w\<lparr>ticks := Suc (ticks w)\<rparr>"
  by (auto simp: store_skipped_def Let_def system_time_now_def split: prod.splits)

lemma store_skipped_map:
  assumes "store_skipped c hk n ck m w = (next_ck, m', w')"
  obtains m1 t where "m' = AList.update (hk, n) \<lparr>skipped_mk = message_key c 0 ck, timestamp = t\<rparr> m1"
    and "m1 = (if length m \<ge> MAX_SKIPPED_KEYS
               then evict_oldest_skipped_keys w m (MAX_SKIPPED_KEYS div 2) else m)"
  using assms
  by (auto simp: store_skipped_def Let_def system_time_now_def message_key_0 split: prod.splits)

lemma store_skipped_wf:
  assumes "store_skipped c hk n ck m w = (next_ck, m', w')"
    and "wf_skipped m" and "is_array 32 hk" and "hmac_sized c"
  shows "wf_skipped m'" and "length m' \<le> MAX_SKIPPED_KEYS"
proof -
  obtain m1 t where m': "m' = AList.update (hk, n) \<lparr>skipped_mk = message_key c 0 ck, timestamp = t\<rparr> m1"
    and m1: "m1 = (if length m \<ge> MAX_SKIPPED_KEYS
               then evict_oldest_skipped_keys w m (MAX_SKIPPED_KEYS div 2) else m)"
    using assms(1) by (rule store_skipped_map)
  have d: "distinct_keys m" using assms(2) by (rule wf_skippedD)
  have wf1: "wf_skipped m1" using assms(2) by (simp add: m1 evict_wf)
  then show "wf_skipped m'" using assms(3,4) by (simp add: m' wf_skipped_insert message_key_sized)
  have "length m1 < MAX_SKIPPED_KEYS"
    using d by (simp add: m1 evict_length MAX_SKIPPED_KEYS_def)
  moreover have "length m' \<le> Suc (length m1)"
    unfolding m' using wf_skippedD [OF wf1] by (rule hm.len_insert_le)
  ultimately show "length m' \<le> MAX_SKIPPED_KEYS" by simp
qed

lemma store_skipped_lookup:
  assumes "store_skipped c hk n ck m w = (next_ck, m', w')"
  shows "\<exists>s. map_of m' (hk, n) = Some s \<and> skipped_mk s = message_key c 0 ck"
    and "k \<noteq> (hk, n) \<Longrightarrow> map_of m' k = Some s \<Longrightarrow> map_of m k = Some s"
    and "k \<noteq> (hk, n) \<Longrightarrow> length m < MAX_SKIPPED_KEYS \<Longrightarrow> map_of m' k = map_of m k"
  by (rule store_skipped_map [OF assms];
      auto simp: update_conv' split: if_splits dest: evict_mono)+

lemma skip_loop_returns:
  assumes "wf_skipped m" and "is_array 32 hk" and "hmac_sized c"
  shows "\<exists>m' t. skip_loop c hk target current ck m w = (Ok m', w\<lparr>ticks := t\<rparr>) \<and> wf_skipped m' \<and>
           (length m \<le> MAX_SKIPPED_KEYS \<longrightarrow> length m' \<le> MAX_SKIPPED_KEYS)"
  using assms(1)
proof (induction current ck m w rule: skip_loop_induct [of target _ c hk])
  case (finish current ck m w)
  then show ?case by (intro exI [of _ m] exI [of _ "ticks w"]) (simp add: skip_loop_done)
next
  case (step current ck m w next_ck m' w')
  note store_skipped_wf [OF step(2) step(5) assms(2,3)]
  with step(4) obtain m2 t where "skip_loop c hk target (current + 1) next_ck m' w' = (Ok m2, w'\<lparr>ticks := t\<rparr>)"
      and "wf_skipped m2" and "length m2 \<le> MAX_SKIPPED_KEYS"
    by blast
  then show ?case using skip_loop_step [OF step(1,2)] store_skipped_world [OF step(2)] by auto
qed

text \<open>Every entry the loop leaves was there before, or is the key of a skipped number.\<close>

lemma skip_loop_sound:
  assumes "skip_loop c hk target current ck m w = (Ok m', w')" and "map_of m' k = Some s"
  shows "map_of m k = Some s \<or>
    (\<exists>n. k = (hk, n) \<and> current \<le> n \<and> n < target \<and>
         skipped_mk s = message_key c (unat n - unat current) ck)"
  using assms
proof (induction current ck m w rule: skip_loop_induct [of target _ c hk])
  case (finish current ck m w)
  then show ?case by (simp add: skip_loop_done)
next
  case (step current ck m w next_ck m1 w1)
  have next_ck: "next_ck = fst (kdf_ck c ck)" using step(2) by (rule store_skipped_next)
  have "skip_loop c hk target (current + 1) next_ck m1 w1 = (Ok m', w')"
    using step(5) skip_loop_step [OF step(1,2)] by simp
  from step(4) [OF this step(6)] show ?case
  proof
    assume m1: "map_of m1 k = Some s"
    show ?thesis
    proof (cases "k = (hk, current)")
      case True
      then have "skipped_mk s = message_key c 0 ck"
        using store_skipped_lookup(1) [OF step(2)] m1 by auto
      with True step(1) show ?thesis by auto
    next
      case False
      with m1 store_skipped_lookup(2) [OF step(2)] show ?thesis by blast
    qed
  next
    assume "\<exists>n. k = (hk, n) \<and> current + 1 \<le> n \<and> n < target \<and>
         skipped_mk s = message_key c (unat n - unat (current + 1)) next_ck"
    then obtain n where n: "k = (hk, n)" "current + 1 \<le> n" "n < target"
        "skipped_mk s = message_key c (unat n - unat (current + 1)) next_ck" by blast
    have "unat n - unat current = Suc (unat n - unat (current + 1))" and "current \<le> n"
      using n(2) step(3) by (simp_all add: word_le_nat_alt)
    with n show ?thesis by (simp add: message_key_Suc next_ck)
  qed
qed

text \<open>Where the store has room for all of them, every skipped number gets its key.\<close>

text \<open>One step of the loop in front of a run that stores the numbers after it.\<close>

lemma store_then_skip:
  assumes lt: "current < target" and succ: "unat (current + 1) = unat current + 1"
    and new: "\<And>n. current + 1 \<le> n \<Longrightarrow> n < target \<Longrightarrow>
        \<exists>s. map_of m' (hk, n) = Some s \<and>
            skipped_mk s = message_key c (unat n - unat (current + 1)) (fst (kdf_ck c ck))"
    and old: "\<And>k. (\<forall>n. current + 1 \<le> n \<and> n < target \<longrightarrow> k \<noteq> (hk, n)) \<Longrightarrow>
        map_of m' k = map_of (AList.update (hk, current) \<lparr>skipped_mk = message_key c 0 ck, timestamp = t\<rparr> m) k"
  shows "\<And>n. current \<le> n \<Longrightarrow> n < target \<Longrightarrow>
      \<exists>s. map_of m' (hk, n) = Some s \<and> skipped_mk s = message_key c (unat n - unat current) ck"
    and "\<And>k. (\<forall>n. current \<le> n \<and> n < target \<longrightarrow> k \<noteq> (hk, n)) \<Longrightarrow> map_of m' k = map_of m k"
proof -
  have above: "current < n \<longleftrightarrow> current + 1 \<le> n" for n
    using succ by (simp add: word_le_nat_alt word_less_nat_alt Suc_le_eq)
  fix n assume n: "current \<le> n" "n < target"
  show "\<exists>s. map_of m' (hk, n) = Some s \<and> skipped_mk s = message_key c (unat n - unat current) ck"
  proof (cases "n = current")
    case True
    have "\<forall>i. current + 1 \<le> i \<and> i < target \<longrightarrow> (hk, n) \<noteq> (hk, i)"
      using True by (simp add: above [symmetric] order.strict_implies_not_eq)
    from old [OF this] True show ?thesis by (simp add: update_conv')
  next
    case False
    then have "current < n" using n by (intro order.not_eq_order_implies_strict) auto
    then have gt: "current + 1 \<le> n" by (simp only: above)
    then have "unat n - unat current = Suc (unat n - unat (current + 1))"
      using succ by (simp add: word_le_nat_alt)
    with new [OF gt] n show ?thesis by (simp add: message_key_Suc)
  qed
next
  fix k assume k: "\<forall>n. current \<le> n \<and> n < target \<longrightarrow> k \<noteq> (hk, n)"
  have "current \<le> n" if "current + 1 \<le> n" for n
    using that succ by (simp add: word_le_nat_alt)
  with k have "\<forall>n. current + 1 \<le> n \<and> n < target \<longrightarrow> k \<noteq> (hk, n)" by blast
  from old [OF this] show "map_of m' k = map_of m k" using k lt by (auto simp: update_conv')
qed

lemma skip_loop_complete:
  assumes "skip_loop c hk target current ck m w = (Ok m', w')"
    and "length m + (unat target - unat current) \<le> MAX_SKIPPED_KEYS"
    and "distinct_keys m"
  shows "(\<forall>n. current \<le> n \<and> n < target \<longrightarrow>
             (\<exists>s. map_of m' (hk, n) = Some s \<and> skipped_mk s = message_key c (unat n - unat current) ck)) \<and>
         (\<forall>k. (\<forall>n. current \<le> n \<and> n < target \<longrightarrow> k \<noteq> (hk, n)) \<longrightarrow> map_of m' k = map_of m k) \<and>
         length m' \<le> length m + (unat target - unat current)"
  using assms
proof (induction current ck m w rule: skip_loop_induct [of target _ c hk])
  case (finish current ck m w)
  then show ?case by (auto simp: skip_loop_done)
next
  case (step current ck m w next_ck m1 w1)
  have next_ck: "next_ck = fst (kdf_ck c ck)" using step(2) by (rule store_skipped_next)
  have lt: "unat current < unat target" using step(1) by (simp add: word_less_nat_alt)
  then have room: "length m < MAX_SKIPPED_KEYS" using step(6) by linarith
  obtain t where m1: "m1 = AList.update (hk, current) \<lparr>skipped_mk = message_key c 0 ck, timestamp = t\<rparr> m"
    using room by (rule_tac store_skipped_map [OF step(2)]) simp
  have d1: "distinct_keys m1" using step(7) by (simp add: m1 distinct_update)
  have len1: "length m1 \<le> Suc (length m)" unfolding m1 using step(7) by (rule hm.len_insert_le)
  have "skip_loop c hk target (current + 1) next_ck m1 w1 = (Ok m', w')"
    using step(5) skip_loop_step [OF step(1,2)] by simp
  moreover have "length m1 + (unat target - unat (current + 1)) \<le> MAX_SKIPPED_KEYS"
    using step(3,6) len1 lt by linarith
  ultimately have new: "\<And>n. current + 1 \<le> n \<Longrightarrow> n < target \<Longrightarrow>
        \<exists>s. map_of m' (hk, n) = Some s \<and>
            skipped_mk s = message_key c (unat n - unat (current + 1)) (fst (kdf_ck c ck))"
      and old: "\<And>k. (\<forall>n. current + 1 \<le> n \<and> n < target \<longrightarrow> k \<noteq> (hk, n)) \<Longrightarrow> map_of m' k = map_of m1 k"
      and len: "length m' \<le> length m1 + (unat target - unat (current + 1))"
    using step(4) d1 unfolding next_ck by blast+
  have "length m' \<le> length m + (unat target - unat current)" using len len1 step(3) lt by linarith
  with store_then_skip [OF step(1) _ new old [unfolded m1]] step(3) show ?case by simp
qed

text \<open>
  The three outcomes of \<^verbatim>\<open>skip_message_keys\<close>: a target behind the chain, a gap beyond the
  limit, and otherwise success. The \<^verbatim>\<open>checked_add\<close> inside the loop never fails.
\<close>

lemma skip_message_keys_cases:
  assumes "wf_skipped m" and "is_array 32 hk" and "hmac_sized c"
  shows "target < from_n \<Longrightarrow> skip_message_keys c w m ck hk from_n target = (Err InvalidHeader, w)"
    and "from_n \<le> target \<Longrightarrow> unat target - unat from_n > 1000 \<Longrightarrow>
           skip_message_keys c w m ck hk from_n target = (Err OldMessageKeysLimitReached, w)"
    and "from_n \<le> target \<Longrightarrow> unat target - unat from_n \<le> 1000 \<Longrightarrow>
           \<exists>m' t. skip_message_keys c w m ck hk from_n target = (Ok m', w\<lparr>ticks := t\<rparr>) \<and> wf_skipped m' \<and>
             (length m \<le> MAX_SKIPPED_KEYS \<longrightarrow> length m' \<le> MAX_SKIPPED_KEYS)"
proof -
  assume "target < from_n"
  then show "skip_message_keys c w m ck hk from_n target = (Err InvalidHeader, w)"
    by (simp add: skip_message_keys_def)
next
  assume le: "from_n \<le> target" and "unat target - unat from_n > 1000"
  then have "MAX_SKIP < target - from_n"
    by (simp add: word_less_nat_alt unat_sub MAX_SKIP_def)
  then show "skip_message_keys c w m ck hk from_n target = (Err OldMessageKeysLimitReached, w)"
    using le by (simp add: skip_message_keys_def leD)
next
  assume le: "from_n \<le> target" and "unat target - unat from_n \<le> 1000"
  then have "\<not> MAX_SKIP < target - from_n"
    by (simp add: word_less_nat_alt unat_sub MAX_SKIP_def)
  then have "skip_message_keys c w m ck hk from_n target = skip_loop c hk target from_n ck m w"
    using le by (simp add: skip_message_keys_def leD)
  then show "\<exists>m' t. skip_message_keys c w m ck hk from_n target = (Ok m', w\<lparr>ticks := t\<rparr>) \<and> wf_skipped m' \<and>
             (length m \<le> MAX_SKIPPED_KEYS \<longrightarrow> length m' \<le> MAX_SKIPPED_KEYS)"
    using skip_loop_returns [OF assms, of target from_n ck w] by simp
qed

lemma skip_message_keys_OkD:
  assumes "skip_message_keys c w m ck hk from_n target = (Ok m', w')"
  shows "skip_loop c hk target from_n ck m w = (Ok m', w')"
    and "from_n \<le> target" and "unat target - unat from_n \<le> 1000"
proof -
  have le: "\<not> target < from_n" and max: "\<not> MAX_SKIP < target - from_n"
    using assms by (auto simp: skip_message_keys_def Let_def split: if_splits)
  then show "from_n \<le> target" by simp
  with max show "unat target - unat from_n \<le> 1000"
    by (simp add: word_less_nat_alt unat_sub MAX_SKIP_def)
  show "skip_loop c hk target from_n ck m w = (Ok m', w')"
    using assms le max by (simp add: skip_message_keys_def)
qed

lemma skip_message_keys_same: "skip_message_keys c w m ck hk n n = (Ok m, w)"
  by (simp add: skip_message_keys_def skip_loop_done MAX_SKIP_def)

section \<open>Decrypting from the store\<close>

fun try_candidates :: "crypto \<Rightarrow> SkippedKeyMap \<Rightarrow> (bytes \<times> u32) list \<Rightarrow> bytes \<Rightarrow> bytes \<Rightarrow> bytes \<Rightarrow> (SkippedKeyMap \<times> bytes option, RatchetError) result" where
  "try_candidates c m [] enc_header ciphertext ad = Ok (m, None)"
| "try_candidates c m ((hk, n) # candidates) enc_header ciphertext ad =
     (case map_of m (hk, n) of
        None \<Rightarrow> try_candidates c m candidates enc_header ciphertext ad
      | Some skipped_key \<Rightarrow>
          (case decrypt_header_with_key c hk enc_header of
             Ok header \<Rightarrow>
               if n = hdr_n header
               then (case decrypt_aead c (skipped_mk skipped_key) ciphertext ad of
                       Ok plaintext \<Rightarrow> Ok (AList.delete (hk, n) m, Some plaintext)
                     | Err _ \<Rightarrow> try_candidates c m candidates enc_header ciphertext ad
                     | Panic \<Rightarrow> Panic)
               else try_candidates c m candidates enc_header ciphertext ad
           | Err _ \<Rightarrow> try_candidates c m candidates enc_header ciphertext ad
           | Panic \<Rightarrow> Panic))"

definition try_skipped_message_keys :: "crypto \<Rightarrow> World \<Rightarrow> SkippedKeyMap \<Rightarrow> bytes \<Rightarrow> bytes \<Rightarrow> bytes \<Rightarrow> (SkippedKeyMap \<times> bytes option, RatchetError) result" where
  "try_skipped_message_keys c w m enc_header ciphertext ad =
     try_candidates c m (map fst (hm_iter w m)) enc_header ciphertext ad"

text \<open>The entry at a key opens this message, with this plaintext.\<close>

definition entry_opens :: "crypto \<Rightarrow> SkippedKeyMap \<Rightarrow> bytes \<Rightarrow> bytes \<Rightarrow> bytes \<Rightarrow> bytes \<times> u32 \<Rightarrow> bytes \<Rightarrow> bool" where
  "entry_opens c m enc_header ciphertext ad k plaintext \<longleftrightarrow>
     (case map_of m k of None \<Rightarrow> False
      | Some s \<Rightarrow> (case decrypt_header_with_key c (fst k) enc_header of
          Ok h \<Rightarrow> hdr_n h = snd k \<and> decrypt_aead c (skipped_mk s) ciphertext ad = Ok plaintext
        | _ \<Rightarrow> False))"

lemma entry_opensI:
  assumes "map_of m (hk, n) = Some s" and "decrypt_header_with_key c hk eh = Ok h"
    and "hdr_n h = n" and "decrypt_aead c (skipped_mk s) ct ad = Ok p"
  shows "entry_opens c m eh ct ad (hk, n) p"
  using assms by (simp add: entry_opens_def)

lemma entry_opensE:
  assumes "entry_opens c m eh ct ad k p"
  obtains s h where "map_of m k = Some s" "decrypt_header_with_key c (fst k) eh = Ok h"
    "hdr_n h = snd k" "decrypt_aead c (skipped_mk s) ct ad = Ok p"
  using assms by (auto simp: entry_opens_def split: option.splits result.splits)

lemma try_candidates_cases:
  assumes "hkdf_total c"
  shows "(\<exists>k p. try_candidates c m ks eh ct ad = Ok (AList.delete k m, Some p) \<and>
                k \<in> set ks \<and> entry_opens c m eh ct ad k p) \<or>
         try_candidates c m ks eh ct ad = Ok (m, None) \<and>
         (\<forall>k p. k \<in> set ks \<longrightarrow> \<not> entry_opens c m eh ct ad k p)"
proof (induction ks)
  case Nil
  then show ?case by simp
next
  case (Cons k ks)
  obtain hk n where k: "k = (hk, n)" by (cases k)
  consider (hit) p where "entry_opens c m eh ct ad k p"
    | (miss) "\<forall>p. \<not> entry_opens c m eh ct ad k p" by blast
  then show ?case
  proof cases
    case hit
    then have "try_candidates c m (k # ks) eh ct ad = Ok (AList.delete k m, Some p)"
      by (elim entry_opensE) (simp add: k)
    with hit show ?thesis by (intro disjI1) (auto simp: k)
  next
    case miss
    then have "try_candidates c m (k # ks) eh ct ad = try_candidates c m ks eh ct ad"
      by (auto simp: k entry_opens_def assms split: option.splits result.splits)
    with Cons.IH miss show ?thesis by auto
  qed
qed

lemma try_skipped_cases:
  assumes "hkdf_total c"
  shows "(\<exists>k p. try_skipped_message_keys c w m eh ct ad = Ok (AList.delete k m, Some p) \<and>
                entry_opens c m eh ct ad k p) \<or>
         try_skipped_message_keys c w m eh ct ad = Ok (m, None) \<and>
         (\<forall>k p. \<not> entry_opens c m eh ct ad k p)"
proof -
  have "entry_opens c m eh ct ad k p \<Longrightarrow> k \<in> set (map fst (hm_iter w m))" for k p
    by (auto elim!: entry_opensE dest!: map_of_SomeD intro: rev_image_eqI)
  then show ?thesis
    unfolding try_skipped_message_keys_def
    using try_candidates_cases [OF assms, of m "map fst (hm_iter w m)" eh ct ad] by blast
qed

lemma try_skipped_miss:
  "hkdf_total c \<Longrightarrow> (\<And>k p. \<not> entry_opens c m eh ct ad k p) \<Longrightarrow>
     try_skipped_message_keys c w m eh ct ad = Ok (m, None)"
  using try_skipped_cases [of c w m eh ct ad] by blast

section \<open>Serialisation\<close>

text \<open>
  \<^verbatim>\<open>serde\<close> gives a sequence of elements; reading one may fail. The serialised form of the
  map is its entries in iteration order.
\<close>

definition serialize_skipped_map :: "World \<Rightarrow> SkippedKeyMap \<Rightarrow> ((bytes \<times> u32) \<times> SkippedKey) list" where
  "serialize_skipped_map w m = hm_iter w m"

fun visit_seq :: "((bytes \<times> u32) \<times> SkippedKey, 'e) result list \<Rightarrow> SkippedKeyMap \<Rightarrow> (SkippedKeyMap, 'e) result" where
  "visit_seq [] m = Ok m"
| "visit_seq (elem # elems) m = and_then elem (\<lambda>(k, v). visit_seq elems (AList.update k v m))"

definition deserialize_skipped_map :: "((bytes \<times> u32) \<times> SkippedKey, 'e) result list \<Rightarrow> (SkippedKeyMap, 'e) result" where
  "deserialize_skipped_map elems = visit_seq elems []"

lemma visit_seq_Ok: "visit_seq (map Ok kvs) m = Ok (fold (\<lambda>(k, v). AList.update k v) kvs m)"
  by (induction kvs arbitrary: m) auto

lemma reread_skipped:
  assumes "wf_skipped m"
  shows "\<exists>m'. deserialize_skipped_map (map Ok (serialize_skipped_map w m)) = (Ok m' :: (SkippedKeyMap, 'e) result) \<and>
           map_of m' = map_of m \<and> wf_skipped m' \<and> length m' = length m"
proof -
  let ?m' = "fold (\<lambda>(k, v). AList.update k v) (hm_iter w m) []"
  have d: "distinct_keys m" using assms by (rule wf_skippedD)
  then have "map_of ?m' = map_of m" by (intro hm.rebuild) (simp_all add: map_of_hm_iter)
  moreover have d': "distinct_keys ?m'" by (intro hm.inv_inserts) simp
  ultimately have "length ?m' = length m"
    using d hm.len_card [OF d] hm.len_card [OF d'] by simp
  have "set ?m' = set m" using d d' \<open>map_of ?m' = map_of m\<close> by (simp add: map_of_inject_set)
  then have "wf_skipped ?m'" using assms d' by (simp add: wf_skipped_def)
  with \<open>map_of ?m' = map_of m\<close> \<open>length ?m' = length m\<close> show ?thesis
    by (simp add: deserialize_skipped_map_def serialize_skipped_map_def visit_seq_Ok)
qed

section \<open>The store as a partial map\<close>

text \<open>
  The abstract store: which message key is held for which header key and number. Filling it
  for the numbers from \<open>n\<close> up to \<open>t\<close> adds the message keys of that stretch of the chain.
\<close>

definition store_keys :: "SkippedKeyMap \<Rightarrow> bytes \<times> u32 \<Rightarrow> bytes option" where
  "store_keys m k = map_option skipped_mk (map_of m k)"

definition store_fill :: "crypto \<Rightarrow> bytes \<Rightarrow> bytes \<Rightarrow> u32 \<Rightarrow> u32 \<Rightarrow> (bytes \<times> u32 \<Rightarrow> bytes option) \<Rightarrow> bytes \<times> u32 \<Rightarrow> bytes option" where
  "store_fill c hk ck n t f k =
     (if fst k = hk \<and> n \<le> snd k \<and> snd k < t
      then Some (message_key c (unat (snd k) - unat n) ck) else f k)"

lemma store_keys_simps [simp]:
  "store_keys [] = Map.empty"
  "store_keys (AList.delete k m) = (store_keys m)(k := None)"
  by (auto simp: store_keys_def fun_eq_iff delete_conv')

lemma skip_loop_refines:
  assumes "skip_loop c hk target n ck m w = (Ok m', w')"
    and "length m + (unat target - unat n) \<le> MAX_SKIPPED_KEYS" and "distinct_keys m"
  shows "store_keys m' = store_fill c hk ck n target (store_keys m)"
proof
  fix k :: "bytes \<times> u32"
  obtain h i where k: "k = (h, i)" by (cases k)
  note spec = skip_loop_complete [OF assms]
  show "store_keys m' k = store_fill c hk ck n target (store_keys m) k"
  proof (cases "h = hk \<and> n \<le> i \<and> i < target")
    case True
    then obtain s where "map_of m' (hk, i) = Some s" "skipped_mk s = message_key c (unat i - unat n) ck"
      using spec by blast
    with True show ?thesis by (simp add: k store_keys_def store_fill_def)
  next
    case False
    then have "\<forall>i. n \<le> i \<and> i < target \<longrightarrow> k \<noteq> (hk, i)" by (auto simp: k)
    then have "map_of m' k = map_of m k" using spec by (elim conjE allE [of _ k]) (rule mp)
    moreover have "store_fill c hk ck n target (store_keys m) k = store_keys m k"
      using False by (simp only: store_fill_def k fst_conv snd_conv if_False)
    ultimately show ?thesis by (simp add: store_keys_def)
  qed
qed

section \<open>Properties\<close>

text \<open>C21: Within the skip limit and with room in the store, skipping never fails: it adds the message
  key of every number from the old counter up to the received one under the header key, and
  leaves every other entry alone.\<close>

theorem skip_message_keys_refines:
  assumes "hmac_sized c" and "wf_skipped m" and "is_array 32 hk" and "n \<le> target"
    and "unat target - unat n \<le> 1000" and "length m + (unat target - unat n) \<le> MAX_SKIPPED_KEYS"
  shows "\<exists>m' w'. skip_message_keys c w m ck hk n target = (Ok m', w') \<and> wf_skipped m' \<and>
           store_keys m' = store_fill c hk ck n target (store_keys m) \<and>
           length m' \<le> length m + (unat target - unat n)"
proof -
  obtain m' t where skip: "skip_message_keys c w m ck hk n target = (Ok m', w\<lparr>ticks := t\<rparr>)" and "wf_skipped m'"
    using skip_message_keys_cases(3) [OF assms(2,3,1) assms(4,5)] by blast
  moreover note loop = skip_message_keys_OkD(1) [OF skip]
  ultimately show ?thesis
    using skip_loop_refines [OF loop assms(6) wf_skippedD [OF assms(2)]]
      skip_loop_complete [OF loop assms(6) wf_skippedD [OF assms(2)]] by blast
qed

theorem skip_message_keys_refines_witness:
  "\<exists>m' w'. skip_message_keys reference_crypto demo_world
       [] (replicate 32 1) (replicate 32 2) 0 3 = (Ok m', w') \<and> wf_skipped m' \<and>
     store_keys m' = store_fill reference_crypto (replicate 32 2) (replicate 32 1) 0 3 Map.empty \<and>
     length m' \<le> 3"
  using skip_message_keys_refines [of reference_crypto "[]" "replicate 32 2" 0 3
      demo_world "replicate 32 1"]
    crypto_okD(1) [OF reference_crypto_ok] by (simp add: MAX_SKIPPED_KEYS_def)

text \<open>Skipping fails exactly for a target behind the counter, as an invalid header, and for a gap
  of more than a thousand messages; the overflow check in its loop never fires, it never
  panics, and the store never grows beyond its limit.\<close>

lemma skip_message_keys_outcomes:
  assumes "hmac_sized c" and "wf_skipped m" and "is_array 32 hk" and "length m \<le> MAX_SKIPPED_KEYS"
  shows "(case fst (skip_message_keys c w m ck hk n target) of
            Ok m' \<Rightarrow> n \<le> target \<and> unat target \<le> unat n + 1000 \<and> length m' \<le> MAX_SKIPPED_KEYS
          | Err e \<Rightarrow> (e = InvalidHeader \<and> target < n) \<or>
                     (e = OldMessageKeysLimitReached \<and> unat n + 1000 < unat target)
          | Panic \<Rightarrow> False)"
proof -
  consider (behind) "target < n" | (far) "n \<le> target" "unat target - unat n > 1000"
    | (near) "n \<le> target" "unat target - unat n \<le> 1000"
    using linorder_not_le [of n target] linorder_not_le [of "unat target - unat n" 1000] by blast
  then show ?thesis
  proof cases
    case behind
    then show ?thesis by (simp add: skip_message_keys_cases(1) [OF assms(2,3,1)])
  next
    case far
    moreover have "unat n + 1000 < unat target" using far(2) by linarith
    ultimately show ?thesis by (simp add: skip_message_keys_cases(2) [OF assms(2,3,1)])
  next
    case near
    moreover have "unat target \<le> unat n + 1000" using near(2) by linarith
    moreover obtain m' t where "skip_message_keys c w m ck hk n target = (Ok m', w\<lparr>ticks := t\<rparr>)"
        "length m' \<le> MAX_SKIPPED_KEYS"
      using skip_message_keys_cases(3) [OF assms(2,3,1) near] assms(4) by blast
    ultimately show ?thesis by simp
  qed
qed

text \<open>C24: Eviction brings the store down to the requested size, changes no entry it keeps, and takes
  the oldest first: nothing it drops is younger than anything it keeps, whatever the iteration
  order of the hash map.\<close>

theorem evict_drops_oldest:
  assumes "wf_skipped m" and "m' = evict_oldest_skipped_keys w m tgt"
  shows "length m' = min (length m) tgt \<and>
    (\<forall>k s. map_of m' k = Some s \<longrightarrow> map_of m k = Some s) \<and>
    (\<forall>k s k' s'. map_of m k = Some s \<and> map_of m' k = None \<and> map_of m' k' = Some s' \<longrightarrow>
       timestamp s \<le> timestamp s')"
proof (intro conjI allI impI)
  note d = wf_skippedD [OF assms(1)]
  show "length m' = min (length m) tgt" using evict_length [OF d] by (simp add: assms(2))
  show "map_of m k = Some s" if "map_of m' k = Some s" for k s
    using that unfolding assms(2) by (rule evict_mono)
  show "timestamp s \<le> timestamp s'"
    if "map_of m k = Some s \<and> map_of m' k = None \<and> map_of m' k' = Some s'" for k s k' s'
    using that evict_oldest [OF d] unfolding assms(2) by blast
qed

theorem evict_drops_oldest_witness:
  "evict_oldest_skipped_keys demo_world
     [((replicate 32 1, 0), \<lparr> skipped_mk = replicate 32 3, timestamp = 9 \<rparr>),
      ((replicate 32 1, 1), \<lparr> skipped_mk = replicate 32 4, timestamp = 5 \<rparr>)] 1
   = [((replicate 32 1, 0), \<lparr> skipped_mk = replicate 32 3, timestamp = 9 \<rparr>)] \<and>
   length (evict_oldest_skipped_keys demo_world
     [((replicate 32 1, 0), \<lparr> skipped_mk = replicate 32 3, timestamp = 9 \<rparr>),
      ((replicate 32 1, 1), \<lparr> skipped_mk = replicate 32 4, timestamp = 5 \<rparr>)] 1) = 1"
  (is "evict_oldest_skipped_keys ?w ?m 1 = ?r \<and> _")
proof
  show "evict_oldest_skipped_keys ?w ?m 1 = ?r"
    by (simp add: evict_oldest_skipped_keys_def eviction_order_def hm_iter_def demo_world_def)
  have "wf_skipped ?m" by (simp add: wf_skipped_def)
  from evict_drops_oldest [OF this refl, of ?w 1]
  show "length (evict_oldest_skipped_keys ?w ?m 1) = 1" by simp
qed

text \<open>Trying the store on a message gives the plaintext of an entry whose header key and number
  match and whose message key authenticates it, and removes exactly that entry; it misses
  exactly when no entry opens the message, and then the store is unchanged.\<close>

lemma try_skipped_spec:
  assumes "hkdf_total c"
  shows "case try_skipped_message_keys c w m eh ct ad of
      Ok (m', Some p) \<Rightarrow> (\<exists>k. entry_opens c m eh ct ad k p \<and> store_keys m' = (store_keys m)(k := None))
    | Ok (m', None) \<Rightarrow> m' = m \<and> (\<forall>k p. \<not> entry_opens c m eh ct ad k p)
    | Err e \<Rightarrow> False | Panic \<Rightarrow> False"
  using try_skipped_cases [OF assms, of w m eh ct ad] by (auto intro!: exI)

text \<open>A store written out in any iteration order reads back as a map with the same entries, keys
  and timestamps alike.\<close>

lemma skipped_map_roundtrip:
  assumes "wf_skipped m"
  shows "\<exists>m'. deserialize_skipped_map (map Ok (serialize_skipped_map w m)) = (Ok m' :: (SkippedKeyMap, 'e) result) \<and>
           map_of m' = map_of m \<and> wf_skipped m' \<and> length m' = length m"
  by (rule reread_skipped [OF assms])

end
