(* ===== verification/Ratchet.thy ===== *)
theory Ratchet
  imports Skipped_Keys
begin

text \<open>
  The Double Ratchet session of \<^verbatim>\<open>src/ratchet.rs\<close>: initialisation of the two parties,
  \<^verbatim>\<open>encrypt\<close>, and \<^verbatim>\<open>decrypt\<close> with its phases (skipped keys, header, duplicate check, message
  key, authentication, commit, tracking). A function on \<^verbatim>\<open>&mut RatchetState\<close> returns the state
  it leaves in every outcome, errors included.
\<close>

section \<open>Initialisation\<close>

definition init_sender_state :: "crypto \<Rightarrow> World \<Rightarrow> bytes \<Rightarrow> bytes \<Rightarrow> (RatchetState, RatchetError) result \<times> World" where
  "init_sender_state c w sk receiver_dh_public_key =
     (let (dh_s, w1) = os_rng_fill 32 w;
          dh_s_pub = x25519_base c dh_s;
          dh_out = x25519_dh c dh_s receiver_dh_public_key
      in (and_then (kdf_rk_he c sk dh_out) (\<lambda>(root, cks, nhks).
          and_then (derive_header_keys c sk) (\<lambda>(initiator_hk, responder_hk).
            Ok \<lparr> dh_pair = (dh_s, dh_s_pub),
                 dh_remote = Some receiver_dh_public_key,
                 rk = root,
                 ck_s = Some cks,
                 ck_r = None,
                 hk_s = Some initiator_hk,
                 hk_r = None,
                 nhk_s = nhks,
                 nhk_r = responder_hk,
                 ns = 0, nr = 0, pn = 0,
                 mkskipped = [],
                 header_nonce_counter = 0,
                 is_sender = True,
                 received_messages = {||} \<rparr>)), w1))"

definition init_receiver_state :: "crypto \<Rightarrow> bytes \<Rightarrow> KeyPair \<Rightarrow> (RatchetState, RatchetError) result" where
  "init_receiver_state c sk receiver_key_pair =
     and_then (derive_header_keys c sk) (\<lambda>(initiator_hk, responder_hk).
       Ok \<lparr> dh_pair = receiver_key_pair,
            dh_remote = None,
            rk = sk,
            ck_s = None,
            ck_r = None,
            hk_s = None,
            hk_r = None,
            nhk_s = responder_hk,
            nhk_r = initiator_hk,
            ns = 0, nr = 0, pn = 0,
            mkskipped = [],
            header_nonce_counter = 0,
            is_sender = False,
            received_messages = {||} \<rparr>)"

section \<open>Encryption\<close>

definition validate_encryption_state :: "RatchetState \<Rightarrow> (unit, RatchetError) result" where
  "validate_encryption_state st =
     (if ck_s st = None then Err InvalidState
      else if hk_s st = None then Err InvalidState
      else if dh_remote st = None then Err InvalidState
      else Ok ())"

definition encrypt :: "crypto \<Rightarrow> RatchetState \<Rightarrow> bytes \<Rightarrow> bytes \<Rightarrow> (bytes \<times> bytes, RatchetError) result \<times> RatchetState" where
  "encrypt c st plaintext associated_data =
     (case validate_encryption_state st of
        Err e \<Rightarrow> (Err e, st)
      | Panic \<Rightarrow> (Panic, st)
      | Ok _ \<Rightarrow>
     if length associated_data > MAX_AD_SIZE then (Err ADTooLarge, st)
     else (case ck_s st of
        None \<Rightarrow> (Panic, st)
      | Some ck \<Rightarrow>
          let (next_ck, mk) = kdf_ck c ck;
              st1 = st\<lparr>ck_s := Some next_ck\<rparr>;
              header = \<lparr> dh_pub = snd (dh_pair st1), hdr_pn = pn st1, hdr_n = ns st1 \<rparr>
          in (case checked_add (ns st1) 1 of
                None \<Rightarrow> (Err CounterOverflow, st1)
              | Some ns' \<Rightarrow>
                  let st2 = st1\<lparr>ns := ns'\<rparr>
                  in (case encrypt_header c st2 header of
                        Err e \<Rightarrow> (Err e, st2)
                      | Panic \<Rightarrow> (Panic, st2)
                      | Ok (new_nonce_counter, enc_header) \<Rightarrow>
                          let st3 = st2\<lparr>header_nonce_counter := new_nonce_counter\<rparr>;
                              ad = concat_ad associated_data enc_header
                          in (case encrypt_aead c mk plaintext ad of
                                Err e \<Rightarrow> (Err e, st3)
                              | Panic \<Rightarrow> (Panic, st3)
                              | Ok ciphertext \<Rightarrow> (Ok (enc_header, ciphertext), st3))))))"

section \<open>Decryption\<close>

definition decrypt_header :: "crypto \<Rightarrow> RatchetState \<Rightarrow> bytes \<Rightarrow> (RatchetHeader \<times> bool, RatchetError) result" where
  "decrypt_header c st enc_header =
     (let try_next = (case decrypt_header_with_key c (nhk_r st) enc_header of
                        Ok header \<Rightarrow> Ok (header, True)
                      | Err _ \<Rightarrow> Err HeaderDecryptionFailed
                      | Panic \<Rightarrow> Panic)
      in case hk_r st of
           None \<Rightarrow> try_next
         | Some hk \<Rightarrow> (case decrypt_header_with_key c hk enc_header of
                         Ok header \<Rightarrow> Ok (header, False)
                       | Err _ \<Rightarrow> try_next
                       | Panic \<Rightarrow> Panic))"

text \<open>The loop \<^verbatim>\<open>while nr < header.n\<close> of \<^verbatim>\<open>compute_message_key\<close>.\<close>

function advance_chain :: "crypto \<Rightarrow> bytes \<Rightarrow> u32 \<Rightarrow> u32 \<Rightarrow> bytes" where
  "advance_chain c current_ck n target =
     (if n < target then advance_chain c (fst (kdf_ck c current_ck)) (n + 1) target else current_ck)"
  by pat_completeness auto
termination
  by (relation "measure (\<lambda>(c, ck, n, target). unat target - unat n)")
    (auto simp: checked_incr_less(2) word_less_nat_alt)

declare advance_chain.simps [simp del]

text \<open>
  The sum \<^verbatim>\<open>nr + MAX_SKIP\<close> is a plain \<^verbatim>\<open>u32\<close> addition, which wraps around in the release
  profile.
\<close>

definition compute_message_key :: "crypto \<Rightarrow> RatchetState \<Rightarrow> RatchetHeader \<Rightarrow> bool \<Rightarrow> (bytes, RatchetError) result" where
  "compute_message_key c st header dh_ratchet =
     and_then
       (if dh_ratchet
        then and_then (kdf_rk_he c (rk st) (x25519_dh c (fst (dh_pair st)) (dh_pub header)))
               (\<lambda>(_, new_ck_r, _). Ok (Some new_ck_r, 0))
        else Ok (ck_r st, nr st))
       (\<lambda>(ckr, n).
          if n + MAX_SKIP < hdr_n header then Err OldMessageKeysLimitReached
          else and_then (ok_or InvalidKey ckr)
                 (\<lambda>current_ck. Ok (snd (kdf_ck c (advance_chain c current_ck n (hdr_n header))))))"

text \<open>
  Storing the skipped keys of the current receiving chain: the map is taken out of the state
  first, so an error of \<^verbatim>\<open>skip_message_keys\<close> leaves it empty.
\<close>

definition store_chain_gap :: "crypto \<Rightarrow> u32 \<Rightarrow> RatchetState \<Rightarrow> World \<Rightarrow> (unit, RatchetError) result \<times> RatchetState \<times> World" where
  "store_chain_gap c target st w =
     (case (ck_r st, hk_r st) of
        (Some ck, Some hk) \<Rightarrow>
          (case skip_message_keys c w (mkskipped st) ck hk (nr st) target of
             (Ok m, w') \<Rightarrow> (Ok (), st\<lparr>mkskipped := m\<rparr>, w')
           | (Err e, w') \<Rightarrow> (Err e, st\<lparr>mkskipped := []\<rparr>, w')
           | (Panic, w') \<Rightarrow> (Panic, st\<lparr>mkskipped := []\<rparr>, w'))
      | _ \<Rightarrow> (Ok (), st, w))"

definition perform_dh_ratchet :: "crypto \<Rightarrow> bytes \<Rightarrow> RatchetState \<Rightarrow> World \<Rightarrow> (unit, RatchetError) result \<times> RatchetState \<times> World" where
  "perform_dh_ratchet c header_dh_pub st w =
     (let st1 = st\<lparr>pn := ns st, ns := 0, nr := 0, hk_s := Some (nhk_s st), hk_r := Some (nhk_r st),
                  dh_remote := Some header_dh_pub\<rparr>
      in case kdf_rk_he c (rk st1) (x25519_dh c (fst (dh_pair st1)) header_dh_pub) of
           Err e \<Rightarrow> (Err e, st1, w)
         | Panic \<Rightarrow> (Panic, st1, w)
         | Ok (new_rk, new_ck_r, new_nhk_r) \<Rightarrow>
             let st2 = st1\<lparr>rk := new_rk, ck_r := Some new_ck_r, nhk_r := new_nhk_r\<rparr>;
                 (new_dh_s, w1) = os_rng_fill 32 w;
                 new_dh_s_pub = x25519_base c new_dh_s
             in (case kdf_rk_he c (rk st2) (x25519_dh c new_dh_s header_dh_pub) of
                   Err e \<Rightarrow> (Err e, st2, w1)
                 | Panic \<Rightarrow> (Panic, st2, w1)
                 | Ok (new_rk_2, new_ck_s, new_nhk_s) \<Rightarrow>
                     (Ok (), st2\<lparr>rk := new_rk_2, ck_s := Some new_ck_s, nhk_s := new_nhk_s,
                                dh_pair := (new_dh_s, new_dh_s_pub),
                                received_messages := {||}\<rparr>, w1)))"

definition advance_receiving :: "crypto \<Rightarrow> RatchetState \<Rightarrow> World \<Rightarrow> (unit, RatchetError) result \<times> RatchetState \<times> World" where
  "advance_receiving c st w =
     (case ck_r st of
        None \<Rightarrow> (Panic, st, w)
      | Some ck \<Rightarrow>
          let st1 = st\<lparr>ck_r := Some (fst (kdf_ck c ck))\<rparr>
          in case checked_add (nr st1) 1 of
               None \<Rightarrow> (Err CounterOverflow, st1, w)
             | Some nr' \<Rightarrow> (Ok (), st1\<lparr>nr := nr'\<rparr>, w))"

definition commit_state_changes :: "crypto \<Rightarrow> RatchetHeader \<Rightarrow> bool \<Rightarrow> RatchetState \<Rightarrow> World \<Rightarrow> (unit, RatchetError) result \<times> RatchetState \<times> World" where
  "commit_state_changes c header dh_ratchet st w =
     bind_st (if dh_ratchet
              then bind_st (store_chain_gap c (hdr_pn header) st w) (\<lambda>_. perform_dh_ratchet c (dh_pub header))
              else (Ok (), st, w)) (\<lambda>_ st w.
     bind_st (store_chain_gap c (hdr_n header) st w) (\<lambda>_. advance_receiving c))"

definition track_received :: "bytes \<times> u32 \<Rightarrow> bytes \<Rightarrow> RatchetState \<Rightarrow> World \<Rightarrow> (bytes, RatchetError) result \<times> RatchetState \<times> World" where
  "track_received msg_id plaintext st w =
     (if fcard (received_messages st) \<ge> MAX_RECEIVED_TRACKING then (Err TooManyMessages, st, w)
      else (Ok plaintext, st\<lparr>received_messages := finsert msg_id (received_messages st)\<rparr>, w))"

definition decrypt_with_ratchet :: "crypto \<Rightarrow> World \<Rightarrow> RatchetState \<Rightarrow> bytes \<Rightarrow> bytes \<Rightarrow> bytes \<Rightarrow> (bytes, RatchetError) result \<times> RatchetState \<times> World" where
  "decrypt_with_ratchet c w st enc_header ciphertext ad =
     bind_st (decrypt_header c st enc_header, st, w) (\<lambda>(header, dh_ratchet) st w.
       let msg_id = (dh_pub header, hdr_n header)
       in if msg_id |\<in>| received_messages st then (Err DuplicateMessage, st, w)
          else bind_st (and_then (compute_message_key c st header dh_ratchet)
                          (\<lambda>mk. decrypt_aead c mk ciphertext ad), st, w) (\<lambda>plaintext st w.
               bind_st (commit_state_changes c header dh_ratchet st w) (\<lambda>_.
                 track_received msg_id plaintext)))"

definition decrypt :: "crypto \<Rightarrow> World \<Rightarrow> RatchetState \<Rightarrow> bytes \<Rightarrow> bytes \<Rightarrow> bytes \<Rightarrow> (bytes, RatchetError) result \<times> RatchetState \<times> World" where
  "decrypt c w st enc_header ciphertext associated_data =
     (if length associated_data > MAX_AD_SIZE then (Err ADTooLarge, st, w)
      else let ad = concat_ad associated_data enc_header;
               taken = st\<lparr>mkskipped := []\<rparr>
           in case try_skipped_message_keys c w (mkskipped st) enc_header ciphertext ad of
                Err e \<Rightarrow> (Err e, taken, w)
              | Panic \<Rightarrow> (Panic, taken, w)
              | Ok (m, found) \<Rightarrow>
                  let st1 = taken\<lparr>mkskipped := m\<rparr>
                  in (case found of
                        Some plaintext \<Rightarrow> (Ok plaintext, st1, w)
                      | None \<Rightarrow> decrypt_with_ratchet c w st1 enc_header ciphertext ad))"

end
