(* ===== verification/Ratchet_Invariant.thy ===== *)
theory Ratchet_Invariant
  imports Ratchet
begin

text \<open>
  The invariant of a session state, kept by every operation in every outcome: array sizes,
  the bounds on the two memories of the session (skipped keys, received messages) and which
  optional keys come together. It excludes every panic of the session code.
\<close>

definition ratchet_crypto :: "crypto \<Rightarrow> bool" where
  "ratchet_crypto c \<longleftrightarrow> hmac_sized c \<and> hkdf_total c \<and> x25519_sized c"

lemma ratchet_cryptoD:
  assumes "ratchet_crypto c"
  shows "hmac_sized c" "hkdf_total c" "x25519_sized c"
  using assms by (simp_all add: ratchet_crypto_def)

lemma ratchet_crypto_ok: "crypto_ok c \<Longrightarrow> ratchet_crypto c"
  by (simp add: crypto_ok_def ratchet_crypto_def)

definition ratchet_inv :: "RatchetState \<Rightarrow> bool" where
  "ratchet_inv st \<longleftrightarrow> wf_state st \<and>
     length (mkskipped st) \<le> MAX_SKIPPED_KEYS \<and>
     fcard (received_messages st) \<le> MAX_RECEIVED_TRACKING \<and>
     (ck_s st = None \<longleftrightarrow> hk_s st = None) \<and> (ck_r st = None \<longleftrightarrow> hk_r st = None) \<and>
     (ck_s st = None \<or> dh_remote st \<noteq> None)"

lemma ratchet_invD:
  assumes "ratchet_inv st"
  shows "wf_state st" "length (mkskipped st) \<le> MAX_SKIPPED_KEYS"
    "fcard (received_messages st) \<le> MAX_RECEIVED_TRACKING"
    "ck_s st = None \<longleftrightarrow> hk_s st = None" "ck_r st = None \<longleftrightarrow> hk_r st = None"
    "ck_s st = None \<or> dh_remote st \<noteq> None"
  using assms by (auto simp: ratchet_inv_def)

lemma x25519_sizedD:
  "x25519_sized c \<Longrightarrow> is_array 32 a \<Longrightarrow> is_array 32 (x25519_base c a)"
  "x25519_sized c \<Longrightarrow> is_array 32 a \<Longrightarrow> is_array 32 b \<Longrightarrow> is_array 32 (x25519_dh c a b)"
  by (simp_all add: x25519_sized_def)

section \<open>Initialisation establishes the invariant\<close>

lemma init_sender_ok:
  assumes "ratchet_crypto c" and "is_array 32 sk" and "is_array 32 pub"
  shows "\<exists>st w'. init_sender_state c w sk pub = (Ok st, w') \<and> ratchet_inv st"
proof -
  obtain d w1 where d: "os_rng_fill 32 w = (d, w1)" and len: "is_array 32 d"
    by (metis length_os_rng_fill prod.collapse)
  obtain a b e where k: "kdf_rk_he c sk (x25519_dh c d pub) = Ok (a, b, e)"
      and "is_array 32 a" "is_array 32 b" "is_array 32 e"
    using kdf_rk_he_total kdf_rk_he_sized ratchet_cryptoD(2) [OF assms(1)] by metis
  moreover obtain i r where "derive_header_keys c sk = Ok (i, r)" "is_array 32 i" "is_array 32 r"
    using derive_header_keys_total ratchet_cryptoD(2) [OF assms(1)] by metis
  ultimately show ?thesis
    using len assms x25519_sizedD(1) [OF ratchet_cryptoD(3) [OF assms(1)] len]
    by (simp add: init_sender_state_def d ratchet_inv_def wf_state_def fcard_fempty)
qed

lemma init_receiver_ok:
  assumes "ratchet_crypto c" and "is_array 32 sk" and "is_array 32 priv" and "is_array 32 pub"
  shows "\<exists>st. init_receiver_state c sk (priv, pub) = Ok st \<and> ratchet_inv st"
proof -
  obtain i r where "derive_header_keys c sk = Ok (i, r)" "is_array 32 i" "is_array 32 r"
    using derive_header_keys_total ratchet_cryptoD(2) [OF assms(1)] by metis
  then show ?thesis
    using assms by (simp add: init_receiver_state_def ratchet_inv_def wf_state_def fcard_fempty)
qed

section \<open>Encryption\<close>

lemma encrypt_header_cases:
  "encrypt_header c st h = Err e \<Longrightarrow> e \<in> {InvalidKey, CounterOverflow, HeaderDecryptionFailed}"
  "encrypt_header c st h \<noteq> Panic"
  by (auto simp: encrypt_header_def seal_header_def and_then_eq_Err and_then_eq_Panic)

lemma encrypt_aead_no_Panic: "hkdf_total c \<Longrightarrow> \<exists>ct. encrypt_aead c mk p ad = Ok ct"
  using expand_message_key_total [of c mk] by (auto simp: encrypt_aead_def Let_def)

text \<open>What an encryption leaves unchanged, and what it does to the counters, whatever happens.\<close>

lemma encrypt_frame:
  assumes "encrypt c st p ad = (r, st')"
  shows "st' = st\<lparr>ck_s := ck_s st', ns := ns st', header_nonce_counter := header_nonce_counter st'\<rparr>"
    and "ck_s st' = ck_s st \<or> (\<exists>ck. ck_s st = Some ck \<and> ck_s st' = Some (fst (kdf_ck c ck)))"
    and "header_nonce_counter st' = header_nonce_counter st \<or>
         checked_add (header_nonce_counter st) 1 = Some (header_nonce_counter st')"
  using assms
  by (auto simp: encrypt_def Let_def encrypt_header_def split: result.splits option.splits if_splits prod.splits)

lemma encrypt_inv:
  assumes "ratchet_crypto c" and "ratchet_inv st" and "encrypt c st p ad = (r, st')"
  shows "ratchet_inv st'" and "r \<noteq> Panic"
proof -
  have "ck_s st' = ck_s st \<or> (\<exists>ck. ck_s st = Some ck \<and> ck_s st' = Some (fst (kdf_ck c ck)))"
    using assms(3) by (rule encrypt_frame)
  then have "option_array 32 (ck_s st')" and "ck_s st' = None \<longleftrightarrow> ck_s st = None"
    using wf_stateD(5) [OF ratchet_invD(1) [OF assms(2)]] kdf_ck_sized(1) [OF ratchet_cryptoD(1) [OF assms(1)]]
    by auto
  then show "ratchet_inv st'"
    using assms(2) by (subst encrypt_frame(1) [OF assms(3)]) (auto simp: ratchet_inv_def wf_state_def)
  have "validate_encryption_state st = Ok () \<Longrightarrow> ck_s st \<noteq> None"
    and "validate_encryption_state st \<noteq> Panic"
    by (auto simp: validate_encryption_state_def split: if_splits)
  then show "r \<noteq> Panic"
    using assms(3) encrypt_header_cases(2) encrypt_aead_no_Panic [OF ratchet_cryptoD(2) [OF assms(1)]]
    by (auto simp: encrypt_def Let_def split: result.splits option.splits if_splits prod.splits)
      (metis result.distinct(3))+
qed

text \<open>A successful encryption, step by step.\<close>

lemma encrypt_OkD:
  assumes "encrypt c st p ad = (Ok (eh, ct), st')"
  obtains ck hk ctr n' where "ck_s st = Some ck" "hk_s st = Some hk" "dh_remote st \<noteq> None"
    "length ad \<le> MAX_AD_SIZE"
    "checked_add (ns st) 1 = Some n'" "checked_add (header_nonce_counter st) 1 = Some ctr"
    "seal_header c hk (header_nonce (is_sender st) (header_nonce_counter st))
       \<lparr> dh_pub = snd (dh_pair st), hdr_pn = pn st, hdr_n = ns st \<rparr> = Ok eh"
    "encrypt_aead c (message_key c 0 ck) p (concat_ad ad eh) = Ok ct"
    "st' = st\<lparr>ck_s := Some (chain_key c 1 ck), ns := n', header_nonce_counter := ctr\<rparr>"
  using assms
  by (auto simp: encrypt_def Let_def encrypt_header_def validate_encryption_state_def message_key_0
      chain_key_Suc split: result.splits option.splits if_splits prod.splits)

lemma encrypt_OkI:
  assumes "ck_s st = Some ck" "hk_s st = Some hk" "dh_remote st \<noteq> None"
    "length ad \<le> MAX_AD_SIZE"
    "checked_add (ns st) 1 = Some n'" "checked_add (header_nonce_counter st) 1 = Some ctr"
    "seal_header c hk (header_nonce (is_sender st) (header_nonce_counter st))
       \<lparr> dh_pub = snd (dh_pair st), hdr_pn = pn st, hdr_n = ns st \<rparr> = Ok eh"
    "encrypt_aead c (message_key c 0 ck) p (concat_ad ad eh) = Ok ct"
  shows "encrypt c st p ad =
    (Ok (eh, ct), st\<lparr>ck_s := Some (chain_key c 1 ck), ns := n', header_nonce_counter := ctr\<rparr>)"
  using assms
  by (cases "kdf_ck c ck")
    (simp add: encrypt_def encrypt_header_def validate_encryption_state_def message_key_0
      chain_key_Suc Let_def)

section \<open>Decryption\<close>

lemma advance_chain_eq: "advance_chain c ck n target = chain_key c (unat target - unat n) ck"
proof (induction c ck n target rule: advance_chain.induct)
  case (1 c ck n target)
  show ?case
  proof (cases "n < target")
    case True
    then have "unat target - unat n = Suc (unat target - unat (n + 1))"
      using checked_incr_less(2) [OF True] by (simp add: word_less_nat_alt)
    with True 1 show ?thesis by (simp add: advance_chain.simps [of c ck n] chain_key_Suc)
  next
    case False
    then show ?thesis by (simp add: advance_chain.simps word_less_nat_alt)
  qed
qed

lemma compute_message_key_no_Panic [simp]: "compute_message_key c st h b \<noteq> Panic"
  by (auto simp: compute_message_key_def and_then_eq_Panic split: if_splits prod.splits)

lemma decrypt_header_OkD:
  assumes "decrypt_header c st eh = Ok (h, b)"
  shows "valid_header h"
    and "b \<Longrightarrow> decrypt_header_with_key c (nhk_r st) eh = Ok h"
    and "\<not> b \<Longrightarrow> \<exists>hk. hk_r st = Some hk \<and> decrypt_header_with_key c hk eh = Ok h"
  using assms
  by (auto simp: decrypt_header_def Let_def split: option.splits result.splits
      dest: decrypt_header_with_key_valid)

lemma decrypt_header_no_Panic [simp]: "decrypt_header c st eh \<noteq> Panic"
  by (auto simp: decrypt_header_def Let_def split: option.splits result.splits)

lemma decrypt_header_Err: "decrypt_header c st eh = Err e \<Longrightarrow> e = HeaderDecryptionFailed"
  by (auto simp: decrypt_header_def Let_def split: option.splits result.splits)

text \<open>Only the store of skipped keys and the clock change; an error leaves the store empty.\<close>

lemma store_chain_gap_cases:
  assumes "ratchet_crypto c" and "ratchet_inv st"
  shows "(\<exists>m t. store_chain_gap c target st w = (Ok (), st\<lparr>mkskipped := m\<rparr>, w\<lparr>ticks := t\<rparr>) \<and>
            wf_skipped m \<and> length m \<le> MAX_SKIPPED_KEYS) \<or>
         (\<exists>e. store_chain_gap c target st w = (Err e, st\<lparr>mkskipped := []\<rparr>, w) \<and>
            ck_r st \<noteq> None \<and>
            (e = InvalidHeader \<and> target < nr st \<or>
             e = OldMessageKeysLimitReached \<and> unat (nr st) + 1000 < unat target))"
proof (cases "ck_r st")
  case None
  then have "store_chain_gap c target st w = (Ok (), st\<lparr>mkskipped := mkskipped st\<rparr>, w)"
    by (simp add: store_chain_gap_def)
  then show ?thesis
    using wf_stateD(11) [OF ratchet_invD(1) [OF assms(2)]] ratchet_invD(2) [OF assms(2)]
    by (intro disjI1 exI [of _ "mkskipped st"] exI [of _ "ticks w"]) simp
next
  case (Some ck)
  then obtain hk where hk: "hk_r st = Some hk" using ratchet_invD(5) [OF assms(2)] by auto
  have wf: "wf_skipped (mkskipped st)" and arr: "is_array 32 hk"
    using wf_stateD(8,11) [OF ratchet_invD(1) [OF assms(2)]] hk by simp_all
  note cases = skip_message_keys_cases [OF wf arr ratchet_cryptoD(1) [OF assms(1)]]
  have gap: "store_chain_gap c target st w =
      (case skip_message_keys c w (mkskipped st) ck hk (nr st) target of
         (Ok m, w') \<Rightarrow> (Ok (), st\<lparr>mkskipped := m\<rparr>, w')
       | (Err e, w') \<Rightarrow> (Err e, st\<lparr>mkskipped := []\<rparr>, w')
       | (Panic, w') \<Rightarrow> (Panic, st\<lparr>mkskipped := []\<rparr>, w'))"
    using Some hk by (simp add: store_chain_gap_def)
  consider (behind) "target < nr st" | (far) "nr st \<le> target" "unat target - unat (nr st) > 1000"
    | (near) "nr st \<le> target" "unat target - unat (nr st) \<le> 1000"
    using linorder_not_le [of "nr st" target]
      linorder_not_le [of "unat target - unat (nr st)" 1000] by blast
  then show ?thesis
  proof cases
    case behind
    with Some show ?thesis by (simp add: gap cases(1))
  next
    case far
    then have "unat (nr st) + 1000 < unat target" by linarith
    with Some far show ?thesis by (simp add: gap cases(2))
  next
    case near
    then obtain m t where "skip_message_keys c w (mkskipped st) ck hk (nr st) target = (Ok m, w\<lparr>ticks := t\<rparr>)"
        "wf_skipped m" "length m \<le> MAX_SKIPPED_KEYS"
      using cases(3) ratchet_invD(2) [OF assms(2)] by blast
    then show ?thesis by (auto simp: gap)
  qed
qed

lemma ratchet_inv_skipped:
  "ratchet_inv st \<Longrightarrow> wf_skipped m \<Longrightarrow> length m \<le> MAX_SKIPPED_KEYS \<Longrightarrow> ratchet_inv (st\<lparr>mkskipped := m\<rparr>)"
  by (auto simp: ratchet_inv_def wf_state_def)

lemma store_chain_gap_safe:
  assumes "ratchet_crypto c" and "ratchet_inv st"
  shows "st_safe ratchet_inv (\<lambda>_ s. ck_r s = ck_r st) (store_chain_gap c target st w)"
  using store_chain_gap_cases [OF assms, of target w] assms(2)
  by (auto intro!: ratchet_inv_skipped)

text \<open>A DH ratchet step always succeeds, and this is the state it leaves.\<close>

lemma perform_dh_ratchet_ok:
  assumes "ratchet_crypto c"
  obtains rk1 ckr nhkr dh_s w1 rk2 cks nhks where
    "kdf_rk_he c (rk st) (x25519_dh c (fst (dh_pair st)) pub) = Ok (rk1, ckr, nhkr)"
    "os_rng_fill 32 w = (dh_s, w1)" "is_array 32 dh_s"
    "kdf_rk_he c rk1 (x25519_dh c dh_s pub) = Ok (rk2, cks, nhks)"
    "is_array 32 ckr" "is_array 32 nhkr" "is_array 32 rk2" "is_array 32 cks" "is_array 32 nhks"
    "perform_dh_ratchet c pub st w =
       (Ok (), st\<lparr>pn := ns st, ns := 0, nr := 0, hk_s := Some (nhk_s st), hk_r := Some (nhk_r st),
                 dh_remote := Some pub, rk := rk2, ck_r := Some ckr, nhk_r := nhkr,
                 ck_s := Some cks, nhk_s := nhks, dh_pair := (dh_s, x25519_base c dh_s),
                 received_messages := {||}\<rparr>, w1)"
proof -
  note total = kdf_rk_he_total [OF ratchet_cryptoD(2) [OF assms]]
  note sized = kdf_rk_he_sized [OF ratchet_cryptoD(2) [OF assms]]
  obtain rk1 ckr nhkr where k1: "kdf_rk_he c (rk st) (x25519_dh c (fst (dh_pair st)) pub) = Ok (rk1, ckr, nhkr)"
    using total by blast
  obtain dh_s w1 where rng: "os_rng_fill 32 w = (dh_s, w1)" by fastforce
  then have len: "is_array 32 dh_s" by (metis fst_conv length_os_rng_fill)
  obtain rk2 cks nhks where k2: "kdf_rk_he c rk1 (x25519_dh c dh_s pub) = Ok (rk2, cks, nhks)"
    using total by blast
  show ?thesis
    by (rule that [OF k1 rng len k2 sized(2) [OF k1] sized(3) [OF k1] sized [OF k2]])
      (simp add: perform_dh_ratchet_def k1 rng k2)
qed

lemma perform_dh_ratchet_safe:
  assumes "ratchet_crypto c" and "ratchet_inv st" and "is_array 32 pub"
  shows "st_safe ratchet_inv (\<lambda>_ s. ck_r s \<noteq> None) (perform_dh_ratchet c pub st w)"
  by (rule perform_dh_ratchet_ok [OF assms(1), of st pub w])
    (use assms x25519_sizedD(1) [OF ratchet_cryptoD(3) [OF assms(1)]] in
      \<open>auto simp: ratchet_inv_def wf_state_def fcard_fempty\<close>)

lemma advance_receiving_safe:
  assumes "ratchet_crypto c" and "ratchet_inv st" and "ck_r st \<noteq> None"
  shows "st_safe ratchet_inv (\<lambda>_ _. True) (advance_receiving c st w)"
  using assms kdf_ck_sized(1) [OF ratchet_cryptoD(1) [OF assms(1)]]
  by (auto simp: advance_receiving_def Let_def ratchet_inv_def wf_state_def split: option.splits)

lemma commit_safe:
  assumes c: "ratchet_crypto c" and inv: "ratchet_inv st" and h: "valid_header h"
    and chain: "dh_ratchet \<or> ck_r st \<noteq> None"
  shows "st_safe ratchet_inv (\<lambda>_ _. True) (commit_state_changes c h dh_ratchet st w)"
  unfolding commit_state_changes_def
proof (rule st_safe_bind [where Q = "\<lambda>_ s. ck_r s \<noteq> None"])
  have pub: "is_array 32 (dh_pub h)" using h by (simp add: valid_header_def)
  have "st_safe ratchet_inv (\<lambda>_ s. ck_r s \<noteq> None)
      (bind_st (store_chain_gap c (hdr_pn h) st w) (\<lambda>_. perform_dh_ratchet c (dh_pub h)))"
    by (rule st_safe_bind [OF store_chain_gap_safe [OF c inv]])
      (rule perform_dh_ratchet_safe [OF c _ pub])
  then show "st_safe ratchet_inv (\<lambda>_ s. ck_r s \<noteq> None)
      (if dh_ratchet
       then bind_st (store_chain_gap c (hdr_pn h) st w) (\<lambda>_. perform_dh_ratchet c (dh_pub h))
       else (Ok (), st, w))"
    using inv chain by auto
next
  fix a s w
  assume "ratchet_inv s" and "ck_r s \<noteq> None"
  then show "st_safe ratchet_inv (\<lambda>_ _. True)
      (bind_st (store_chain_gap c (hdr_n h) s w) (\<lambda>_. advance_receiving c))"
    by (intro st_safe_bind [OF store_chain_gap_safe [OF c]] advance_receiving_safe [OF c]) auto
qed

lemma track_received_safe:
  "ratchet_inv st \<Longrightarrow> st_safe ratchet_inv (\<lambda>_ _. True) (track_received i p st w)"
  by (auto simp: track_received_def ratchet_inv_def wf_state_def fcard_finsert_if)

lemma decrypt_with_ratchet_safe:
  assumes c: "ratchet_crypto c" and inv: "ratchet_inv st"
  shows "st_safe ratchet_inv (\<lambda>_ _. True) (decrypt_with_ratchet c w st eh ct ad)"
proof (cases "decrypt_header c st eh")
  case (Ok hb)
  obtain h b where hb: "hb = (h, b)" by (cases hb)
  have h: "valid_header h" and chain: "b \<or> ck_r st \<noteq> None"
    using decrypt_header_OkD [of c st eh h b] Ok hb ratchet_invD(5) [OF inv] by auto
  have key: "and_then (compute_message_key c st h b) (\<lambda>mk. decrypt_aead c mk ct ad) \<noteq> Panic"
    using decrypt_aead_no_Panic [OF ratchet_cryptoD(2) [OF c]] by (simp add: and_then_eq_Panic)
  have "st_safe ratchet_inv (\<lambda>_ s. s = st)
      (and_then (compute_message_key c st h b) (\<lambda>mk. decrypt_aead c mk ct ad), st, w)"
    using key inv by (cases "and_then (compute_message_key c st h b) (\<lambda>mk. decrypt_aead c mk ct ad)") auto
  then have "st_safe ratchet_inv (\<lambda>_ _. True)
      (bind_st (and_then (compute_message_key c st h b) (\<lambda>mk. decrypt_aead c mk ct ad), st, w)
        (\<lambda>p s w. bind_st (commit_state_changes c h b s w) (\<lambda>_. track_received (dh_pub h, hdr_n h) p)))"
    by (rule st_safe_bind)
      (use chain in \<open>auto intro!: st_safe_bind [OF commit_safe [OF c _ h]] track_received_safe\<close>)
  then show ?thesis using Ok hb inv by (simp add: decrypt_with_ratchet_def Let_def)
qed (simp_all add: decrypt_with_ratchet_def inv)

lemma decrypt_safe:
  assumes c: "ratchet_crypto c" and inv: "ratchet_inv st"
  shows "st_safe ratchet_inv (\<lambda>_ _. True) (decrypt c w st eh ct ad)"
proof -
  have skip: "ratchet_inv (st\<lparr>mkskipped := AList.delete k (mkskipped st)\<rparr>)" for k
  proof (rule ratchet_inv_skipped [OF inv])
    show "wf_skipped (AList.delete k (mkskipped st))"
      by (rule wf_skipped_delete [OF wf_stateD(11) [OF ratchet_invD(1) [OF inv]]])
    show "length (AList.delete k (mkskipped st)) \<le> MAX_SKIPPED_KEYS"
      using length_delete_le [of k "mkskipped st"] ratchet_invD(2) [OF inv] by linarith
  qed
  show ?thesis
    using try_skipped_cases [OF ratchet_cryptoD(2) [OF c], of w "mkskipped st" eh ct "concat_ad ad eh"]
      decrypt_with_ratchet_safe [OF c inv, of w eh ct "concat_ad ad eh"] skip inv
    by (auto simp: decrypt_def Let_def)
qed

text \<open>With a sending chain, small associated data and unexhausted counters, encryption succeeds.\<close>

lemma encrypt_succeeds:
  assumes "crypto_ok c" and "ratchet_inv st" and "ck_s st = Some ck" and "length ad \<le> MAX_AD_SIZE"
    and "Suc (unat (ns st)) < 2 ^ 32" and "Suc (unat (header_nonce_counter st)) < 2 ^ 64"
  shows "\<exists>eh ct. encrypt c st p ad = (Ok (eh, ct), st\<lparr>ck_s := Some (chain_key c 1 ck),
           ns := ns st + 1, header_nonce_counter := header_nonce_counter st + 1\<rparr>) \<and>
         length eh = 68 \<and> length ct = 16 * Suc (length p div 16) + 32"
proof -
  obtain hk where hk: "hk_s st = Some hk" and rem: "dh_remote st \<noteq> None"
    using ratchet_invD(4,6) [OF assms(2)] assms(3) by auto
  have arr: "is_array 32 hk" using wf_stateD(7) [OF ratchet_invD(1) [OF assms(2)]] hk by simp
  let ?h = "\<lparr> dh_pub = snd (dh_pair st), hdr_pn = pn st, hdr_n = ns st \<rparr>"
  have h: "valid_header ?h" using wf_stateD(2) [OF ratchet_invD(1) [OF assms(2)]] by (simp add: valid_header_def)
  obtain eh where eh: "seal_header c hk (header_nonce (is_sender st) (header_nonce_counter st)) ?h = Ok eh"
    by (rule hdr.seal_total [OF crypto_okD(6) [OF assms(1)] arr length_header_nonce h])
  have len: "length eh = 68"
    using eh gcm_correctD [OF crypto_okD(6) [OF assms(1)] arr length_header_nonce, of "to_bytes ?h"
        "is_sender st" "header_nonce_counter st"] header.enc_width [OF h]
    by (auto simp: seal_header_def)
  have "aead_ok c" using assms(1) by (simp add: aead_ok_def crypto_ok_def)
  from encrypt_decrypt_aead [OF this, of "message_key c 0 ck" p "concat_ad ad eh"]
  obtain ct where ct: "encrypt_aead c (message_key c 0 ck) p (concat_ad ad eh) = Ok ct"
      "length ct = 16 * Suc (length p div 16) + 32" by blast
  have "checked_add (ns st) 1 = Some (ns st + 1)"
    "checked_add (header_nonce_counter st) 1 = Some (header_nonce_counter st + 1)"
    using assms(5,6) by (simp_all add: checked_add_def)
  from encrypt_OkI [OF assms(3) hk rem assms(4) this eh ct(1)] len ct(2) show ?thesis by blast
qed

lemma encrypt_sized:
  assumes "crypto_ok c" and "ratchet_inv st" and "encrypt c st p ad = (Ok (eh, ct), st')"
  shows "length eh = 68" and "length ct = 16 * Suc (length p div 16) + 32"
proof -
  have "length eh = 68 \<and> length ct = 16 * Suc (length p div 16) + 32"
    using assms(3)
  proof (rule encrypt_OkD)
    fix ck hk ctr n'
    assume ck: "ck_s st = Some ck" and ad: "length ad \<le> MAX_AD_SIZE"
      and n: "checked_add (ns st) 1 = Some n'" "checked_add (header_nonce_counter st) 1 = Some ctr"
    have "Suc (unat (ns st)) < 2 ^ 32" "Suc (unat (header_nonce_counter st)) < 2 ^ 64"
      using n by (auto simp: checked_add_def split: if_splits)
    from encrypt_succeeds [OF assms(1,2) ck ad this, of p] assms(3) show ?thesis by auto
  qed
  then show "length eh = 68" "length ct = 16 * Suc (length p div 16) + 32" by simp_all
qed

section \<open>Properties\<close>

text \<open>C22: Every outcome of an encryption and the state it leaves. Without a sending chain or with
  oversized associated data nothing changes; on success the chain advances by one key, the
  message and nonce counters by one; and when a counter is exhausted the call fails although
  it has already advanced the chain, and the message counter too if that was not the one.\<close>

theorem encrypt_outcomes:
  assumes "crypto_ok c" and "ratchet_inv st"
  shows "(ck_s st = None \<and> encrypt c st p ad = (Err InvalidState, st)) \<or>
    (ck_s st \<noteq> None \<and> length ad > 65536 \<and> encrypt c st p ad = (Err ADTooLarge, st)) \<or>
    (\<exists>ck. ck_s st = Some ck \<and> length ad \<le> 65536 \<and>
       (if Suc (unat (ns st)) = 2 ^ 32
        then encrypt c st p ad = (Err CounterOverflow, st\<lparr>ck_s := Some (chain_key c 1 ck)\<rparr>)
        else if Suc (unat (header_nonce_counter st)) = 2 ^ 64
        then encrypt c st p ad = (Err CounterOverflow, st\<lparr>ck_s := Some (chain_key c 1 ck), ns := ns st + 1\<rparr>)
        else \<exists>eh ct. encrypt c st p ad = (Ok (eh, ct), st\<lparr>ck_s := Some (chain_key c 1 ck),
               ns := ns st + 1, header_nonce_counter := header_nonce_counter st + 1\<rparr>) \<and>
             length eh = 68 \<and> length ct = 16 * Suc (length p div 16) + 32))"
proof (cases "ck_s st = None \<or> length ad > 65536")
  case True
  then show ?thesis
    using ratchet_invD(4,6) [OF assms(2)]
    by (auto simp: encrypt_def validate_encryption_state_def MAX_AD_SIZE_def)
next
  case False
  then obtain ck hk where ck: "ck_s st = Some ck" and hk: "hk_s st = Some hk" and rem: "dh_remote st \<noteq> None"
    and ad: "length ad \<le> MAX_AD_SIZE"
    using ratchet_invD(4,6) [OF assms(2)] by (auto simp: MAX_AD_SIZE_def)
  obtain a b where step: "kdf_ck c ck = (a, b)" by (cases "kdf_ck c ck")
  have bound: "unat (ns st) < 2 ^ 32" "unat (header_nonce_counter st) < 2 ^ 64"
    using unsigned_less [of "ns st"] unsigned_less [of "header_nonce_counter st"] by simp_all
  consider (chain) "Suc (unat (ns st)) = 2 ^ 32"
    | (nonce) "Suc (unat (ns st)) < 2 ^ 32" "Suc (unat (header_nonce_counter st)) = 2 ^ 64"
    | (ok) "Suc (unat (ns st)) < 2 ^ 32" "Suc (unat (header_nonce_counter st)) < 2 ^ 64"
    using bound by linarith
  then show ?thesis
  proof cases
    case chain
    then have "checked_add (ns st) 1 = None" by (simp add: checked_add_def)
    with chain ck hk rem ad step show ?thesis
      by (simp add: encrypt_def validate_encryption_state_def MAX_AD_SIZE_def chain_key_Suc)
  next
    case nonce
    then have "checked_add (header_nonce_counter st) 1 = None" "checked_add (ns st) 1 = Some (ns st + 1)"
      by (simp_all add: checked_add_def)
    with nonce ck hk rem ad step show ?thesis
      by (simp add: encrypt_def encrypt_header_def validate_encryption_state_def MAX_AD_SIZE_def chain_key_Suc)
  next
    case ok
    with encrypt_succeeds [OF assms ck ad ok, of p] ck ad show ?thesis by (simp add: MAX_AD_SIZE_def)
  qed
qed

theorem encrypt_outcomes_witness:
  "encrypt reference_crypto
     \<lparr> dh_pair = (replicate 32 3, replicate 32 3), dh_remote = Some (replicate 32 1),
       rk = replicate 32 141, ck_s = None, ck_r = None, hk_s = None, hk_r = None,
       nhk_s = replicate 32 143, nhk_r = replicate 32 142, ns = 0, nr = 0, pn = 0, mkskipped = [],
       header_nonce_counter = 0, is_sender = True, received_messages = {||} \<rparr> [1] [2]
   = (Err InvalidState,
     \<lparr> dh_pair = (replicate 32 3, replicate 32 3), dh_remote = Some (replicate 32 1),
       rk = replicate 32 141, ck_s = None, ck_r = None, hk_s = None, hk_r = None,
       nhk_s = replicate 32 143, nhk_r = replicate 32 142, ns = 0, nr = 0, pn = 0, mkskipped = [],
       header_nonce_counter = 0, is_sender = True, received_messages = {||} \<rparr>)"
  (is "encrypt _ ?st _ _ = _")
proof -
  have "ratchet_inv ?st" by (simp add: ratchet_inv_def wf_state_def fcard_fempty)
  from encrypt_outcomes [OF reference_crypto_ok this, of "[1]" "[2]"] show ?thesis by simp
qed

end
