(* ===== verification/Session_Machine.thy ===== *)
theory Session_Machine
  imports Ratchet_Invariant
begin

text \<open>
  One party's session as a machine: any sequence of calls of \<^verbatim>\<open>encrypt\<close> and \<^verbatim>\<open>decrypt\<close>, with
  any arguments, on the state the previous calls left, whether they succeeded or not.
\<close>

datatype session_op = SendMsg bytes bytes | ReceiveMsg bytes bytes bytes

fun session_step :: "crypto \<Rightarrow> session_op \<Rightarrow> RatchetState \<times> World \<Rightarrow> RatchetState \<times> World" where
  "session_step c (SendMsg p ad) (st, w) = (snd (encrypt c st p ad), w)"
| "session_step c (ReceiveMsg eh ct ad) (st, w) = snd (decrypt c w st eh ct ad)"

text \<open>The result a call gives, and the nonce under which a successful encryption sealed its header.\<close>

fun session_panics :: "crypto \<Rightarrow> session_op \<Rightarrow> RatchetState \<times> World \<Rightarrow> bool" where
  "session_panics c (SendMsg p ad) (st, w) = (fst (encrypt c st p ad) = Panic)"
| "session_panics c (ReceiveMsg eh ct ad) (st, w) = (fst (decrypt c w st eh ct ad) = Panic)"

fun sent_nonce :: "crypto \<Rightarrow> session_op \<Rightarrow> RatchetState \<times> World \<Rightarrow> bytes option" where
  "sent_nonce c (SendMsg p ad) (st, w) =
     (case fst (encrypt c st p ad) of Ok (eh, ct) \<Rightarrow> Some (slice 0 12 eh) | _ \<Rightarrow> None)"
| "sent_nonce c (ReceiveMsg eh ct ad) (st, w) = None"

definition session_good :: "crypto \<Rightarrow> bool \<Rightarrow> RatchetState \<times> World \<Rightarrow> bool" where
  "session_good c b s \<longleftrightarrow> ratchet_crypto c \<and> ratchet_inv (fst s) \<and> is_sender (fst s) = b"

section \<open>What decryption leaves unchanged\<close>

text \<open>
  A property of the state that a DH ratchet keeps, and that the other phases of a decryption do
  not touch.
\<close>

locale decrypt_frame =
  fixes keep :: "RatchetState \<Rightarrow> bool"
  assumes keep_skipped: "keep (st\<lparr>mkskipped := m\<rparr>) = keep st"
    and keep_chain: "keep (st\<lparr>ck_r := k\<rparr>) = keep st"
    and keep_number: "keep (st\<lparr>nr := n\<rparr>) = keep st"
    and keep_received: "keep (st\<lparr>received_messages := r\<rparr>) = keep st"
    and keep_ratchet: "keep st \<Longrightarrow> st_keeps keep True (perform_dh_ratchet c p st w)"
begin

lemma store_chain_gap_keeps: "keep st \<Longrightarrow> st_keeps keep True (store_chain_gap c t st w)"
  by (auto simp: store_chain_gap_def keep_skipped split: option.split prod.split result.split)

lemma advance_receiving_keeps: "keep st \<Longrightarrow> st_keeps keep True (advance_receiving c st w)"
  by (auto simp: advance_receiving_def keep_chain keep_number Let_def split: option.split)

lemma track_received_keeps: "keep st \<Longrightarrow> st_keeps keep True (track_received i p st w)"
  by (auto simp: track_received_def keep_received)

lemmas phases_keep = store_chain_gap_keeps keep_ratchet advance_receiving_keeps track_received_keeps

lemma commit_keeps: "keep st \<Longrightarrow> st_keeps keep True (commit_state_changes c h b st w)"
  unfolding commit_state_changes_def
  by (intro st_keeps_bind phases_keep) (auto intro!: st_keeps_bind phases_keep)

lemma decrypt_with_ratchet_keeps: "keep st \<Longrightarrow> st_keeps keep True (decrypt_with_ratchet c w st eh ct a)"
  unfolding decrypt_with_ratchet_def
  by (intro st_keeps_bind) (auto simp: Let_def intro!: st_keeps_bind commit_keeps phases_keep)

lemma decrypt_keeps: "keep st \<Longrightarrow> st_keeps keep True (decrypt c w st eh ct ad)"
  by (auto simp: decrypt_def Let_def keep_skipped intro!: decrypt_with_ratchet_keeps
      split: result.split option.split prod.split)

end

text \<open>The nonce counter, and the sending counter up to a restart at zero.\<close>

definition nonce_part :: "RatchetState \<Rightarrow> u64 \<times> bool" where
  "nonce_part st = (header_nonce_counter st, is_sender st)"

interpretation nonce_frame: decrypt_frame "\<lambda>st. nonce_part st = x" for x
  by unfold_locales
    (auto simp: nonce_part_def perform_dh_ratchet_def Let_def split: prod.split result.split)

interpretation ns_frame: decrypt_frame "\<lambda>st. ns st = n \<or> ns st = 0" for n
  by unfold_locales (auto simp: perform_dh_ratchet_def Let_def split: prod.split result.split)

lemma decrypt_counters:
  assumes "decrypt c w st eh ct ad = (r, st', w')"
  shows "header_nonce_counter st' = header_nonce_counter st" "is_sender st' = is_sender st"
    "ns st' = ns st \<or> ns st' = 0"
  using nonce_frame.decrypt_keeps [of st "nonce_part st" c w eh ct ad]
    ns_frame.decrypt_keeps [of st "ns st" c w eh ct ad] assms
  by (simp_all add: nonce_part_def)

section \<open>The machines\<close>

interpretation session: guarded_machine "session_step c" "session_good c b" for c b
proof
  fix s op assume good: "session_good c b s"
  obtain st w where s: "s = (st, w)" by (cases s)
  have c: "ratchet_crypto c" and inv: "ratchet_inv st" and snd: "is_sender st = b"
    using good by (simp_all add: s session_good_def)
  show "session_good c b (session_step c op s)"
  proof (cases op)
    case (SendMsg p ad)
    obtain r st' where e: "encrypt c st p ad = (r, st')" by (cases "encrypt c st p ad")
    have "is_sender st' = is_sender st" by (subst encrypt_frame(1) [OF e]) simp
    then show ?thesis using encrypt_inv(1) [OF c inv e] c snd by (simp add: SendMsg s e session_good_def)
  next
    case (ReceiveMsg eh ct ad)
    obtain r st' w' where d: "decrypt c w st eh ct ad = (r, st', w')" by (metis prod_cases3)
    have "is_sender st' = is_sender st"
      using decrypt_counters [OF d] by simp
    then show ?thesis
      using st_safeD [of ratchet_inv "\<lambda>_ _. True" r st' w'] decrypt_safe [OF c inv, of w eh ct ad] c snd
      by (simp add: ReceiveMsg s d session_good_def)
  qed
qed

definition nonce_index :: "bytes \<Rightarrow> nat" where
  "nonce_index nonce = unat (from_be_bytes (drop 4 nonce) :: u64)"

definition nonce_counter :: "RatchetState \<times> World \<Rightarrow> nat" where
  "nonce_counter s = unat (header_nonce_counter (fst s))"

lemma nonce_index_header [simp]: "nonce_index (header_nonce b n) = unat n"
  by (simp add: nonce_index_def header_nonce_def)

lemma sent_nonce_SomeD:
  assumes "sent_nonce c op s = Some e"
  shows "e = header_nonce (is_sender (fst s)) (header_nonce_counter (fst s)) \<and>
         nonce_counter (session_step c op s) = Suc (nonce_counter s)"
proof -
  obtain st w where s: "s = (st, w)" by (cases s)
  obtain p ad where op: "op = SendMsg p ad" using assms s by (cases op) auto
  obtain eh ct st' where e: "encrypt c st p ad = (Ok (eh, ct), st')" and "e = slice 0 12 eh"
    using assms by (cases "encrypt c st p ad") (auto simp: op s split: result.splits)
  from e show ?thesis
  proof (rule encrypt_OkD)
    fix ck hk ctr n'
    assume "checked_add (header_nonce_counter st) 1 = Some ctr"
      and seal: "seal_header c hk (header_nonce (is_sender st) (header_nonce_counter st))
       \<lparr> dh_pub = snd (dh_pair st), hdr_pn = pn st, hdr_n = ns st \<rparr> = Ok eh"
      and "st' = st\<lparr>ck_s := Some (chain_key c 1 ck), ns := n', header_nonce_counter := ctr\<rparr>"
    then show ?thesis
      using seal_header_prefix [OF seal] checked_add_Some(2) [of "header_nonce_counter st" 1 ctr]
      by (simp add: s op e \<open>e = slice 0 12 eh\<close> nonce_counter_def)
  qed
qed

lemma session_counter_mono: "nonce_counter s \<le> nonce_counter (session_step c op s)"
proof (cases op)
  case (SendMsg p ad)
  obtain st w where s: "s = (st, w)" by (cases s)
  obtain r st' where e: "encrypt c st p ad = (r, st')" by (cases "encrypt c st p ad")
  show ?thesis
    using encrypt_frame(3) [OF e] checked_add_Some(2) [of "header_nonce_counter st" 1]
    by (auto simp: SendMsg s e nonce_counter_def)
next
  case (ReceiveMsg eh ct ad)
  obtain st w where s: "s = (st, w)" by (cases s)
  show ?thesis
    by (cases "decrypt c w st eh ct ad") (simp add: ReceiveMsg s nonce_counter_def decrypt_counters)
qed

interpretation nonces: issuing_machine "session_step c" "session_good c b" "sent_nonce c" nonce_index nonce_counter
  for c b
proof
  fix s op e
  assume "sent_nonce c op s = Some e"
  from sent_nonce_SomeD [OF this]
  show "nonce_index e = nonce_counter s \<and> nonce_counter s < nonce_counter (session_step c op s)"
    by (simp add: nonce_counter_def [of s])
next
  fix s op
  show "nonce_counter s \<le> nonce_counter (session_step c op s)" by (rule session_counter_mono)
qed

lemma emissions_tag:
  assumes "session_good c b s" and "e \<in> set (emissions (session_step c) (sent_nonce c) ops s)"
  shows "hd e = (if b then 0x00 else 0xFF)"
  using assms
proof (induction ops arbitrary: s)
  case (Cons op ops)
  then consider "sent_nonce c op s = Some e"
    | "e \<in> set (emissions (session_step c) (sent_nonce c) ops (session_step c op s))"
    by (auto split: option.splits)
  then show ?case
  proof cases
    case 1
    then show ?thesis
      using sent_nonce_SomeD [OF 1] Cons.prems(1) by (simp add: session_good_def header_nonce_def)
  next
    case 2
    then show ?thesis by (rule Cons.IH [OF session.step_good [OF Cons.prems(1)]])
  qed
qed simp

section \<open>Properties\<close>

inductive session_start :: "crypto \<Rightarrow> bool \<Rightarrow> RatchetState \<times> World \<Rightarrow> bool" for c where
  sender: "init_sender_state c w sk pub = (Ok st, w') \<Longrightarrow> is_array 32 sk \<Longrightarrow> is_array 32 pub \<Longrightarrow>
           session_start c True (st, w')"
| receiver: "init_receiver_state c sk (priv, pub) = Ok st \<Longrightarrow> is_array 32 sk \<Longrightarrow> is_array 32 priv \<Longrightarrow>
             is_array 32 pub \<Longrightarrow> session_start c False (st, w)"

lemma session_start_good:
  assumes "ratchet_crypto c" and "session_start c b s"
  shows "session_good c b s"
  using assms(2)
proof (cases rule: session_start.cases)
  case (sender w sk pub st w')
  then have "is_sender st"
    by (auto simp: init_sender_state_def Let_def split: prod.splits)
  with sender show ?thesis
    using init_sender_ok [OF assms(1), of sk pub w] assms(1) by (simp add: session_good_def)
next
  case (receiver sk priv pub st w)
  then have "\<not> is_sender st" by (auto simp: init_receiver_state_def)
  with receiver show ?thesis
    using init_receiver_ok [OF assms(1), of sk priv pub] assms(1) by (simp add: session_good_def)
qed

lemma no_panic_step:
  assumes "session_good c b s"
  shows "\<not> session_panics c op s"
proof -
  obtain st w where s: "s = (st, w)" by (cases s)
  have c: "ratchet_crypto c" and inv: "ratchet_inv st" using assms by (simp_all add: s session_good_def)
  show ?thesis
  proof (cases op)
    case (SendMsg p ad)
    then show ?thesis using encrypt_inv(2) [OF c inv, of p ad] by (cases "encrypt c st p ad") (simp add: s)
  next
    case (ReceiveMsg eh ct ad)
    then show ?thesis
      using decrypt_safe [OF c inv, of w eh ct ad]
      by (cases "decrypt c w st eh ct ad") (auto simp: s dest: st_safeD)
  qed
qed

text \<open>C3: Whatever messages arrive and whatever is sent, in any order and with any bytes, from the
  first call on: no call panics, the session keeps its invariant, and its two memories stay
  within their limits, 2000 skipped keys and 10000 received messages.\<close>

theorem session_never_panics:
  assumes "ratchet_crypto c" and "session_start c b s"
  shows "\<not> session_panics c op (fold (session_step c) ops s) \<and>
    (let st = fst (fold (session_step c) ops s) in
       ratchet_inv st \<and> length (mkskipped st) \<le> 2000 \<and> fcard (received_messages st) \<le> 10000)"
proof -
  have good: "session_good c b (fold (session_step c) ops s)"
    by (rule session.run_good [OF session_start_good [OF assms]])
  then have "ratchet_inv (fst (fold (session_step c) ops s))" by (simp add: session_good_def)
  with no_panic_step [OF good] show ?thesis
    by (auto simp: Let_def MAX_SKIPPED_KEYS_def MAX_RECEIVED_TRACKING_def dest: ratchet_invD(2,3))
qed

theorem session_never_panics_witness:
  "\<exists>st. init_receiver_state reference_crypto (replicate 32 7) (replicate 32 1, replicate 32 1) = Ok st \<and>
     \<not> session_panics reference_crypto (SendMsg [1] [])
         (fold (session_step reference_crypto) [ReceiveMsg [1, 2] [3] []] (st, demo_world))"
proof -
  have c: "ratchet_crypto reference_crypto" by (rule ratchet_crypto_ok [OF reference_crypto_ok])
  obtain st where st: "init_receiver_state reference_crypto (replicate 32 7) (replicate 32 1, replicate 32 1) = Ok st"
    using init_receiver_ok [OF c, of "replicate 32 7" "replicate 32 1" "replicate 32 1"] by auto
  then have "session_start reference_crypto False (st, demo_world)" by (rule session_start.receiver) simp_all
  from session_never_panics [OF c this] st show ?thesis by blast
qed

text \<open>C12: No header nonce is used twice, neither by one party over a whole session nor by the two
  parties between them: the nonces of all headers either side ever sealed are distinct.\<close>

theorem header_nonces_unique:
  assumes "ratchet_crypto c" and "session_start c True a" and "session_start c False b"
  shows "distinct (emissions (session_step c) (sent_nonce c) ops a @
                   emissions (session_step c) (sent_nonce c) ops' b)"
proof -
  note good = session_start_good [OF assms(1,2)] session_start_good [OF assms(1,3)]
  have "set (emissions (session_step c) (sent_nonce c) ops a) \<inter>
        set (emissions (session_step c) (sent_nonce c) ops' b) = {}"
    using emissions_tag [OF good(1)] emissions_tag [OF good(2)] by fastforce
  then show ?thesis
    using nonces.emissions_distinct [OF good(1)] nonces.emissions_distinct [OF good(2)] by simp
qed

lemma demo_sender:
  "init_sender_state reference_crypto demo_world (replicate 32 7) (replicate 32 5) =
     (Ok \<lparr> dh_pair = (replicate 32 3, replicate 32 3), dh_remote = Some (replicate 32 5),
           rk = replicate 32 145, ck_s = Some (replicate 32 146), ck_r = None,
           hk_s = Some (replicate 32 143), hk_r = None, nhk_s = replicate 32 147, nhk_r = replicate 32 142,
           ns = 0, nr = 0, pn = 0, mkskipped = [], header_nonce_counter = 0, is_sender = True,
           received_messages = {||} \<rparr>, demo_world\<lparr>rand_pos := 32\<rparr>)"
proof -
  have "os_rng_fill 32 demo_world = (replicate 32 3, demo_world\<lparr>rand_pos := 32\<rparr>)"
    by (auto simp: os_rng_fill_def demo_world_def list_eq_iff_nth_eq)
  then show ?thesis by (simp add: init_sender_state_def run_simps)
qed

theorem header_nonces_unique_witness:
  "\<exists>a b w. init_sender_state reference_crypto demo_world (replicate 32 7) (replicate 32 5) = (Ok a, w) \<and>
     init_receiver_state reference_crypto (replicate 32 7) (replicate 32 1, replicate 32 1) = Ok b \<and>
     distinct (emissions (session_step reference_crypto) (sent_nonce reference_crypto) [SendMsg [1] [], SendMsg [1] []] (a, w) @
               emissions (session_step reference_crypto) (sent_nonce reference_crypto) [SendMsg [1] []] (b, w))"
proof -
  have c: "ratchet_crypto reference_crypto" by (rule ratchet_crypto_ok [OF reference_crypto_ok])
  obtain a w where a: "init_sender_state reference_crypto demo_world (replicate 32 7) (replicate 32 5) = (Ok a, w)"
    using init_sender_ok [OF c, of "replicate 32 7" "replicate 32 5" demo_world] by auto
  obtain b where b: "init_receiver_state reference_crypto (replicate 32 7) (replicate 32 1, replicate 32 1) = Ok b"
    using init_receiver_ok [OF c, of "replicate 32 7" "replicate 32 1" "replicate 32 1"] by auto
  have "session_start reference_crypto True (a, w)" using a by (rule session_start.sender) simp_all
  moreover have "session_start reference_crypto False (b, w)" using b by (rule session_start.receiver) simp_all
  ultimately show ?thesis using a b header_nonces_unique [OF c] by blast
qed

end
