(* ===== verification/Delivery.thy ===== *)
theory Delivery
  imports Session_Machine
begin

text \<open>
  What \<^verbatim>\<open>decrypt\<close> does with a message it can open: from the store, in the current receiving
  chain, and across a DH ratchet; and that a message it rejects before the commit leaves the
  state untouched. These lemmas are the interface the two-party theories build on.
\<close>

section \<open>Rejection\<close>

definition pre_commit_errors :: "RatchetError set" where
  "pre_commit_errors = {ADTooLarge, HeaderDecryptionFailed, DuplicateMessage, DecryptionFailed}"

lemma store_chain_gap_Err:
  assumes "ratchet_crypto c" "ratchet_inv st" "store_chain_gap c t st w = (Err e, st', w')"
  shows "e \<in> {InvalidHeader, OldMessageKeysLimitReached}"
  using store_chain_gap_cases [OF assms(1,2), of t w] assms(3) by auto

lemma bind_st_Err:
  assumes "bind_st r f = (Err e, s, w)"
  shows "r = (Err e, s, w) \<or> (\<exists>a s1 w1. r = (Ok a, s1, w1) \<and> f a s1 w1 = (Err e, s, w))"
  using assms by (rule bind_st_cases) auto

lemma advance_receiving_Err: "advance_receiving c st w = (Err e, st', w') \<Longrightarrow> e = CounterOverflow"
  by (auto simp: advance_receiving_def Let_def split: option.splits)

lemma perform_dh_ratchet_no_Err:
  assumes "ratchet_crypto c"
  shows "perform_dh_ratchet c pub st w \<noteq> (Err e, st', w')"
  by (rule perform_dh_ratchet_ok [OF assms, of st pub w]) simp

lemma commit_Err:
  assumes c: "ratchet_crypto c" and inv: "ratchet_inv st" and h: "valid_header h"
    and err: "commit_state_changes c h b st w = (Err e, st', w')"
  shows "e \<in> {InvalidHeader, OldMessageKeysLimitReached, CounterOverflow}"
proof -
  have pub: "is_array 32 (dh_pub h)" using h by (simp add: valid_header_def)
  let ?first = "bind_st (store_chain_gap c (hdr_pn h) st w) (\<lambda>_. perform_dh_ratchet c (dh_pub h))"
  have first: "e \<in> {InvalidHeader, OldMessageKeysLimitReached}" if "?first = (Err e, s, v)" for s v
    using bind_st_Err [OF that] store_chain_gap_Err [OF c inv] perform_dh_ratchet_no_Err [OF c]
    by blast
  have first_inv: "ratchet_inv s" if "?first = (Ok a, s, v)" for a s v
  proof -
    have "st_safe ratchet_inv (\<lambda>_ s. ck_r s \<noteq> None) ?first"
      by (rule st_safe_bind [OF store_chain_gap_safe [OF c inv]])
        (rule perform_dh_ratchet_safe [OF c _ pub])
    then show ?thesis using that by simp
  qed
  have second: "e \<in> {InvalidHeader, OldMessageKeysLimitReached, CounterOverflow}"
    if "ratchet_inv s" "bind_st (store_chain_gap c (hdr_n h) s v) (\<lambda>_. advance_receiving c) = (Err e, st', w')"
    for s v
    using bind_st_Err [OF that(2)] store_chain_gap_Err [OF c that(1)] advance_receiving_Err by blast
  show ?thesis
  proof (cases b)
    case True
    with err have "bind_st ?first (\<lambda>_ s v. bind_st (store_chain_gap c (hdr_n h) s v) (\<lambda>_. advance_receiving c)) = (Err e, st', w')"
      by (simp add: commit_state_changes_def)
    from bind_st_Err [OF this] show ?thesis using first first_inv second by blast
  next
    case False
    with err show ?thesis using second [OF inv] by (simp add: commit_state_changes_def)
  qed
qed

text \<open>
  The message got as far as the commit: its header opens, its message key can be computed and the
  body opens under that key. An error in a run that did not get that far, and each of the errors
  above, leaves the state and the environment as they were.
\<close>

definition reaches_commit :: "crypto \<Rightarrow> RatchetState \<Rightarrow> bytes \<Rightarrow> bytes \<Rightarrow> bytes \<Rightarrow> bool" where
  "reaches_commit c st eh ct ad \<longleftrightarrow>
     is_ok (and_then (decrypt_header c st eh) (\<lambda>(h, b).
       and_then (compute_message_key c st h b) (\<lambda>mk. decrypt_aead c mk ct (concat_ad ad eh))))"

lemma decrypt_rejected:
  assumes c: "ratchet_crypto c" and inv: "ratchet_inv st"
    and err: "decrypt c w st eh ct ad = (Err e, st', w')"
    and e: "e \<in> pre_commit_errors \<or> \<not> reaches_commit c st eh ct ad"
  shows "st' = st \<and> w' = w"
proof (cases "length ad > MAX_AD_SIZE")
  case True
  with err show ?thesis by (simp add: decrypt_def)
next
  case False
  let ?ad = "concat_ad ad eh"
  have "try_skipped_message_keys c w (mkskipped st) eh ct ?ad = Ok (mkskipped st, None)"
    using try_skipped_cases [OF ratchet_cryptoD(2) [OF c], of w "mkskipped st" eh ct ?ad] err False
    by (auto simp: decrypt_def Let_def)
  then have dec: "decrypt_with_ratchet c w st eh ct ?ad = (Err e, st', w')"
    using err False by (simp add: decrypt_def Let_def)
  show ?thesis
  proof (cases "decrypt_header c st eh")
    case (Ok hb)
    obtain h b where hb: "hb = (h, b)" by (cases hb)
    have h: "valid_header h" using decrypt_header_OkD(1) Ok hb by blast
    let ?id = "(dh_pub h, hdr_n h)"
    let ?opened = "and_then (compute_message_key c st h b) (\<lambda>mk. decrypt_aead c mk ct ?ad)"
    show ?thesis
    proof (cases "?id |\<in>| received_messages st \<or> \<not> is_ok ?opened")
      case True
      then show ?thesis
        using dec Ok hb
        by (cases ?opened)
          (simp_all add: decrypt_with_ratchet_def Let_def del: and_then_eq_Ok split: if_splits)
    next
      case not: False
      then obtain p where p: "?opened = Ok p" by (cases ?opened) auto
      have run: "bind_st (commit_state_changes c h b st w) (\<lambda>_. track_received ?id p) = (Err e, st', w')"
        using dec Ok hb p not by (simp add: decrypt_with_ratchet_def Let_def del: and_then_eq_Ok)
      have "track_received ?id p s v = (Err e, st', w') \<Longrightarrow> e = TooManyMessages" for s v
        by (simp add: track_received_def split: if_splits)
      with bind_st_Err [OF run] commit_Err [OF c inv h]
      have "e \<in> {InvalidHeader, OldMessageKeysLimitReached, CounterOverflow, TooManyMessages}"
        by blast
      moreover have "reaches_commit c st eh ct ad"
        using Ok hb p by (simp add: reaches_commit_def del: and_then_eq_Ok)
      ultimately show ?thesis using e by (auto simp: pre_commit_errors_def)
    qed
  qed (use dec in \<open>simp_all add: decrypt_with_ratchet_def\<close>)
qed

section \<open>Opening a message from the store\<close>

lemma decrypt_from_store:
  assumes c: "ratchet_crypto c" and ad: "length ad \<le> MAX_AD_SIZE"
    and "entry_opens c (mkskipped st) eh ct (concat_ad ad eh) k p"
    and unique: "\<And>k' p'. entry_opens c (mkskipped st) eh ct (concat_ad ad eh) k' p' \<Longrightarrow> k' = k"
  shows "decrypt c w st eh ct ad = (Ok p, st\<lparr>mkskipped := AList.delete k (mkskipped st)\<rparr>, w)"
proof -
  let ?opens = "entry_opens c (mkskipped st) eh ct (concat_ad ad eh)"
  obtain k' p' where "try_skipped_message_keys c w (mkskipped st) eh ct (concat_ad ad eh)
        = Ok (AList.delete k' (mkskipped st), Some p')" and "?opens k' p'"
    using try_skipped_cases [OF ratchet_cryptoD(2) [OF c], of w "mkskipped st" eh ct "concat_ad ad eh"]
      assms(3) by blast
  moreover have "k' = k" using unique \<open>?opens k' p'\<close> by blast
  moreover have "p' = p" using \<open>?opens k' p'\<close> assms(3) \<open>k' = k\<close>
    by (auto elim!: entry_opensE)
  ultimately show ?thesis using ad by (simp add: decrypt_def Let_def)
qed

section \<open>Opening a message from the receiving chain\<close>

lemma decrypt_opened:
  assumes c: "ratchet_crypto c" and ad: "length ad \<le> MAX_AD_SIZE"
    and store: "\<And>k p. \<not> entry_opens c (mkskipped st) eh ct (concat_ad ad eh) k p"
    and "decrypt_header c st eh = Ok (h, b)" and "(dh_pub h, hdr_n h) |\<notin>| received_messages st"
    and "compute_message_key c st h b = Ok mk" and "decrypt_aead c mk ct (concat_ad ad eh) = Ok p"
  shows "decrypt c w st eh ct ad =
    bind_st (commit_state_changes c h b st w) (\<lambda>_. track_received (dh_pub h, hdr_n h) p)"
  using assms try_skipped_miss [OF ratchet_cryptoD(2) [OF c] store]
  by (simp add: decrypt_def decrypt_with_ratchet_def Let_def)

lemma within_max_skip:
  assumes "unat n + 1000 < 2 ^ 32" and "unat m \<le> unat n + 1000"
  shows "\<not> n + MAX_SKIP < (m :: u32)"
proof -
  have "unat (n + MAX_SKIP) = unat n + 1000"
    using assms(1) unat_add_lem [of n MAX_SKIP] by (simp add: MAX_SKIP_def)
  then show ?thesis using assms(2) by (simp add: word_less_nat_alt)
qed

lemma compute_message_key_chain:
  assumes "ck_r st = Some ck" and "unat (nr st) + 1000 < 2 ^ 32"
    and "unat (hdr_n h) \<le> unat (nr st) + 1000"
  shows "compute_message_key c st h False = Ok (message_key c (unat (hdr_n h) - unat (nr st)) ck)"
  using assms within_max_skip [of "nr st" "hdr_n h"]
  by (simp add: compute_message_key_def advance_chain_eq message_key_def)

lemma compute_message_key_ratchet:
  assumes "kdf_rk_he c (rk st) (x25519_dh c (fst (dh_pair st)) (dh_pub h)) = Ok (a, ckr, b)"
    and "unat (hdr_n h) \<le> 1000"
  shows "compute_message_key c st h True = Ok (message_key c (unat (hdr_n h)) ckr)"
  using assms within_max_skip [of 0 "hdr_n h"]
  by (simp add: compute_message_key_def advance_chain_eq message_key_def)

text \<open>
  The chain advances by one message only, whatever the gap: \<open>nr\<close> counts the messages taken
  from the chain, and the keys from the old \<open>nr\<close> up to the received number are all stored.
\<close>

lemma decrypt_in_chain:
  assumes c: "ratchet_crypto c" and inv: "ratchet_inv st" and ad: "length ad \<le> MAX_AD_SIZE"
    and store: "\<And>k p. \<not> entry_opens c (mkskipped st) eh ct (concat_ad ad eh) k p"
    and hk: "hk_r st = Some hk" and h: "decrypt_header_with_key c hk eh = Ok h"
    and new: "(dh_pub h, hdr_n h) |\<notin>| received_messages st"
    and ck: "ck_r st = Some ck" and le: "nr st \<le> hdr_n h" "unat (hdr_n h) \<le> unat (nr st) + 1000"
    and wrap: "unat (nr st) + 1000 < 2 ^ 32"
    and room: "fcard (received_messages st) < MAX_RECEIVED_TRACKING"
    and p: "decrypt_aead c (message_key c (unat (hdr_n h) - unat (nr st)) ck) ct (concat_ad ad eh) = Ok p"
  obtains m t where
    "decrypt c w st eh ct ad =
       (Ok p, st\<lparr>mkskipped := m, ck_r := Some (chain_key c 1 ck), nr := nr st + 1,
                received_messages := finsert (dh_pub h, hdr_n h) (received_messages st)\<rparr>, w\<lparr>ticks := t\<rparr>)"
    "skip_loop c hk (hdr_n h) (nr st) ck (mkskipped st) w = (Ok m, w\<lparr>ticks := t\<rparr>)"
proof -
  have wf: "wf_skipped (mkskipped st)" "is_array 32 hk"
    using wf_stateD(8,11) [OF ratchet_invD(1) [OF inv]] hk by simp_all
  have "unat (hdr_n h) - unat (nr st) \<le> 1000" using le(2) by linarith
  then obtain m t where skip: "skip_message_keys c w (mkskipped st) ck hk (nr st) (hdr_n h) = (Ok m, w\<lparr>ticks := t\<rparr>)"
    using skip_message_keys_cases(3) [OF wf ratchet_cryptoD(1) [OF c] le(1)] by blast
  have incr: "checked_add (nr st) 1 = Some (nr st + 1)"
    using wrap by (simp add: checked_add_def)
  have "decrypt_header c st eh = Ok (h, False)" by (simp add: decrypt_header_def hk h)
  then have "decrypt c w st eh ct ad =
      bind_st (commit_state_changes c h False st w) (\<lambda>_. track_received (dh_pub h, hdr_n h) p)"
    by (intro decrypt_opened [OF c ad store _ new _ p] compute_message_key_chain [OF ck wrap le(2)])
  also have "\<dots> = (Ok p, st\<lparr>mkskipped := m, ck_r := Some (chain_key c 1 ck), nr := nr st + 1,
                received_messages := finsert (dh_pub h, hdr_n h) (received_messages st)\<rparr>, w\<lparr>ticks := t\<rparr>)"
    using room by (simp add: commit_state_changes_def store_chain_gap_def ck hk skip
        advance_receiving_def incr track_received_def chain_key_Suc)
  finally show ?thesis using that skip_message_keys_OkD(1) [OF skip] by blast
qed

text \<open>Across a DH ratchet: the rest of the old chain is stored, then the gap of the new one.\<close>

lemma decrypt_across_ratchet:
  assumes c: "ratchet_crypto c" and inv: "ratchet_inv st" and ad: "length ad \<le> MAX_AD_SIZE"
    and store: "\<And>k p. \<not> entry_opens c (mkskipped st) eh ct (concat_ad ad eh) k p"
    and old_hk: "\<And>hk. hk_r st = Some hk \<Longrightarrow> \<not> is_ok (decrypt_header_with_key c hk eh)"
    and h: "decrypt_header_with_key c (nhk_r st) eh = Ok h"
    and new: "(dh_pub h, hdr_n h) |\<notin>| received_messages st"
    and kdf: "kdf_rk_he c (rk st) (x25519_dh c (fst (dh_pair st)) (dh_pub h)) = Ok (rk1, ckr, nhkr)"
    and n: "unat (hdr_n h) \<le> 1000"
    and pn: "\<And>ck. ck_r st = Some ck \<Longrightarrow> nr st \<le> hdr_pn h \<and> unat (hdr_pn h) \<le> unat (nr st) + 1000"
    and p: "decrypt_aead c (message_key c (unat (hdr_n h)) ckr) ct (concat_ad ad eh) = Ok p"
  obtains m m' dh_s rk2 cks nhks t w' where
    "decrypt c w st eh ct ad =
       (Ok p, st\<lparr>pn := ns st, ns := 0, nr := 1, hk_s := Some (nhk_s st), hk_r := Some (nhk_r st),
                dh_remote := Some (dh_pub h), rk := rk2, ck_r := Some (chain_key c 1 ckr),
                nhk_r := nhkr, ck_s := Some cks, nhk_s := nhks,
                dh_pair := (dh_s, x25519_base c dh_s), mkskipped := m',
                received_messages := {|(dh_pub h, hdr_n h)|}\<rparr>, w')"
    "is_array 32 dh_s" "dh_s = fst (os_rng_fill 32 w)" "kdf_rk_he c rk1 (x25519_dh c dh_s (dh_pub h)) = Ok (rk2, cks, nhks)"
    "store_chain_gap c (hdr_pn h) st w = (Ok (), st\<lparr>mkskipped := m\<rparr>, w\<lparr>ticks := t\<rparr>)"
    "\<exists>w1 w2. skip_loop c (nhk_r st) (hdr_n h) 0 ckr m w1 = (Ok m', w2)"
proof -
  have len: "length (mkskipped st) \<le> MAX_SKIPPED_KEYS" and nhk: "is_array 32 (nhk_r st)"
    using ratchet_invD(2) [OF inv] wf_stateD(10) [OF ratchet_invD(1) [OF inv]] by simp_all
  have no_err: "\<not> (ck_r st \<noteq> None \<and>
      (e = InvalidHeader \<and> hdr_pn h < nr st \<or>
       e = OldMessageKeysLimitReached \<and> unat (nr st) + 1000 < unat (hdr_pn h)))" for e
    using pn by (auto simp: word_le_nat_alt word_less_nat_alt)
  then obtain m t where gap: "store_chain_gap c (hdr_pn h) st w = (Ok (), st\<lparr>mkskipped := m\<rparr>, w\<lparr>ticks := t\<rparr>)"
      and wf_m: "wf_skipped m"
    using store_chain_gap_cases [OF c inv, of "hdr_pn h" w] by blast
  obtain rk1' ckr' nhkr' dh_s w1 rk2 cks nhks where k1:
    "kdf_rk_he c (rk (st\<lparr>mkskipped := m\<rparr>)) (x25519_dh c (fst (dh_pair (st\<lparr>mkskipped := m\<rparr>))) (dh_pub h)) = Ok (rk1', ckr', nhkr')"
    and rng: "os_rng_fill 32 (w\<lparr>ticks := t\<rparr>) = (dh_s, w1)" "is_array 32 dh_s"
    and k2: "kdf_rk_he c rk1' (x25519_dh c dh_s (dh_pub h)) = Ok (rk2, cks, nhks)"
    and ratchet: "perform_dh_ratchet c (dh_pub h) (st\<lparr>mkskipped := m\<rparr>) (w\<lparr>ticks := t\<rparr>) =
       (Ok (), (st\<lparr>mkskipped := m\<rparr>)\<lparr>pn := ns (st\<lparr>mkskipped := m\<rparr>), ns := 0, nr := 0,
                 hk_s := Some (nhk_s (st\<lparr>mkskipped := m\<rparr>)), hk_r := Some (nhk_r (st\<lparr>mkskipped := m\<rparr>)),
                 dh_remote := Some (dh_pub h), rk := rk2, ck_r := Some ckr', nhk_r := nhkr',
                 ck_s := Some cks, nhk_s := nhks, dh_pair := (dh_s, x25519_base c dh_s),
                 received_messages := {||}\<rparr>, w1)"
    by (rule perform_dh_ratchet_ok [OF c, of "st\<lparr>mkskipped := m\<rparr>" "dh_pub h" "w\<lparr>ticks := t\<rparr>"]) blast
  have dh_s: "dh_s = fst (os_rng_fill 32 w)" using rng(1) by (auto simp: os_rng_fill_def)
  from k1 kdf have same: "rk1' = rk1" "ckr' = ckr" "nhkr' = nhkr" by simp_all
  obtain m' t' where skip: "skip_message_keys c w1 m ckr (nhk_r st) 0 (hdr_n h) = (Ok m', w1\<lparr>ticks := t'\<rparr>)"
    using skip_message_keys_cases(3) [OF wf_m nhk ratchet_cryptoD(1) [OF c], of 0 "hdr_n h" w1 ckr] n by auto
  have "decrypt_header c st eh = Ok (h, True)"
    using old_hk by (auto simp: decrypt_header_def h Let_def split: option.split result.split)
  then have "decrypt c w st eh ct ad =
      bind_st (commit_state_changes c h True st w) (\<lambda>_. track_received (dh_pub h, hdr_n h) p)"
    by (intro decrypt_opened [OF c ad store _ new _ p] compute_message_key_ratchet [OF kdf n])
  also have "\<dots> = (Ok p, st\<lparr>pn := ns st, ns := 0, nr := 1, hk_s := Some (nhk_s st), hk_r := Some (nhk_r st),
                dh_remote := Some (dh_pub h), rk := rk2, ck_r := Some (chain_key c 1 ckr),
                nhk_r := nhkr, ck_s := Some cks, nhk_s := nhks,
                dh_pair := (dh_s, x25519_base c dh_s), mkskipped := m',
                received_messages := {|(dh_pub h, hdr_n h)|}\<rparr>, w1\<lparr>ticks := t'\<rparr>)"
    using ratchet skip
    by (simp add: commit_state_changes_def gap same)
      (simp add: store_chain_gap_def advance_receiving_def checked_add_def track_received_def
        MAX_RECEIVED_TRACKING_def fcard_fempty chain_key_Suc)
  finally show ?thesis
    using that [OF _ rng(2) dh_s _ gap] k2 same skip_message_keys_OkD(1) [OF skip] by blast
qed

section \<open>Runs on the executable instance\<close>

definition demo_sealed :: "u8 \<Rightarrow> RatchetHeader \<Rightarrow> bytes" where
  "demo_sealed k h = header_nonce True 0 @ to_bytes h @ replicate 16 k"

definition demo_header :: "u32 \<Rightarrow> u32 \<Rightarrow> RatchetHeader" where
  "demo_header q n = \<lparr> dh_pub = replicate 32 3, hdr_pn = q, hdr_n = n \<rparr>"

definition demo_state :: "u32 \<Rightarrow> (bytes \<times> u32) fset \<Rightarrow> RatchetState" where
  "demo_state n r =
     \<lparr> dh_pair = (replicate 32 1, replicate 32 1), dh_remote = Some (replicate 32 3), rk = replicate 32 2,
       ck_s = None, ck_r = Some (replicate 32 10), hk_s = None, hk_r = Some (replicate 32 20),
       nhk_s = replicate 32 40, nhk_r = replicate 32 30, ns = 0, nr = n, pn = 0, mkskipped = [],
       header_nonce_counter = 0, is_sender = False, received_messages = r \<rparr>"

lemma demo_sealed_opens [run_simps]:
  "decrypt_header_with_key reference_crypto (replicate 32 j) (demo_sealed k (demo_header q n)) =
     (if j = k then Ok (demo_header q n) else Err HeaderDecryptionFailed)"
proof -
  have "length (to_bytes (demo_header q n)) = 40" "from_bytes (to_bytes (demo_header q n)) = Ok (demo_header q n)"
    by (simp_all add: header.enc_width header.dec_enc valid_header_def demo_header_def)
  then show ?thesis
    by (simp add: decrypt_header_with_key_def demo_sealed_def slice_def run_simps ref_unseal_def ref_tag_def)
qed

lemma demo_state_inv: "fcard r \<le> MAX_RECEIVED_TRACKING \<Longrightarrow> ratchet_inv (demo_state n r)"
  by (simp add: ratchet_inv_def wf_state_def demo_state_def)

lemma demo_state_simps [run_simps]:
  "mkskipped (demo_state n r) = []" "hk_r (demo_state n r) = Some (replicate 32 20)"
  "ck_r (demo_state n r) = Some (replicate 32 10)" "nr (demo_state n r) = n"
  "received_messages (demo_state n r) = r" "nhk_r (demo_state n r) = replicate 32 30"
  "hdr_n (demo_header q m) = m" "hdr_pn (demo_header q m) = q" "dh_pub (demo_header q m) = replicate 32 3"
  by (simp_all add: demo_state_def demo_header_def)

lemma no_entry_opens_Nil [simp]: "\<not> entry_opens c [] eh ct ad k p"
  by (simp add: entry_opens_def)

lemma reference_ratchet: "ratchet_crypto reference_crypto" "aead_ok reference_crypto"
  using reference_crypto_ok by (simp_all add: ratchet_crypto_def aead_ok_def crypto_ok_def)

section \<open>Properties\<close>

text \<open>C15: A message that is refused before the commit leaves the session, its stored keys and the
  environment exactly as they were. Those are the messages refused for their size, for an
  unreadable header, as a duplicate or because the body does not authenticate, and, whatever the
  error, every message whose header does not open, whose message key cannot be computed (the gap
  is over the limit, or there is no receiving chain) or whose body does not open under that
  key.\<close>

theorem rejected_changes_nothing:
  assumes "ratchet_crypto c" and "ratchet_inv st" and "decrypt c w st eh ct ad = (Err e, st', w')"
    and "e \<in> {ADTooLarge, HeaderDecryptionFailed, DuplicateMessage, DecryptionFailed} \<or>
      \<not> (\<exists>h b mk p. decrypt_header c st eh = Ok (h, b) \<and> compute_message_key c st h b = Ok mk \<and>
          decrypt_aead c mk ct (concat_ad ad eh) = Ok p)"
  shows "st' = st \<and> w' = w"
proof (rule decrypt_rejected [OF assms(1-3)])
  show "e \<in> pre_commit_errors \<or> \<not> reaches_commit c st eh ct ad"
    using assms(4) by (auto simp: pre_commit_errors_def reaches_commit_def is_ok_iff)
qed

text \<open>The witness: a message more than a thousand ahead is refused when its key is computed.\<close>

theorem rejected_changes_nothing_witness:
  "decrypt reference_crypto demo_world (demo_state 0 {||}) (demo_sealed 20 (demo_header 0 2000)) [7] [] =
     (Err OldMessageKeysLimitReached, demo_state 0 {||}, demo_world)"
proof -
  let ?eh = "demo_sealed 20 (demo_header 0 2000)"
  have same: "(demo_state 0 {||})\<lparr>mkskipped := []\<rparr> = demo_state 0 {||}" by (simp add: demo_state_def)
  have h: "decrypt_header reference_crypto (demo_state 0 {||}) ?eh = Ok (demo_header 0 2000, False)"
    by (simp add: decrypt_header_def run_simps)
  have key: "compute_message_key reference_crypto (demo_state 0 {||}) (demo_header 0 2000) False = Err OldMessageKeysLimitReached"
    by (simp add: compute_message_key_def run_simps MAX_SKIP_def)
  obtain st' w' where d: "decrypt reference_crypto demo_world (demo_state 0 {||}) ?eh [7] [] =
      (Err OldMessageKeysLimitReached, st', w')"
    using h key same by (simp add: decrypt_def MAX_AD_SIZE_def try_skipped_message_keys_def hm_iter_def run_simps
        decrypt_with_ratchet_def Let_def)
  have "st' = demo_state 0 {||} \<and> w' = demo_world"
    by (rule rejected_changes_nothing [OF reference_ratchet(1) demo_state_inv d])
      (use h key in \<open>auto simp: fcard_fempty\<close>)
  with d show ?thesis by simp
qed

text \<open>A message of the current receiving chain, ahead of the counter or next in line, decrypts:
  the store gains exactly the keys from the old counter up to the message, the message is
  remembered, and the chain and its counter advance by one step only, however large the gap.\<close>

lemma decrypt_chain_refines:
  assumes "ratchet_crypto c" and "ratchet_inv st" and "length ad \<le> MAX_AD_SIZE"
    and "\<And>k p. \<not> entry_opens c (mkskipped st) eh ct (concat_ad ad eh) k p"
    and "hk_r st = Some hk" and "decrypt_header_with_key c hk eh = Ok h"
    and "(dh_pub h, hdr_n h) |\<notin>| received_messages st"
    and "ck_r st = Some ck" and "nr st \<le> hdr_n h" "unat (hdr_n h) \<le> unat (nr st) + 1000"
    and "unat (nr st) + 1000 < 2 ^ 32" and "fcard (received_messages st) < MAX_RECEIVED_TRACKING"
    and "length (mkskipped st) + (unat (hdr_n h) - unat (nr st)) \<le> MAX_SKIPPED_KEYS"
    and "decrypt_aead c (message_key c (unat (hdr_n h) - unat (nr st)) ck) ct (concat_ad ad eh) = Ok p"
  shows "\<exists>m w'. decrypt c w st eh ct ad =
      (Ok p, st\<lparr>mkskipped := m, ck_r := Some (chain_key c 1 ck), nr := nr st + 1,
                received_messages := finsert (dh_pub h, hdr_n h) (received_messages st)\<rparr>, w') \<and>
    store_keys m = store_fill c hk ck (nr st) (hdr_n h) (store_keys (mkskipped st))"
proof -
  obtain m t where dec: "decrypt c w st eh ct ad =
      (Ok p, st\<lparr>mkskipped := m, ck_r := Some (chain_key c 1 ck), nr := nr st + 1,
                received_messages := finsert (dh_pub h, hdr_n h) (received_messages st)\<rparr>, w\<lparr>ticks := t\<rparr>)"
      and skip: "skip_loop c hk (hdr_n h) (nr st) ck (mkskipped st) w = (Ok m, w\<lparr>ticks := t\<rparr>)"
    by (rule decrypt_in_chain [OF assms(1-12) assms(14)])
  moreover have "distinct_keys (mkskipped st)"
    using wf_stateD(11) [OF ratchet_invD(1) [OF assms(2)]] by (rule wf_skippedD)
  ultimately show ?thesis using skip_loop_refines [OF skip assms(13)] by blast
qed

text \<open>After a message has been taken from the chain, the same message again is refused as a
  duplicate and changes nothing, as long as no stored key opens it.\<close>

lemma replay_refused:
  assumes "ratchet_crypto c" and "length ad \<le> MAX_AD_SIZE"
    and "hk_r st = Some hk" and "decrypt_header_with_key c hk eh = Ok h"
    and "(dh_pub h, hdr_n h) |\<in>| received_messages st"
    and "\<And>k p. \<not> entry_opens c (mkskipped st) eh ct (concat_ad ad eh) k p"
  shows "decrypt c w st eh ct ad = (Err DuplicateMessage, st, w)"
  using try_skipped_miss [OF ratchet_cryptoD(2) [OF assms(1)] assms(6), of w] assms(2-5)
  by (simp add: decrypt_def decrypt_with_ratchet_def decrypt_header_def Let_def)

text \<open>C26: A message across a DH ratchet whose header names a previous chain length behind the counter,
  or more than a thousand ahead of it, fails after its authentication has succeeded, and every
  stored message key is lost: the commit takes the store out of the state before it can fail.\<close>

theorem failed_commit_empties_store:
  assumes "ratchet_crypto c" and "ratchet_inv st" and "length ad \<le> MAX_AD_SIZE"
    and "\<And>k p. \<not> entry_opens c (mkskipped st) eh ct (concat_ad ad eh) k p"
    and "decrypt_header c st eh = Ok (h, True)" and "(dh_pub h, hdr_n h) |\<notin>| received_messages st"
    and "compute_message_key c st h True = Ok mk" and "decrypt_aead c mk ct (concat_ad ad eh) = Ok p"
    and "ck_r st \<noteq> None" and "hdr_pn h < nr st \<or> unat (nr st) + 1000 < unat (hdr_pn h)"
  shows "\<exists>e \<in> {InvalidHeader, OldMessageKeysLimitReached}.
           decrypt c w st eh ct ad = (Err e, st\<lparr>mkskipped := []\<rparr>, w)"
proof -
  obtain ck hk where ck: "ck_r st = Some ck" and hk: "hk_r st = Some hk"
    using assms(9) ratchet_invD(5) [OF assms(2)] by auto
  have wf: "is_array 32 hk" "wf_skipped (mkskipped st)"
    using wf_stateD(8,11) [OF ratchet_invD(1) [OF assms(2)]] hk by simp_all
  have "\<exists>e \<in> {InvalidHeader, OldMessageKeysLimitReached}.
      skip_message_keys c w (mkskipped st) ck hk (nr st) (hdr_pn h) = (Err e, w)"
  proof (cases "hdr_pn h < nr st")
    case True
    then show ?thesis by (simp add: skip_message_keys_def)
  next
    case False
    then have "unat (hdr_pn h) - unat (nr st) > 1000" using assms(10) by linarith
    with False wf ratchet_cryptoD(1) [OF assms(1)] show ?thesis
      by (simp add: skip_message_keys_cases(2))
  qed
  then obtain e where "e \<in> {InvalidHeader, OldMessageKeysLimitReached}"
      "skip_message_keys c w (mkskipped st) ck hk (nr st) (hdr_pn h) = (Err e, w)" by blast
  moreover have "decrypt c w st eh ct ad =
      bind_st (commit_state_changes c h True st w) (\<lambda>_. track_received (dh_pub h, hdr_n h) p)"
    by (rule decrypt_opened [OF assms(1,3,4,5,6,7,8)])
  ultimately show ?thesis
    using ck hk
    by (intro bexI [of _ e]) (simp_all add: commit_state_changes_def store_chain_gap_def)
qed

theorem failed_commit_empties_store_witness:
  "\<exists>ct. \<exists>e \<in> {InvalidHeader, OldMessageKeysLimitReached}.
     decrypt reference_crypto demo_world (demo_state 5 {||}) (demo_sealed 30 (demo_header 2 0)) ct [] =
       (Err e, (demo_state 5 {||})\<lparr>mkskipped := []\<rparr>, demo_world)"
proof -
  obtain mk where mk: "compute_message_key reference_crypto (demo_state 5 {||}) (demo_header 2 0) True = Ok mk"
    using compute_message_key_ratchet [of reference_crypto "demo_state 5 {||}" "demo_header 2 0"]
      kdf_rk_he_total [OF ratchet_cryptoD(2) [OF reference_ratchet(1)]] by (fastforce simp: run_simps)
  obtain ct where ct: "decrypt_aead reference_crypto mk ct
      (concat_ad [] (demo_sealed 30 (demo_header 2 0))) = Ok [42]"
    using encrypt_decrypt_aead [OF reference_ratchet(2)] by blast
  have "decrypt_header reference_crypto (demo_state 5 {||}) (demo_sealed 30 (demo_header 2 0)) = Ok (demo_header 2 0, True)"
    by (simp add: decrypt_header_def run_simps)
  then show ?thesis
    by (intro exI [of _ ct] failed_commit_empties_store [OF reference_ratchet(1) demo_state_inv _ _ _ _ mk ct])
      (simp_all add: run_simps MAX_AD_SIZE_def fcard_fempty)
qed

text \<open>C27: Once ten thousand messages of a chain have been received, the next one in line is
  authenticated, the chain and counter advance past it, and its plaintext is thrown away with an
  error.\<close>

theorem tracking_limit_drops_plaintext:
  assumes "ratchet_crypto c" and "length ad \<le> MAX_AD_SIZE"
    and "\<And>k p. \<not> entry_opens c (mkskipped st) eh ct (concat_ad ad eh) k p"
    and "hk_r st = Some hk" and "decrypt_header_with_key c hk eh = Ok h"
    and "(dh_pub h, hdr_n h) |\<notin>| received_messages st"
    and "ck_r st = Some ck" and "hdr_n h = nr st" and "unat (nr st) + 1000 < 2 ^ 32"
    and "fcard (received_messages st) = MAX_RECEIVED_TRACKING"
    and "decrypt_aead c (message_key c 0 ck) ct (concat_ad ad eh) = Ok p"
  shows "decrypt c w st eh ct ad =
    (Err TooManyMessages, st\<lparr>ck_r := Some (chain_key c 1 ck), nr := nr st + 1\<rparr>, w)"
proof -
  have incr: "checked_add (nr st) 1 = Some (nr st + 1)" using assms(9) by (simp add: checked_add_def)
  have key: "compute_message_key c st h False = Ok (message_key c 0 ck)"
    using compute_message_key_chain [OF assms(7,9), of h] assms(8) by simp
  have "decrypt_header c st eh = Ok (h, False)" by (simp add: decrypt_header_def assms(4,5))
  then have "decrypt c w st eh ct ad =
      bind_st (commit_state_changes c h False st w) (\<lambda>_. track_received (dh_pub h, hdr_n h) p)"
    by (rule decrypt_opened [OF assms(1,2,3) _ assms(6) key assms(11)])
  then show ?thesis
    using assms(4,7,8,10) incr
    by (simp add: commit_state_changes_def store_chain_gap_def skip_message_keys_same advance_receiving_def
        track_received_def chain_key_Suc)
qed

theorem tracking_limit_drops_plaintext_witness:
  "\<exists>r ct. decrypt reference_crypto demo_world (demo_state 5 r) (demo_sealed 20 (demo_header 0 5)) ct [] =
     (Err TooManyMessages, (demo_state 5 r)\<lparr>ck_r := Some (chain_key reference_crypto 1 (replicate 32 10)), nr := 6\<rparr>, demo_world)"
proof -
  define r :: "(bytes \<times> u32) fset" where "r = (\<lambda>i. (replicate i 1, 0)) |`| fset_of_list [0..<10000]"
  have "inj (\<lambda>i. (replicate i (1 :: u8), 0 :: u32))"
    by (rule injI) (metis fst_conv length_replicate)
  then have "fcard r = 10000"
    by (simp add: r_def fcard.rep_eq card_image inj_on_def inj_def fset_of_list.rep_eq)
  moreover have "(replicate 32 3, 5) |\<notin>| r" by (auto simp: r_def)
  moreover obtain ct where "decrypt_aead reference_crypto (message_key reference_crypto 0 (replicate 32 10)) ct
      (concat_ad [] (demo_sealed 20 (demo_header 0 5))) = Ok [42]"
    using encrypt_decrypt_aead [OF reference_ratchet(2)] by blast
  ultimately show ?thesis
    using tracking_limit_drops_plaintext [OF reference_ratchet(1), of "[]" "demo_state 5 r"
        "demo_sealed 20 (demo_header 0 5)" ct "replicate 32 20" "demo_header 0 5" "replicate 32 10" "[42]" demo_world]
    by (auto simp: run_simps MAX_AD_SIZE_def MAX_RECEIVED_TRACKING_def)
qed

text \<open>C28: The check of the skip limit adds a thousand to the counter with a plain 32-bit addition: once
  the counter is within a thousand of its maximum the sum wraps around, and a message that is
  next in line is refused as too old.\<close>

theorem skip_limit_wraps:
  assumes "hkdf_total c" and "length ad \<le> MAX_AD_SIZE"
    and "\<And>k p. \<not> entry_opens c (mkskipped st) eh ct (concat_ad ad eh) k p"
    and "hk_r st = Some hk" and "decrypt_header_with_key c hk eh = Ok h" and "hdr_n h = nr st"
    and "2 ^ 32 \<le> unat (nr st) + 1000" and "(dh_pub h, hdr_n h) |\<notin>| received_messages st"
  shows "decrypt c w st eh ct ad = (Err OldMessageKeysLimitReached, st, w)"
proof -
  have less: "unat (nr st) < 2 ^ 32" using unsigned_less [of "nr st"] by simp
  have "unat (nr st + MAX_SKIP) = (unat (nr st) + 1000) mod 2 ^ 32"
    by (simp add: unat_word_ariths MAX_SKIP_def)
  also have "\<dots> = unat (nr st) + 1000 - 2 ^ 32"
    using assms(7) less le_mod_geq [OF assms(7)] by (simp del: mod_if)
  finally have "nr st + MAX_SKIP < hdr_n h" using assms(6,7) less by (simp add: word_less_nat_alt)
  then show ?thesis
    using assms try_skipped_miss [OF assms(1,3), of w]
    by (simp add: decrypt_def decrypt_with_ratchet_def decrypt_header_def compute_message_key_def Let_def)
qed

theorem skip_limit_wraps_witness:
  "decrypt reference_crypto demo_world (demo_state 4294967000 {||}) (demo_sealed 20 (demo_header 0 4294967000)) [7] [] =
     (Err OldMessageKeysLimitReached, demo_state 4294967000 {||}, demo_world)"
  by (rule skip_limit_wraps [OF ratchet_cryptoD(2) [OF reference_ratchet(1)], of _ _ _ _ "replicate 32 20" "demo_header 0 4294967000"])
    (simp_all add: run_simps MAX_AD_SIZE_def)

end
