(* ===== verification/C_Interface.thy ===== *)
theory C_Interface
  imports Rust_Prelude
begin

text \<open>
  What the C bindings of \<^verbatim>\<open>src/ffi\<close> are written in: raw pointers, calls that may be undefined
  behaviour or abort the process, and the conversions of raw memory the bindings use. A call
  acts on a memory of type \<open>'m\<close>; every address is the start of a block, pointers into the
  middle of a block are not modelled. Freed addresses are not handed out again.
\<close>

section \<open>Pointers and calls\<close>

datatype ptr = Null | Addr nat

datatype ('a, 'm) c_result = Returned 'a 'm | Undefined | Aborted

type_synonym ('a, 'm) c_call = "'m \<Rightarrow> ('a, 'm) c_result"

definition c_ret :: "'a \<Rightarrow> ('a, 'm) c_call" where
  "c_ret a m = Returned a m"

definition c_undefined :: "('a, 'm) c_call" where
  "c_undefined m = Undefined"

definition c_bind :: "('a, 'm) c_call \<Rightarrow> ('a \<Rightarrow> ('b, 'm) c_call) \<Rightarrow> ('b, 'm) c_call" where
  "c_bind f g m = (case f m of Returned a m' \<Rightarrow> g a m' | Undefined \<Rightarrow> Undefined | Aborted \<Rightarrow> Aborted)"

text \<open>A panic cannot leave a C function: the process aborts.\<close>

definition c_result :: "('a, 'e) result \<Rightarrow> (('a, 'e) result \<Rightarrow> ('b, 'm) c_call) \<Rightarrow> ('b, 'm) c_call" where
  "c_result r k m = (case r of Panic \<Rightarrow> Aborted | _ \<Rightarrow> k r m)"

lemma c_call_simps [simp]:
  "c_ret a m = Returned a m"
  "c_undefined m = Undefined"
  by (simp_all add: c_ret_def c_undefined_def)

lemma c_bind_simps [simp]:
  "f m = Returned a m' \<Longrightarrow> c_bind f g m = g a m'"
  "f m = Undefined \<Longrightarrow> c_bind f g m = Undefined"
  "f m = Aborted \<Longrightarrow> c_bind f g m = Aborted"
  by (simp_all add: c_bind_def)

lemma c_result_simps [simp]:
  "c_result (Ok a) k m = k (Ok a) m"
  "c_result (Err e) k m = k (Err e) m"
  "c_result Panic k m = Aborted"
  by (simp_all add: c_result_def)

lemma c_bind_ReturnedE:
  assumes "c_bind f g m = Returned b m''"
  obtains a m' where "f m = Returned a m'" and "g a m' = Returned b m''"
  using assms by (cases "f m") (simp_all add: c_bind_def)

text \<open>The call returns, in a memory with \<open>I\<close>, and \<open>P\<close> holds of its result.\<close>

definition c_safe :: "('m \<Rightarrow> bool) \<Rightarrow> ('a \<Rightarrow> 'm \<Rightarrow> bool) \<Rightarrow> ('a, 'm) c_result \<Rightarrow> bool" where
  "c_safe I P r = (case r of Returned a m \<Rightarrow> I m \<and> P a m | _ \<Rightarrow> False)"

lemma c_safe_simps [simp]:
  "c_safe I P (Returned a m) \<longleftrightarrow> I m \<and> P a m"
  "\<not> c_safe I P Undefined"
  "\<not> c_safe I P Aborted"
  by (simp_all add: c_safe_def)

lemma c_safe_bind:
  assumes "c_safe I P (f m)" and "\<And>a m'. I m' \<Longrightarrow> P a m' \<Longrightarrow> c_safe I Q (g a m')"
  shows "c_safe I Q (c_bind f g m)"
  using assms by (cases "f m") simp_all

lemma c_safe_True: "c_safe I P r \<Longrightarrow> c_safe I (\<lambda>_ _. True) r"
  by (cases r) simp_all

lemma c_safeE:
  assumes "c_safe I P r"
  obtains a m where "r = Returned a m" and "I m" and "P a m"
  using assms by (cases r) simp_all

section \<open>Callers that keep to a contract\<close>

text \<open>
  A sequence of calls, and a caller whose every call is allowed in the memory it is made in.
  Where an allowed call returns and keeps an invariant of the memory, a whole sequence of them
  does.
\<close>

fun call_all :: "('op \<Rightarrow> (unit, 'm) c_call) \<Rightarrow> 'op list \<Rightarrow> (unit, 'm) c_call" where
  "call_all run [] m = Returned () m"
| "call_all run (op # ops) m = c_bind (run op) (\<lambda>_. call_all run ops) m"

fun all_allowed :: "('op \<Rightarrow> (unit, 'm) c_call) \<Rightarrow> ('m \<Rightarrow> 'op \<Rightarrow> bool) \<Rightarrow> 'op list \<Rightarrow> 'm \<Rightarrow> bool" where
  "all_allowed run allowed [] m = True"
| "all_allowed run allowed (op # ops) m =
     (allowed m op \<and> (case run op m of Returned _ m' \<Rightarrow> all_allowed run allowed ops m' | _ \<Rightarrow> True))"

locale careful_caller =
  fixes run :: "'op \<Rightarrow> (unit, 'm) c_call" and allowed :: "'m \<Rightarrow> 'op \<Rightarrow> bool" and good :: "'m \<Rightarrow> bool"
  assumes allowed_safe: "good m \<Longrightarrow> allowed m op \<Longrightarrow> c_safe good (\<lambda>_ _. True) (run op m)"
begin

lemma calls_safe: "good m \<Longrightarrow> all_allowed run allowed ops m \<Longrightarrow> c_safe good (\<lambda>_ _. True) (call_all run ops m)"
proof (induction ops arbitrary: m)
  case (Cons op ops)
  then obtain u m' where "run op m = Returned u m'" and "good m'"
    using allowed_safe [of m op] by (auto elim: c_safeE)
  with Cons show ?case by simp
qed simp

lemma calls_return:
  assumes "good m" and "all_allowed run allowed ops m"
  obtains m' where "call_all run ops m = Returned () m'" and "good m'"
  using calls_safe [OF assms] by (auto elim: c_safeE)

end

section \<open>Raw memory\<close>

text \<open>
  \<^verbatim>\<open>slice::from_raw_parts(p, len)\<close> must not be given a null pointer even for an empty slice,
  and its memory must hold \<^verbatim>\<open>len\<close> bytes; an empty slice may dangle. \<open>bytes_at\<close> says what
  can be read at an address.
\<close>

definition from_raw_parts :: "('m \<Rightarrow> nat \<Rightarrow> bytes option) \<Rightarrow> ptr \<Rightarrow> nat \<Rightarrow> (bytes, 'm) c_call" where
  "from_raw_parts bytes_at p len m =
     (case p of
        Null \<Rightarrow> Undefined
      | Addr a \<Rightarrow>
          if len = 0 then Returned [] m
          else (case bytes_at m a of
                  None \<Rightarrow> Undefined
                | Some b \<Rightarrow> if len \<le> length b then Returned (take len b) m else Undefined))"

text \<open>The idiom \<^verbatim>\<open>if p.is_null() || len == 0 { &[] } else { from_raw_parts(p, len) }\<close>.\<close>

definition optional_slice :: "('m \<Rightarrow> nat \<Rightarrow> bytes option) \<Rightarrow> ptr \<Rightarrow> nat \<Rightarrow> (bytes, 'm) c_call" where
  "optional_slice bytes_at p len =
     (if p = Null \<or> len = 0 then c_ret [] else from_raw_parts bytes_at p len)"

text \<open>A parameter \<^verbatim>\<open>&[u8; n]\<close>, dereferenced.\<close>

definition array_ref :: "('m \<Rightarrow> nat \<Rightarrow> bytes option) \<Rightarrow> nat \<Rightarrow> ptr \<Rightarrow> (bytes, 'm) c_call" where
  "array_ref bytes_at n p = from_raw_parts bytes_at p n"

text \<open>What the caller promises of a slice and of an array reference.\<close>

definition points_to :: "('m \<Rightarrow> nat \<Rightarrow> bytes option) \<Rightarrow> 'm \<Rightarrow> ptr \<Rightarrow> nat \<Rightarrow> bytes \<Rightarrow> bool" where
  "points_to bytes_at m p len b \<longleftrightarrow>
     (\<exists>a block. p = Addr a \<and> bytes_at m a = Some block \<and> len \<le> length block \<and> b = take len block)"

definition slice_arg :: "('m \<Rightarrow> nat \<Rightarrow> bytes option) \<Rightarrow> 'm \<Rightarrow> ptr \<Rightarrow> nat \<Rightarrow> bool" where
  "slice_arg bytes_at m p len \<longleftrightarrow> p = Null \<or> len = 0 \<or> (\<exists>b. points_to bytes_at m p len b)"

lemma points_to_length: "points_to bytes_at m p len b \<Longrightarrow> length b = len"
  by (auto simp: points_to_def)

lemma from_raw_parts_valid [simp]:
  "points_to bytes_at m p len b \<Longrightarrow> from_raw_parts bytes_at p len m = Returned b m"
  by (auto simp: points_to_def from_raw_parts_def)

lemma array_ref_valid [simp]:
  "points_to bytes_at m p n b \<Longrightarrow> array_ref bytes_at n p m = Returned b m"
  by (simp add: array_ref_def)

lemma optional_slice_valid:
  assumes "slice_arg bytes_at m p len"
  obtains b where "optional_slice bytes_at p len m = Returned b m"
proof (cases "p = Null \<or> len = 0")
  case False
  then obtain b where "points_to bytes_at m p len b" using assms by (auto simp: slice_arg_def)
  with False show thesis by (intro that [of b]) (simp add: optional_slice_def)
qed (use that [of "[]"] in \<open>simp add: optional_slice_def\<close>)

lemma optional_slice_points:
  "points_to bytes_at m p len b \<Longrightarrow> optional_slice bytes_at p len m = Returned b m"
  by (cases "len = 0") (auto simp: optional_slice_def points_to_def from_raw_parts_def)

section \<open>Text\<close>

text \<open>
  \<^verbatim>\<open>CStr::from_ptr\<close> reads up to the first zero byte, \<^verbatim>\<open>CString::new\<close> refuses a string that
  contains one, and \<^verbatim>\<open>CStr::to_str\<close> checks the bytes to be UTF-8 (RFC 3629, table 3-7 of the
  Unicode standard).
\<close>

definition c_string_of :: "bytes \<Rightarrow> bytes option" where
  "c_string_of s = (if 0 \<in> set s then None else Some (s @ [0]))"

definition read_c_string :: "('m \<Rightarrow> nat \<Rightarrow> bytes option) \<Rightarrow> nat \<Rightarrow> (bytes, 'm) c_call" where
  "read_c_string bytes_at a m =
     (case bytes_at m a of
        None \<Rightarrow> Undefined
      | Some b \<Rightarrow> if 0 \<in> set b then Returned (takeWhile (\<lambda>x. x \<noteq> 0) b) m else Undefined)"

definition cont :: "u8 \<Rightarrow> bool" where
  "cont x \<longleftrightarrow> 0x80 \<le> x \<and> x \<le> 0xBF"

fun is_utf8 :: "bytes \<Rightarrow> bool" where
  "is_utf8 [] = True"
| "is_utf8 (a # s) =
     (if a \<le> 0x7F then is_utf8 s
      else case s of
        [] \<Rightarrow> False
      | b # s2 \<Rightarrow>
          if 0xC2 \<le> a \<and> a \<le> 0xDF then cont b \<and> is_utf8 s2
          else (case s2 of
                  [] \<Rightarrow> False
                | c # s3 \<Rightarrow>
                    if 0xE0 \<le> a \<and> a \<le> 0xEF
                    then cont b \<and> (a = 0xE0 \<longrightarrow> 0xA0 \<le> b) \<and> (a = 0xED \<longrightarrow> b \<le> 0x9F) \<and> cont c \<and> is_utf8 s3
                    else (case s3 of
                            [] \<Rightarrow> False
                          | d # s4 \<Rightarrow>
                              0xF0 \<le> a \<and> a \<le> 0xF4 \<and> cont b \<and> (a = 0xF0 \<longrightarrow> 0x90 \<le> b) \<and>
                              (a = 0xF4 \<longrightarrow> b \<le> 0x8F) \<and> cont c \<and> cont d \<and> is_utf8 s4)))"

lemma takeWhile_c_string: "0 \<notin> set s \<Longrightarrow> takeWhile (\<lambda>x. x \<noteq> 0) (s @ [0]) = (s :: bytes)"
  by (induction s) auto

declare is_utf8.simps [simp del]

end
