(* ===== verification/Session_Json.thy ===== *)
theory Session_Json
  imports Ratchet_Invariant C_Interface
begin

text \<open>
  A session as JSON text, the way both bindings store it: the derived (de)serialisation of
  \<^verbatim>\<open>RatchetState\<close> with the skipped keys as a sequence, in the iteration order of the hash map.
  A session read back has the same fields, and a store with the same entries in another order.
\<close>

section \<open>Writing and reading\<close>

text \<open>
  The derived (de)serialisation and \<^verbatim>\<open>serde_json\<close> are a parameter: how the fields of a
  session, with the skipped keys as a sequence, are written as text, and what a text is read
  as, the elements of the sequence one by one.
\<close>

type_synonym entry = "(bytes \<times> u32) \<times> SkippedKey"

record json_codec =
  json_write :: "RatchetState \<Rightarrow> entry list \<Rightarrow> bytes option"
  json_read :: "bytes \<Rightarrow> (RatchetState \<times> (entry, unit) result list) option"

text \<open>What is written reads back; the text is UTF-8 without zero bytes (JSON escapes them).\<close>

definition json_faithful :: "json_codec \<Rightarrow> bool" where
  "json_faithful j \<longleftrightarrow>
     (\<forall>st es s. json_write j st es = Some s \<longrightarrow>
        json_read j s = Some (st, map Ok es) \<and> 0 \<notin> set s \<and> is_utf8 s)"

definition state_to_json :: "json_codec \<Rightarrow> World \<Rightarrow> RatchetState \<Rightarrow> bytes option" where
  "state_to_json j w st = json_write j (st\<lparr>mkskipped := []\<rparr>) (serialize_skipped_map w (mkskipped st))"

definition state_from_json :: "json_codec \<Rightarrow> bytes \<Rightarrow> RatchetState option" where
  "state_from_json j s =
     (case json_read j s of
        None \<Rightarrow> None
      | Some (st, elems) \<Rightarrow>
          (case deserialize_skipped_map elems of Ok m \<Rightarrow> Some (st\<lparr>mkskipped := m\<rparr>) | _ \<Rightarrow> None))"

section \<open>Sessions that differ in the order of their store only\<close>

definition same_session :: "RatchetState \<Rightarrow> RatchetState \<Rightarrow> bool" where
  "same_session st st' \<longleftrightarrow>
     (\<exists>m. st' = st\<lparr>mkskipped := m\<rparr> \<and> map_of m = map_of (mkskipped st) \<and>
          wf_skipped m \<and> length m = length (mkskipped st))"

lemma same_sessionE:
  assumes "same_session st st'"
  obtains m where "st' = st\<lparr>mkskipped := m\<rparr>" "map_of m = map_of (mkskipped st)" "wf_skipped m"
    "length m = length (mkskipped st)"
  using assms by (auto simp: same_session_def)

lemma same_session_inv: "same_session st st' \<Longrightarrow> ratchet_inv st \<Longrightarrow> ratchet_inv st'"
  by (elim same_sessionE) (simp add: ratchet_inv_skipped ratchet_invD(2))

text \<open>More generally, a session whose store lost entries.\<close>

definition fewer_skipped :: "RatchetState \<Rightarrow> RatchetState \<Rightarrow> bool" where
  "fewer_skipped st st' \<longleftrightarrow>
     (\<exists>m. st' = st\<lparr>mkskipped := m\<rparr> \<and> (\<forall>k. map_of m k \<noteq> None \<longrightarrow> map_of (mkskipped st) k \<noteq> None) \<and>
          wf_skipped m \<and> length m \<le> length (mkskipped st))"

lemma same_fewer: "same_session st st' \<Longrightarrow> fewer_skipped st st'"
  by (auto simp: same_session_def fewer_skipped_def)

lemma fewer_skipped_refl: "ratchet_inv st \<Longrightarrow> fewer_skipped st st"
  unfolding fewer_skipped_def using wf_stateD(11) [OF ratchet_invD(1)]
  by (intro exI [of _ "mkskipped st"]) simp

lemma fewer_skipped_inv: "fewer_skipped st st' \<Longrightarrow> ratchet_inv st \<Longrightarrow> ratchet_inv st'"
  using ratchet_invD(2) by (fastforce simp: fewer_skipped_def intro: ratchet_inv_skipped)

text \<open>A message opened by the store only takes its key out of it.\<close>

lemma opened_by_store:
  assumes c: "ratchet_crypto c" and inv: "ratchet_inv st"
    and hit: "try_skipped_message_keys c w (mkskipped st) eh ct (concat_ad ad eh) = Ok (m, Some p)"
    and ad: "length ad \<le> MAX_AD_SIZE"
  shows "decrypt c w st eh ct ad = (Ok p, st\<lparr>mkskipped := m\<rparr>, w)" and "fewer_skipped st (st\<lparr>mkskipped := m\<rparr>)"
proof -
  show "decrypt c w st eh ct ad = (Ok p, st\<lparr>mkskipped := m\<rparr>, w)"
    using hit ad by (simp add: decrypt_def Let_def)
  obtain k where m: "m = AList.delete k (mkskipped st)"
    using try_skipped_cases [OF ratchet_cryptoD(2) [OF c], of w "mkskipped st" eh ct "concat_ad ad eh"] hit by auto
  have "wf_skipped m" unfolding m
    by (rule wf_skipped_delete [OF wf_stateD(11) [OF ratchet_invD(1) [OF inv]]])
  then show "fewer_skipped st (st\<lparr>mkskipped := m\<rparr>)"
    by (auto simp: fewer_skipped_def m delete_conv' length_delete_le split: if_splits)
qed

text \<open>The law of the codec, carried over to whole sessions.\<close>

lemma reread_session:
  assumes "json_faithful j" and "ratchet_inv st" and "state_to_json j w st = Some s"
  obtains st' where "state_from_json j s = Some st'" "same_session st st'" "0 \<notin> set s" "is_utf8 s"
proof -
  have read: "json_read j s = Some (st\<lparr>mkskipped := []\<rparr>, map Ok (serialize_skipped_map w (mkskipped st)))"
      "0 \<notin> set s" "is_utf8 s"
    using assms(1,3) by (auto simp: state_to_json_def json_faithful_def)
  obtain m :: SkippedKeyMap where m:
      "deserialize_skipped_map (map Ok (serialize_skipped_map w (mkskipped st))) = (Ok m :: (SkippedKeyMap, unit) result)"
      "map_of m = map_of (mkskipped st)" "wf_skipped m" "length m = length (mkskipped st)"
    using reread_skipped [OF wf_stateD(11) [OF ratchet_invD(1) [OF assms(2)]]] by metis
  have "state_from_json j s = Some (st\<lparr>mkskipped := m\<rparr>)" by (simp add: state_from_json_def read m(1))
  moreover have "same_session st (st\<lparr>mkskipped := m\<rparr>)" using m(2-4) by (auto simp: same_session_def)
  ultimately show thesis using read(2,3) that by blast
qed

lemma reread_same:
  assumes "json_faithful j" and "ratchet_inv st" and "state_to_json j w st = Some s"
    and "state_from_json j s = Some st'"
  shows "same_session st st'"
  using reread_session [OF assms(1-3)] assms(4) by (metis option.inject)

end
