(* ===== verification/Conversation.thy ===== *)
theory Conversation
  imports Delivery Session_Json
begin

text \<open>
  Two parties in one session. \<open>conversation\<close> is the set of pairs of states they can reach by
  encrypting, losing messages, delivering them as soon as they are sent, in either direction
  and in any interleaving, by accepting late messages from the store of skipped keys, by refusing
  whatever else arrives, and by being stored as JSON text and read back. The invariant \<open>lead\<close> says
  how the keys of the party that ratcheted last relate to those of the other.
\<close>

section \<open>What an encryption hands to the peer\<close>

definition next_header :: "RatchetState \<Rightarrow> RatchetHeader" where
  "next_header st = \<lparr> dh_pub = snd (dh_pair st), hdr_pn = pn st, hdr_n = ns st \<rparr>"

lemma next_header_simps [simp]:
  "dh_pub (next_header st) = snd (dh_pair st)" "hdr_pn (next_header st) = pn st" "hdr_n (next_header st) = ns st"
  by (simp_all add: next_header_def)

lemma encrypt_opens:
  assumes ok: "crypto_ok c" and inv: "ratchet_inv st" and enc: "encrypt c st p ad = (Ok (eh, ct), st')"
  obtains ck hk ctr where "ck_s st = Some ck" "hk_s st = Some hk" "length ad \<le> MAX_AD_SIZE"
    "unat (ns st + 1) = unat (ns st) + 1"
    "decrypt_header_with_key c hk eh = Ok (next_header st)"
    "decrypt_aead c (message_key c 0 ck) ct (concat_ad ad eh) = Ok p"
    "st' = st\<lparr>ck_s := Some (chain_key c 1 ck), ns := ns st + 1, header_nonce_counter := ctr\<rparr>"
  using enc
proof (rule encrypt_OkD)
  fix ck hk ctr n'
  assume ck: "ck_s st = Some ck" and hk: "hk_s st = Some hk" and ad: "length ad \<le> MAX_AD_SIZE"
    and n': "checked_add (ns st) 1 = Some n'"
    and seal: "seal_header c hk (header_nonce (is_sender st) (header_nonce_counter st))
       \<lparr> dh_pub = snd (dh_pair st), hdr_pn = pn st, hdr_n = ns st \<rparr> = Ok eh"
    and aead: "encrypt_aead c (message_key c 0 ck) p (concat_ad ad eh) = Ok ct"
    and st': "st' = st\<lparr>ck_s := Some (chain_key c 1 ck), ns := n', header_nonce_counter := ctr\<rparr>"
  have arr: "is_array 32 hk" "is_array 32 ck" "valid_header (next_header st)"
    using wf_stateD(2,5,7) [OF ratchet_invD(1) [OF inv]] ck hk by (simp_all add: valid_header_def)
  have mk: "is_array 32 (message_key c 0 ck)"
    by (rule message_key_sized [OF crypto_okD(1) [OF ok]])
  have aead_ok: "aead_ok c" using ok by (simp add: aead_ok_def crypto_ok_def)
  have "decrypt_header_with_key c hk eh = Ok (next_header st)"
    by (rule hdr.unseal_seal [OF crypto_okD(6) [OF ok] arr(1) length_header_nonce arr(3)
          seal [folded next_header_def]])
  moreover have "decrypt_aead c (message_key c 0 ck) ct (concat_ad ad eh) = Ok p"
    using msg.unseal_seal [OF aead_ok mk _ _ aead] by simp
  moreover have "n' = ns st + 1" "unat (ns st + 1) = unat (ns st) + 1"
    using checked_add_Some [OF n'] by simp_all
  ultimately show thesis using that ck hk ad st' by blast
qed

section \<open>The relation between the two states\<close>

text \<open>
  \<open>follows c s r\<close>: \<open>r\<close> receives on the chain \<open>s\<close> sends on, possibly behind it; or neither has
  that chain yet.
\<close>

definition follows :: "crypto \<Rightarrow> RatchetState \<Rightarrow> RatchetState \<Rightarrow> bool" where
  "follows c s r \<longleftrightarrow>
     (ck_s s = None \<and> ck_r r = None) \<or>
     (\<exists>hk ck. hk_s s = Some hk \<and> hk_r r = Some hk \<and> ck_r r = Some ck \<and> nr r \<le> ns s \<and>
        ck_s s = Some (chain_key c (unat (ns s) - unat (nr r)) ck) \<and>
        dh_remote r = Some (snd (dh_pair s)) \<and>
        (\<forall>k n. (k, n) |\<in>| received_messages r \<longrightarrow> n < ns s) \<and>
        (\<forall>n. map_of (mkskipped r) (hk, n) \<noteq> None \<longrightarrow> n < ns s))"

definition received_from_remote :: "RatchetState \<Rightarrow> bool" where
  "received_from_remote r \<longleftrightarrow> (\<forall>k n. (k, n) |\<in>| received_messages r \<longrightarrow> dh_remote r = Some k)"

definition own_key_pair :: "crypto \<Rightarrow> RatchetState \<Rightarrow> bool" where
  "own_key_pair c s \<longleftrightarrow> snd (dh_pair s) = x25519_base c (fst (dh_pair s))"

definition lead :: "crypto \<Rightarrow> RatchetState \<Rightarrow> RatchetState \<Rightarrow> bool" where
  "lead c x y \<longleftrightarrow>
     ratchet_inv x \<and> ratchet_inv y \<and> own_key_pair c x \<and> own_key_pair c y \<and>
     received_from_remote x \<and> received_from_remote y \<and>
     hk_s x = Some (nhk_r y) \<and> dh_remote x = Some (snd (dh_pair y)) \<and> nhk_s y = nhk_r x \<and>
     (\<exists>ck0. kdf_rk_he c (rk y) (x25519_dh c (fst (dh_pair y)) (snd (dh_pair x))) = Ok (rk x, ck0, nhk_s x) \<and>
        ck_s x = Some (chain_key c (unat (ns x)) ck0)) \<and>
     follows c y x \<and>
     (ck_r y = None \<or> nr y \<le> pn x)"

definition linked :: "crypto \<Rightarrow> RatchetState \<Rightarrow> RatchetState \<Rightarrow> bool" where
  "linked c a b \<longleftrightarrow> lead c a b \<or> lead c b a"

lemma leadD:
  assumes "lead c x y"
  shows "ratchet_inv x" "ratchet_inv y" "own_key_pair c x" "own_key_pair c y"
    "received_from_remote x" "received_from_remote y"
    "hk_s x = Some (nhk_r y)" "dh_remote x = Some (snd (dh_pair y))" "nhk_s y = nhk_r x"
    "follows c y x" "ck_r y = None \<or> nr y \<le> pn x"
  using assms by (simp_all add: lead_def)

lemma linked_sym: "linked c a b \<Longrightarrow> linked c b a"
  by (auto simp: linked_def)

lemma linked_inv: "linked c a b \<Longrightarrow> ratchet_inv a \<and> ratchet_inv b"
  by (auto simp: linked_def lead_def)

section \<open>Setting up the session\<close>

lemma init_lead:
  assumes ok: "crypto_ok c" and sk: "is_array 32 sk" and priv: "is_array 32 priv"
    and a: "init_sender_state c w sk (x25519_base c priv) = (Ok a, w')"
    and b: "init_receiver_state c sk (priv, x25519_base c priv) = Ok b"
  shows "lead c a b"
proof -
  have rc: "ratchet_crypto c" using ok by (rule ratchet_crypto_ok)
  have pub: "is_array 32 (x25519_base c priv)"
    using x25519_sizedD(1) [OF crypto_okD(4) [OF ok] priv] .
  have invs: "ratchet_inv a" "ratchet_inv b"
    using init_sender_ok [OF rc sk pub, of w] init_receiver_ok [OF rc sk priv pub] a b by simp_all
  obtain d w1 where d: "os_rng_fill 32 w = (d, w1)" and len: "is_array 32 d"
    by (metis length_os_rng_fill prod.collapse)
  have dh: "x25519_dh c d (x25519_base c priv) = x25519_dh c priv (x25519_base c d)"
    by (rule dh_commutesD [OF crypto_okD(5) [OF ok] len priv])
  obtain root cks nhks where k: "kdf_rk_he c sk (x25519_dh c priv (x25519_base c d)) = Ok (root, cks, nhks)"
    using kdf_rk_he_total [OF crypto_okD(2) [OF ok]] by blast
  obtain i r where hk: "derive_header_keys c sk = Ok (i, r)"
    using derive_header_keys_total [OF crypto_okD(2) [OF ok]] by blast
  show ?thesis
    using a b invs k
    by (auto simp: init_sender_state_def init_receiver_state_def d dh hk lead_def follows_def
        own_key_pair_def received_from_remote_def)
qed

section \<open>Sending\<close>

lemma chain_key_next: "chain_key c (Suc 0) (chain_key c n ck) = chain_key c (Suc n) ck"
  by (simp add: chain_key_add)

lemma follows_send:
  assumes "follows c s r" and "ck_s s = Some ck" and "unat (ns s + 1) = unat (ns s) + 1"
    and "s' = s\<lparr>ck_s := Some (chain_key c 1 ck), ns := ns s + 1, header_nonce_counter := ctr\<rparr>"
  shows "follows c s' r"
proof -
  obtain hk ck0 where f: "hk_s s = Some hk" "hk_r r = Some hk" "ck_r r = Some ck0" "nr r \<le> ns s"
      "ck_s s = Some (chain_key c (unat (ns s) - unat (nr r)) ck0)"
      "dh_remote r = Some (snd (dh_pair s))"
      "\<forall>k n. (k, n) |\<in>| received_messages r \<longrightarrow> n < ns s"
      "\<forall>n. map_of (mkskipped r) (hk, n) \<noteq> None \<longrightarrow> n < ns s"
    using assms(1,2) by (auto simp: follows_def)
  have up: "n < ns s + 1" if "n \<le> ns s" for n
    using that assms(3) by (simp add: word_less_nat_alt word_le_nat_alt)
  have "nr r \<le> ns s + 1" using up [OF f(4)] by simp
  moreover have "unat (ns s + 1) - unat (nr r) = Suc (unat (ns s) - unat (nr r))"
    using f(4) assms(3) by (simp add: word_le_nat_alt)
  moreover have "\<forall>k n. (k, n) |\<in>| received_messages r \<longrightarrow> n < ns s + 1"
    using f(7) up less_imp_le by blast
  moreover have "\<forall>n. map_of (mkskipped r) (hk, n) \<noteq> None \<longrightarrow> n < ns s + 1"
    using f(8) up less_imp_le by blast
  ultimately show ?thesis
    using f assms(2) unfolding follows_def assms(4) by (auto simp: chain_key_next)
qed

lemma linked_send:
  assumes ok: "crypto_ok c" and link: "linked c a b" and enc: "encrypt c a p ad = (Ok (eh, ct), a')"
  shows "linked c a' b"
proof -
  have inv: "ratchet_inv a" "ratchet_inv b" using linked_inv [OF link] by simp_all
  have inv': "ratchet_inv a'" by (rule encrypt_inv(1) [OF ratchet_crypto_ok [OF ok] inv(1) enc])
  obtain ck hk ctr where ck: "ck_s a = Some ck" and n: "unat (ns a + 1) = unat (ns a) + 1"
      and a': "a' = a\<lparr>ck_s := Some (chain_key c 1 ck), ns := ns a + 1, header_nonce_counter := ctr\<rparr>"
    by (rule encrypt_opens [OF ok inv(1) enc]) blast
  from link show ?thesis unfolding linked_def
  proof
    assume l: "lead c a b"
    obtain ck0 where ck0: "kdf_rk_he c (rk b) (x25519_dh c (fst (dh_pair b)) (snd (dh_pair a))) = Ok (rk a, ck0, nhk_s a)"
        "ck_s a = Some (chain_key c (unat (ns a)) ck0)"
      using l by (auto simp: lead_def)
    then have "chain_key c 1 ck = chain_key c (unat (ns a + 1)) ck0" using ck n by (simp add: chain_key_next)
    moreover have "follows c b a'" using leadD(10) [OF l] by (simp add: follows_def a')
    ultimately have "lead c a' b"
      using l ck0 inv' by (auto simp: lead_def own_key_pair_def received_from_remote_def a')
    then show "lead c a' b \<or> lead c b a'" ..
  next
    assume l: "lead c b a"
    then have "follows c a' b" using follows_send [OF leadD(10) [OF l] ck n a'] by blast
    then have "lead c b a'"
      using l inv' by (auto simp: lead_def own_key_pair_def received_from_remote_def a')
    then show "lead c a' b \<or> lead c b a'" ..
  qed
qed

section \<open>Delivering\<close>

text \<open>
  The guard of a delivery: the header does not open under a key the receiver holds for other
  chains, the next header key is new to the receiver, its number is not among the received ones,
  and the gaps stay within the limits of the code.
\<close>

definition held_keys :: "RatchetState \<Rightarrow> bytes list" where
  "held_keys b = map (\<lambda>((hk, _), _). hk) (mkskipped b) @ (case hk_r b of None \<Rightarrow> [] | Some hk \<Rightarrow> [hk])"

definition within_limits :: "RatchetState \<Rightarrow> RatchetState \<Rightarrow> bool" where
  "within_limits a b \<longleftrightarrow>
     (if hk_s a = hk_r b
      then unat (nr b) + 1000 < 2 ^ 32 \<and> unat (ns a) \<le> unat (nr b) + 1000 \<and>
           fcard (received_messages b) < MAX_RECEIVED_TRACKING
      else (snd (dh_pair a), ns a) |\<notin>| received_messages b \<and> unat (ns a) \<le> 1000 \<and>
           (ck_r b \<noteq> None \<longrightarrow> unat (pn a) \<le> unat (nr b) + 1000))"

definition deliverable :: "crypto \<Rightarrow> RatchetState \<Rightarrow> RatchetState \<Rightarrow> bytes \<Rightarrow> bool" where
  "deliverable c a b eh \<longleftrightarrow>
     (\<forall>hk \<in> set (held_keys b). hk_s a \<noteq> Some hk \<longrightarrow> \<not> is_ok (decrypt_header_with_key c hk eh)) \<and>
     nhk_r b \<notin> set (held_keys b) \<and> within_limits a b"

lemma held_keysI:
  "map_of (mkskipped b) (hk, n) = Some s \<Longrightarrow> hk \<in> set (held_keys b)"
  "hk_r b = Some hk \<Longrightarrow> hk \<in> set (held_keys b)"
  by (auto simp: held_keys_def dest!: map_of_SomeD intro: rev_image_eqI)

lemma no_entry_opens:
  assumes "deliverable c a b eh" and "hk_s a = Some hk"
    and "decrypt_header_with_key c hk eh = Ok h" and "map_of (mkskipped b) (hk, hdr_n h) = None"
  shows "\<not> entry_opens c (mkskipped b) eh ct ad k p"
proof
  assume "entry_opens c (mkskipped b) eh ct ad k p"
  then obtain s h' where s: "map_of (mkskipped b) k = Some s"
      and h': "decrypt_header_with_key c (fst k) eh = Ok h'" "hdr_n h' = snd k"
    by (rule entry_opensE)
  have "fst k \<in> set (held_keys b)" using held_keysI(1) [of b "fst k" "snd k"] s by simp
  then have "fst k = hk" using assms(1,2) h'(1) by (force simp: deliverable_def)
  with assms(3,4) s h' show False by (metis option.distinct(1) prod.collapse result.inject(1))
qed

text \<open>The next message on a chain the receiver is already on: what decrypting it needs.\<close>

lemma next_in_chain:
  assumes ok: "crypto_ok c" and l: "lead c b a" and enc: "encrypt c a p ad = (Ok (eh, ct), a')"
    and guard: "deliverable c a b eh"
  obtains hk ck ctr where "hk_s a = Some hk" "hk_r b = Some hk" "ck_r b = Some ck"
    "ck_s a = Some (chain_key c (unat (ns a) - unat (nr b)) ck)"
    "decrypt_header_with_key c hk eh = Ok (next_header a)"
    "\<forall>ct k q. \<not> entry_opens c (mkskipped b) eh ct (concat_ad ad eh) k q"
    "(dh_pub (next_header a), hdr_n (next_header a)) |\<notin>| received_messages b"
    "nr b \<le> hdr_n (next_header a)" "unat (hdr_n (next_header a)) \<le> unat (nr b) + 1000" "unat (nr b) + 1000 < 2 ^ 32"
    "fcard (received_messages b) < MAX_RECEIVED_TRACKING" "length ad \<le> MAX_AD_SIZE" "unat (ns a + 1) = unat (ns a) + 1"
    "decrypt_aead c (message_key c (unat (hdr_n (next_header a)) - unat (nr b)) ck) ct (concat_ad ad eh) = Ok p"
    "a' = a\<lparr>ck_s := Some (chain_key c (Suc (unat (ns a) - unat (nr b))) ck), ns := ns a + 1, header_nonce_counter := ctr\<rparr>"
proof -
  obtain cks hk ctr where cks: "ck_s a = Some cks" and hk: "hk_s a = Some hk" and ad: "length ad \<le> MAX_AD_SIZE"
      and n: "unat (ns a + 1) = unat (ns a) + 1"
      and hdr: "decrypt_header_with_key c hk eh = Ok (next_header a)"
      and pt: "decrypt_aead c (message_key c 0 cks) ct (concat_ad ad eh) = Ok p"
      and a': "a' = a\<lparr>ck_s := Some (chain_key c 1 cks), ns := ns a + 1, header_nonce_counter := ctr\<rparr>"
    by (rule encrypt_opens [OF ok leadD(2) [OF l] enc]) blast
  obtain ck where f: "hk_r b = Some hk" "ck_r b = Some ck" "nr b \<le> ns a"
      "cks = chain_key c (unat (ns a) - unat (nr b)) ck"
      "\<And>k n. (k, n) |\<in>| received_messages b \<Longrightarrow> n < ns a"
      "\<And>n. map_of (mkskipped b) (hk, n) \<noteq> None \<Longrightarrow> n < ns a"
    using leadD(10) [OF l] cks hk unfolding follows_def by auto
  have lim: "unat (nr b) + 1000 < 2 ^ 32" "unat (ns a) \<le> unat (nr b) + 1000"
      "fcard (received_messages b) < MAX_RECEIVED_TRACKING"
    using guard f(1) hk by (simp_all add: deliverable_def within_limits_def)
  have "map_of (mkskipped b) (hk, hdr_n (next_header a)) = None" using f(6) [of "ns a"] by force
  note store = no_entry_opens [OF guard hk hdr this]
  have new: "(dh_pub (next_header a), hdr_n (next_header a)) |\<notin>| received_messages b"
    using f(5) [of _ "ns a"] by force
  show thesis
    by (rule that [OF hk f(1,2) _ hdr _ new _ _ lim(1,3) ad n])
      (use f(3) lim(2) pt a' cks store in \<open>simp_all add: f(4) message_key_shift chain_key_next\<close>)
qed

text \<open>Receiving it keeps the receiver on the chain.\<close>

lemma next_below: "unat (n + 1) = unat n + 1 \<Longrightarrow> (i < n + 1) = (i \<le> (n :: u32))"
  by (auto simp: word_less_nat_alt word_le_nat_alt)

lemma follows_received:
  assumes f: "follows c a b" and keys: "hk_s a = Some hk" "ck_r b = Some ck"
    "ck_s a = Some (chain_key c (unat (ns a) - unat (nr b)) ck)"
    and n: "unat (ns a + 1) = unat (ns a) + 1" and lim: "unat (nr b) + 1000 < 2 ^ 32"
    and skip: "skip_loop c hk (ns a) (nr b) ck (mkskipped b) w = (Ok m, w')"
  shows "follows c
     (a\<lparr>ck_s := Some (chain_key c (Suc (unat (ns a) - unat (nr b))) ck), ns := ns a + 1, header_nonce_counter := ctr\<rparr>)
     (b\<lparr>mkskipped := m, ck_r := Some (chain_key c 1 ck), nr := nr b + 1,
        received_messages := finsert (snd (dh_pair a), ns a) (received_messages b)\<rparr>)"
proof -
  have b: "hk_r b = Some hk" "nr b \<le> ns a" "dh_remote b = Some (snd (dh_pair a))"
      "\<And>k i. (k, i) |\<in>| received_messages b \<Longrightarrow> i < ns a" "\<And>i. map_of (mkskipped b) (hk, i) \<noteq> None \<Longrightarrow> i < ns a"
    using f keys unfolding follows_def by auto
  have nr1: "unat (nr b + 1) = unat (nr b) + 1" using lim unat_add_lem [of "nr b" 1] by simp
  note up = next_below [OF n]
  have "nr b + 1 \<le> ns a + 1" using b(2) n nr1 by (simp add: word_le_nat_alt)
  moreover have "chain_key c (unat (ns a + 1) - unat (nr b + 1)) (chain_key c 1 ck) = chain_key c (Suc (unat (ns a) - unat (nr b))) ck"
    using n nr1 by (simp add: chain_key_add)
  moreover have "i < ns a + 1" if "map_of m (hk, i) \<noteq> None" for i
    using that skip_loop_sound [OF skip, of "(hk, i)"] b(5) [of i] up less_imp_le by fastforce
  moreover have "i < ns a + 1" if "(k, i) |\<in>| received_messages b" for k i
    using b(4) [OF that] up less_imp_le by blast
  ultimately show ?thesis using keys b(1,3) up [of "ns a"] by (auto simp: follows_def)
qed

lemma delivered_in_chain:
  assumes ok: "crypto_ok c" and l: "lead c b a" and enc: "encrypt c a p ad = (Ok (eh, ct), a')"
    and guard: "deliverable c a b eh"
  obtains b' w' where "decrypt c w b eh ct ad = (Ok p, b', w')" "lead c b' a'"
proof (rule next_in_chain [OF ok l enc guard])
  fix hk ck ctr
  note inv = leadD(1,2) [OF l] and rc = ratchet_crypto_ok [OF ok]
  assume keys: "hk_s a = Some hk" "ck_r b = Some ck" "ck_s a = Some (chain_key c (unat (ns a) - unat (nr b)) ck)"
    and hk: "hk_r b = Some hk" and hdr: "decrypt_header_with_key c hk eh = Ok (next_header a)"
    and store: "\<forall>ct k q. \<not> entry_opens c (mkskipped b) eh ct (concat_ad ad eh) k q"
    and new: "(dh_pub (next_header a), hdr_n (next_header a)) |\<notin>| received_messages b"
    and le: "nr b \<le> hdr_n (next_header a)" "unat (hdr_n (next_header a)) \<le> unat (nr b) + 1000" "unat (nr b) + 1000 < 2 ^ 32"
    and room: "fcard (received_messages b) < MAX_RECEIVED_TRACKING" and ad: "length ad \<le> MAX_AD_SIZE"
    and n: "unat (ns a + 1) = unat (ns a) + 1"
    and key: "decrypt_aead c (message_key c (unat (hdr_n (next_header a)) - unat (nr b)) ck) ct (concat_ad ad eh) = Ok p"
    and a': "a' = a\<lparr>ck_s := Some (chain_key c (Suc (unat (ns a) - unat (nr b))) ck), ns := ns a + 1, header_nonce_counter := ctr\<rparr>"
  obtain m t where dec: "decrypt c w b eh ct ad = (Ok p, b\<lparr>mkskipped := m, ck_r := Some (chain_key c 1 ck),
        nr := nr b + 1, received_messages := finsert (snd (dh_pair a), ns a) (received_messages b)\<rparr>, w\<lparr>ticks := t\<rparr>)"
      and skip: "skip_loop c hk (ns a) (nr b) ck (mkskipped b) w = (Ok m, w\<lparr>ticks := t\<rparr>)"
    using decrypt_in_chain [OF rc inv(1) ad _ hk hdr new keys(2) le room key] store by (metis next_header_simps)
  define b' where "b' = b\<lparr>mkskipped := m, ck_r := Some (chain_key c 1 ck),
        nr := nr b + 1, received_messages := finsert (snd (dh_pair a), ns a) (received_messages b)\<rparr>"
  have "ratchet_inv b'" using st_safeD decrypt_safe [OF rc inv(1), of w eh ct ad] dec b'_def by metis
  moreover have "ratchet_inv a'" by (rule encrypt_inv(1) [OF rc inv(2) enc])
  moreover have "follows c a' b'"
    unfolding a' b'_def by (rule follows_received [OF leadD(10) [OF l] keys n le(3) skip])
  moreover have "dh_remote b = Some (snd (dh_pair a))" using leadD(10) [OF l] keys by (auto simp: follows_def)
  ultimately have "lead c b' a'"
    using l by (auto simp: lead_def own_key_pair_def received_from_remote_def a' b'_def)
  with dec show thesis by (intro that) (auto simp: b'_def)
qed

lemma store_chain_gap_skips:
  assumes "store_chain_gap c target st w = (Ok (), st\<lparr>mkskipped := m\<rparr>, w')" and "hk_r st = Some hk" and "ck_r st = Some ck"
  obtains v where "skip_loop c hk target (nr st) ck (mkskipped st) w = (Ok m, v)"
proof -
  obtain r v where skip: "skip_message_keys c w (mkskipped st) ck hk (nr st) target = (r, v)"
    by fastforce
  have "r = Ok m" using assms skip
    by (cases r) (auto simp: store_chain_gap_def dest: arg_cong [where f = mkskipped])
  with skip show thesis using skip_message_keys_OkD(1) that by blast
qed

lemma store_chain_gap_new:
  assumes "store_chain_gap c target st w = (Ok (), st\<lparr>mkskipped := m\<rparr>, w')" and "map_of m (hk, n) \<noteq> None"
  shows "map_of (mkskipped st) (hk, n) \<noteq> None \<or> hk_r st = Some hk"
proof (cases "ck_r st = None \<or> hk_r st = None")
  case True
  then have "store_chain_gap c target st w = (Ok (), st, w)"
    by (auto simp: store_chain_gap_def split: option.split)
  then have "mkskipped (st\<lparr>mkskipped := m\<rparr>) = mkskipped st" using assms(1) by (metis prod.inject)
  then show ?thesis using assms(2) by simp
next
  case False
  then obtain ck hk' where some: "hk_r st = Some hk'" "ck_r st = Some ck" by auto
  obtain v where skip: "skip_loop c hk' target (nr st) ck (mkskipped st) w = (Ok m, v)"
    by (rule store_chain_gap_skips [OF assms(1) some])
  obtain s where "map_of m (hk, n) = Some s" using assms(2) by auto
  from skip_loop_sound [OF skip this] show ?thesis using some(1) by auto
qed
text \<open>The first message of a chain the receiver has to ratchet to: what decrypting it needs.\<close>

lemma next_by_ratchet:
  assumes ok: "crypto_ok c" and l: "lead c a b" and enc: "encrypt c a p ad = (Ok (eh, ct), a')"
    and guard: "deliverable c a b eh"
  obtains ck ctr where "hk_s a = Some (nhk_r b)" "hk_r b \<noteq> Some (nhk_r b)"
    "ck_s a = Some (chain_key c (unat (ns a)) ck)"
    "decrypt_header_with_key c (nhk_r b) eh = Ok (next_header a)"
    "\<forall>hk. hk_r b = Some hk \<longrightarrow> \<not> is_ok (decrypt_header_with_key c hk eh)"
    "\<forall>ct k q. \<not> entry_opens c (mkskipped b) eh ct (concat_ad ad eh) k q" "\<forall>i. map_of (mkskipped b) (nhk_r b, i) = None"
    "(dh_pub (next_header a), hdr_n (next_header a)) |\<notin>| received_messages b"
    "kdf_rk_he c (rk b) (x25519_dh c (fst (dh_pair b)) (dh_pub (next_header a))) = Ok (rk a, ck, nhk_s a)"
    "unat (hdr_n (next_header a)) \<le> 1000"
    "\<forall>ck. ck_r b = Some ck \<longrightarrow> nr b \<le> hdr_pn (next_header a) \<and> unat (hdr_pn (next_header a)) \<le> unat (nr b) + 1000"
    "length ad \<le> MAX_AD_SIZE" "unat (ns a + 1) = unat (ns a) + 1"
    "decrypt_aead c (message_key c (unat (hdr_n (next_header a))) ck) ct (concat_ad ad eh) = Ok p"
    "a' = a\<lparr>ck_s := Some (chain_key c (Suc (unat (ns a))) ck), ns := ns a + 1, header_nonce_counter := ctr\<rparr>"
proof -
  obtain cks hk ctr where cks: "ck_s a = Some cks" and hk': "hk_s a = Some hk" and ad: "length ad \<le> MAX_AD_SIZE"
      and n: "unat (ns a + 1) = unat (ns a) + 1"
      and hdr: "decrypt_header_with_key c hk eh = Ok (next_header a)"
      and pt: "decrypt_aead c (message_key c 0 cks) ct (concat_ad ad eh) = Ok p"
      and a': "a' = a\<lparr>ck_s := Some (chain_key c 1 cks), ns := ns a + 1, header_nonce_counter := ctr\<rparr>"
    by (rule encrypt_opens [OF ok leadD(1) [OF l] enc]) blast
  have hk: "hk_s a = Some (nhk_r b)" and eq: "hk = nhk_r b" using leadD(7) [OF l] hk' by simp_all
  obtain ck where kdf: "kdf_rk_he c (rk b) (x25519_dh c (fst (dh_pair b)) (dh_pub (next_header a))) = Ok (rk a, ck, nhk_s a)"
      and ck: "cks = chain_key c (unat (ns a)) ck"
    using l cks by (auto simp: lead_def)
  have fresh: "nhk_r b \<notin> set (held_keys b)" and lim: "within_limits a b"
    using guard by (simp_all add: deliverable_def)
  then have other: "hk_r b \<noteq> Some (nhk_r b)" using held_keysI(2) by metis
  with lim hk have gap: "(dh_pub (next_header a), hdr_n (next_header a)) |\<notin>| received_messages b"
      "unat (hdr_n (next_header a)) \<le> 1000" "ck_r b \<noteq> None \<longrightarrow> unat (pn a) \<le> unat (nr b) + 1000"
    by (auto simp: within_limits_def)
  have unheld: "map_of (mkskipped b) (nhk_r b, i) = None" for i
    using fresh held_keysI(1) [of b "nhk_r b" i] by (cases "map_of (mkskipped b) (nhk_r b, i)") auto
  note store = no_entry_opens [OF guard hk hdr [unfolded eq] unheld]
  have old: "\<not> is_ok (decrypt_header_with_key c hk' eh)" if "hk_r b = Some hk'" for hk'
    using guard held_keysI(2) [OF that] other hk that by (simp add: deliverable_def)
  have pn: "nr b \<le> hdr_pn (next_header a) \<and> unat (hdr_pn (next_header a)) \<le> unat (nr b) + 1000"
    if "ck_r b = Some ck" for ck
    using leadD(11) [OF l] gap(3) that by simp
  show thesis
    by (rule that [OF hk other _ hdr [unfolded eq] _ _ _ gap(1) kdf gap(2) _ ad n])
      (use cks pt a' old unheld store pn in \<open>simp_all add: ck message_key_shift chain_key_next\<close>)
qed

text \<open>Receiving it puts the receiver on the new chain, and the keys of the two parties meet again.\<close>

lemma lead_ratcheted:
  assumes ok: "crypto_ok c" and l: "lead c a b" and invs: "ratchet_inv a'" "ratchet_inv b'"
    and ck: "ck_s a = Some (chain_key c (unat (ns a)) ck)" and n: "unat (ns a + 1) = unat (ns a) + 1"
    and dh_s: "is_array 32 dh_s" and kdf: "kdf_rk_he c (rk a) (x25519_dh c dh_s (snd (dh_pair a))) = Ok (rk2, cks2, nhks)"
    and unheld: "\<And>i. map_of m (nhk_r b, i) = None" and skip: "skip_loop c (nhk_r b) (ns a) 0 ck m w1 = (Ok m', w2)"
    and a': "a' = a\<lparr>ck_s := Some (chain_key c (Suc (unat (ns a))) ck), ns := ns a + 1, header_nonce_counter := ctr\<rparr>"
    and b': "b' = b\<lparr>pn := ns b, ns := 0, nr := 1, hk_s := Some (nhk_s b), hk_r := Some (nhk_r b),
                dh_remote := Some (snd (dh_pair a)), rk := rk2, ck_r := Some (chain_key c 1 ck),
                nhk_r := nhk_s a, ck_s := Some cks2, nhk_s := nhks,
                dh_pair := (dh_s, x25519_base c dh_s), mkskipped := m',
                received_messages := {|(snd (dh_pair a), ns a)|}\<rparr>"
  shows "lead c b' a'"
proof -
  note up = next_below [OF n]
  have kdf': "kdf_rk_he c (rk a) (x25519_dh c (fst (dh_pair a)) (x25519_base c dh_s)) = Ok (rk2, cks2, nhks)"
    using kdf leadD(3) [OF l]
      dh_commutesD [OF crypto_okD(5) [OF ok] dh_s wf_stateD(1) [OF ratchet_invD(1) [OF leadD(1) [OF l]]]]
    by (simp add: own_key_pair_def)
  have "1 \<le> ns a + 1" using n by (simp add: word_le_nat_alt)
  moreover have "chain_key c (unat (ns a + 1) - 1) (chain_key c 1 ck) = chain_key c (Suc (unat (ns a))) ck"
    using n by (simp add: chain_key_add)
  moreover have "i < ns a + 1" if "map_of m' (nhk_r b, i) \<noteq> None" for i
    using that skip_loop_sound [OF skip, of "(nhk_r b, i)"] unheld [of i] up less_imp_le by fastforce
  ultimately have "follows c a' b'" using leadD(7) [OF l] up [of "ns a"] by (auto simp: follows_def a' b')
  moreover have "ck_r a = None \<or> nr a \<le> ns b" using leadD(10) [OF l] by (auto simp: follows_def)
  ultimately show ?thesis
    using l invs kdf' by (auto simp: lead_def own_key_pair_def received_from_remote_def a' b')
qed

text \<open>A receiver with no chain yet stores nothing when it ratchets to the first message.\<close>

lemma nothing_stored:
  assumes "store_chain_gap c target b w = (Ok (), b\<lparr>mkskipped := m\<rparr>, w')" and "ck_r b = None"
    and "skip_loop c hk 0 0 ck m w1 = (Ok m', w2)"
  shows "m' = mkskipped b"
proof -
  have "b\<lparr>mkskipped := m\<rparr> = b" using assms(1,2) by (simp add: store_chain_gap_def)
  then have "m = mkskipped b" by (metis RatchetState.select_convs(13) RatchetState.surjective RatchetState.update_convs(13))
  then show ?thesis using assms(3) by (simp add: skip_loop_done)
qed

lemma decrypts_by_ratchet:
  assumes ok: "crypto_ok c" and l: "lead c a b" and enc: "encrypt c a p ad = (Ok (eh, ct), a')"
    and guard: "deliverable c a b eh"
  obtains b' w' ck m m' dh_s rk2 cks2 nhks t w1 w2 where "decrypt c w b eh ct ad = (Ok p, b', w')" "lead c b' a'"
    "b' = b\<lparr>pn := ns b, ns := 0, nr := 1, hk_s := Some (nhk_s b), hk_r := Some (nhk_r b),
            dh_remote := Some (snd (dh_pair a)), rk := rk2, ck_r := Some (chain_key c 1 ck),
            nhk_r := nhk_s a, ck_s := Some cks2, nhk_s := nhks,
            dh_pair := (dh_s, x25519_base c dh_s), mkskipped := m',
            received_messages := {|(snd (dh_pair a), ns a)|}\<rparr>"
    "dh_s = fst (os_rng_fill 32 w)"
    "store_chain_gap c (pn a) b w = (Ok (), b\<lparr>mkskipped := m\<rparr>, w\<lparr>ticks := t\<rparr>)"
    "skip_loop c (nhk_r b) (ns a) 0 ck m w1 = (Ok m', w2)" "hk_s a' = Some (nhk_r b)" "nhk_s a' = nhk_s a"
    "ck_s a = Some (chain_key c (unat (ns a)) ck)"
    "kdf_rk_he c (rk b) (x25519_dh c (fst (dh_pair b)) (snd (dh_pair a))) = Ok (rk a, ck, nhk_s a)"
proof (rule next_by_ratchet [OF ok l enc guard])
  fix ck ctr
  note inv = leadD(1,2) [OF l] and rc = ratchet_crypto_ok [OF ok]
  assume hk: "hk_s a = Some (nhk_r b)" and other: "hk_r b \<noteq> Some (nhk_r b)"
    and ck: "ck_s a = Some (chain_key c (unat (ns a)) ck)" and hdr: "decrypt_header_with_key c (nhk_r b) eh = Ok (next_header a)"
    and old_hk: "\<forall>hk. hk_r b = Some hk \<longrightarrow> \<not> is_ok (decrypt_header_with_key c hk eh)"
    and store: "\<forall>ct k q. \<not> entry_opens c (mkskipped b) eh ct (concat_ad ad eh) k q"
    and unheld: "\<forall>i. map_of (mkskipped b) (nhk_r b, i) = None"
    and new: "(dh_pub (next_header a), hdr_n (next_header a)) |\<notin>| received_messages b"
    and kdf: "kdf_rk_he c (rk b) (x25519_dh c (fst (dh_pair b)) (dh_pub (next_header a))) = Ok (rk a, ck, nhk_s a)"
    and n_le: "unat (hdr_n (next_header a)) \<le> 1000"
    and pn: "\<forall>ck. ck_r b = Some ck \<longrightarrow> nr b \<le> hdr_pn (next_header a) \<and> unat (hdr_pn (next_header a)) \<le> unat (nr b) + 1000"
    and ad: "length ad \<le> MAX_AD_SIZE" and n: "unat (ns a + 1) = unat (ns a) + 1"
    and key: "decrypt_aead c (message_key c (unat (hdr_n (next_header a))) ck) ct (concat_ad ad eh) = Ok p"
    and a': "a' = a\<lparr>ck_s := Some (chain_key c (Suc (unat (ns a))) ck), ns := ns a + 1, header_nonce_counter := ctr\<rparr>"
  obtain m m' dh_s rk2 cks2 nhks t w' w1 w2 where dec: "decrypt c w b eh ct ad =
       (Ok p, b\<lparr>pn := ns b, ns := 0, nr := 1, hk_s := Some (nhk_s b), hk_r := Some (nhk_r b),
                dh_remote := Some (snd (dh_pair a)), rk := rk2, ck_r := Some (chain_key c 1 ck),
                nhk_r := nhk_s a, ck_s := Some cks2, nhk_s := nhks,
                dh_pair := (dh_s, x25519_base c dh_s), mkskipped := m',
                received_messages := {|(snd (dh_pair a), ns a)|}\<rparr>, w')" (is "_ = (_, ?b', _)")
      and step: "is_array 32 dh_s" "kdf_rk_he c (rk a) (x25519_dh c dh_s (snd (dh_pair a))) = Ok (rk2, cks2, nhks)"
      and rng: "dh_s = fst (os_rng_fill 32 w)"
      and old: "store_chain_gap c (pn a) b w = (Ok (), b\<lparr>mkskipped := m\<rparr>, w\<lparr>ticks := t\<rparr>)"
      and skip: "skip_loop c (nhk_r b) (ns a) 0 ck m w1 = (Ok m', w2)"
    using decrypt_across_ratchet [OF rc inv(2) ad _ _ hdr new kdf n_le _ key] store old_hk pn
    by (metis next_header_simps)
  have invs: "ratchet_inv a'" "ratchet_inv ?b'"
    using encrypt_inv(1) [OF rc inv(1) enc] st_safeD decrypt_safe [OF rc inv(2), of w eh ct ad] dec by metis+
  have "map_of m (nhk_r b, i) = None" for i
    using store_chain_gap_new [OF old, of "nhk_r b" i] unheld other by metis
  from lead_ratcheted [OF ok l invs ck n step this skip a' refl] have "lead c ?b' a'" .
  then show thesis by (rule that [OF dec _ refl rng old skip]) (use hk ck kdf in \<open>simp_all add: a'\<close>)
qed

lemma delivered_with_ratchet:
  assumes ok: "crypto_ok c" and l: "lead c a b" and enc: "encrypt c a p ad = (Ok (eh, ct), a')"
    and guard: "deliverable c a b eh"
  obtains b' w' where "decrypt c w b eh ct ad = (Ok p, b', w')" "lead c b' a'"
    "nr b' = 1" "hk_r b' = hk_s a'" "nhk_r b' = nhk_s a'" "fcard (received_messages b') = 1"
    "ck_r b = None \<Longrightarrow> ns a = 0 \<Longrightarrow> mkskipped b' = mkskipped b"
    "pn b' = ns b" "ns b' = 0" "snd (dh_pair b') = x25519_base c (fst (os_rng_fill 32 w))"
proof (rule decrypts_by_ratchet [OF ok l enc guard, of w])
  fix b' w' ck m m' dh_s rk2 cks2 nhks t w1 w2
  assume dec: "decrypt c w b eh ct ad = (Ok p, b', w')" "lead c b' a'"
    and b': "b' = b\<lparr>pn := ns b, ns := 0, nr := 1, hk_s := Some (nhk_s b), hk_r := Some (nhk_r b),
            dh_remote := Some (snd (dh_pair a)), rk := rk2, ck_r := Some (chain_key c 1 ck),
            nhk_r := nhk_s a, ck_s := Some cks2, nhk_s := nhks,
            dh_pair := (dh_s, x25519_base c dh_s), mkskipped := m',
            received_messages := {|(snd (dh_pair a), ns a)|}\<rparr>"
    and rest: "dh_s = fst (os_rng_fill 32 w)" "hk_s a' = Some (nhk_r b)" "nhk_s a' = nhk_s a"
    and old: "store_chain_gap c (pn a) b w = (Ok (), b\<lparr>mkskipped := m\<rparr>, w\<lparr>ticks := t\<rparr>)"
    and skip: "skip_loop c (nhk_r b) (ns a) 0 ck m w1 = (Ok m', w2)"
  have same: "mkskipped b' = mkskipped b" if "ck_r b = None" "ns a = 0"
    using nothing_stored [OF old that(1)] skip that(2) by (simp add: b')
  show thesis
    by (rule that [OF dec _ _ _ _ same]) (simp_all add: b' rest fcard_finsert_if fcard_fempty)
qed

section \<open>Storing a session, and messages opened by the store\<close>

text \<open>The relation asks for no entry of a store, so a session may be written and read back or lose entries.\<close>

lemma follows_fewer:
  assumes "fewer_skipped r r'" and "follows c s r"
  shows "follows c s r'"
  using assms unfolding fewer_skipped_def follows_def by fastforce

lemma follows_any_store: "follows c (s\<lparr>mkskipped := m\<rparr>) r = follows c s r"
  by (simp add: follows_def)

lemma lead_fewer:
  assumes "fewer_skipped x x'" and "fewer_skipped y y'" and "lead c x y"
  shows "lead c x' y'"
proof -
  obtain mx my where m: "x' = x\<lparr>mkskipped := mx\<rparr>" "y' = y\<lparr>mkskipped := my\<rparr>"
    using assms(1,2) by (auto simp: fewer_skipped_def)
  have inv: "ratchet_inv x'" "ratchet_inv y'"
    using fewer_skipped_inv [OF assms(1)] fewer_skipped_inv [OF assms(2)] leadD(1,2) [OF assms(3)] by simp_all
  have "follows c y' x'"
    using follows_fewer [OF assms(1) leadD(10) [OF assms(3)]] by (simp add: m(2) follows_any_store)
  with inv assms(3) show ?thesis
    unfolding m by (auto simp: lead_def own_key_pair_def received_from_remote_def)
qed

lemma linked_fewer:
  assumes "fewer_skipped b b'" and "linked c a b"
  shows "linked c a b'"
  using lead_fewer [OF fewer_skipped_refl assms(1)] lead_fewer [OF assms(1) fewer_skipped_refl] assms(2)
    linked_inv [OF assms(2)] by (auto simp: linked_def)

section \<open>Conversations\<close>

inductive conversation :: "crypto \<Rightarrow> RatchetState \<Rightarrow> RatchetState \<Rightarrow> bool" for c where
  start: "init_sender_state c w sk (x25519_base c priv) = (Ok a, w') \<Longrightarrow>
          init_receiver_state c sk (priv, x25519_base c priv) = Ok b \<Longrightarrow>
          is_array 32 sk \<Longrightarrow> is_array 32 priv \<Longrightarrow> conversation c a b"
| swap: "conversation c a b \<Longrightarrow> conversation c b a"
| lost: "conversation c a b \<Longrightarrow> encrypt c a p ad = (Ok m, a') \<Longrightarrow> conversation c a' b"
| delivered: "conversation c a b \<Longrightarrow> encrypt c a p ad = (Ok (eh, ct), a') \<Longrightarrow>
              deliverable c a b eh \<Longrightarrow> decrypt c w b eh ct ad = (r, b', w') \<Longrightarrow> conversation c a' b'"
| rejected: "conversation c a b \<Longrightarrow> decrypt c w b eh ct ad = (Err e, b', w') \<Longrightarrow>
             e \<in> pre_commit_errors \<Longrightarrow> conversation c a b'"
| late: "conversation c a b \<Longrightarrow> length ad \<le> MAX_AD_SIZE \<Longrightarrow>
         try_skipped_message_keys c w (mkskipped b) eh ct (concat_ad ad eh) = Ok (m, Some p) \<Longrightarrow>
         decrypt c w b eh ct ad = (r, b', w') \<Longrightarrow> conversation c a b'"
| restored: "conversation c a b \<Longrightarrow> json_faithful j \<Longrightarrow> state_to_json j w b = Some s \<Longrightarrow>
             state_from_json j s = Some b' \<Longrightarrow> conversation c a b'"

lemma linked_delivered:
  assumes "crypto_ok c" "linked c a b" "encrypt c a p ad = (Ok (eh, ct), a')" "deliverable c a b eh"
  shows "\<exists>b' w'. decrypt c w b eh ct ad = (Ok p, b', w') \<and> linked c a' b'"
  using assms(2) delivered_with_ratchet [OF assms(1) _ assms(3,4)] delivered_in_chain [OF assms(1) _ assms(3,4)]
  unfolding linked_def by metis

lemma conversation_linked:
  assumes "conversation c a b" and ok: "crypto_ok c"
  shows "linked c a b"
  using assms(1)
proof (induction rule: conversation.induct)
  case (start w sk priv a w' b)
  then show ?case using init_lead [OF ok] by (auto simp: linked_def)
next
  case (swap a b)
  then show ?case by (simp add: linked_sym)
next
  case (lost a b p ad m a')
  then show ?case using linked_send [OF ok] by (cases m) blast
next
  case (delivered a b p ad eh ct a' w r b' w')
  then show ?case using linked_delivered [OF ok, of a b p ad eh ct a' w] by auto
next
  case (rejected a b w eh ct ad e b' w')
  then show ?case using decrypt_rejected [OF ratchet_crypto_ok [OF ok]] linked_inv by metis
next
  case (late a b ad w eh ct m p r b' w')
  have "fewer_skipped b b'"
    using opened_by_store [OF ratchet_crypto_ok [OF ok] _ late.hyps(3,2)] linked_inv [OF late.IH] late.hyps(4) by simp
  then show ?case using late.IH by (rule linked_fewer)
next
  case (restored a b j w s b')
  then show ?case using linked_fewer same_fewer linked_inv reread_same by metis
qed

text \<open>The first message of a conversation on the reference primitives.\<close>

lemma demo_conversation:
  obtains a w b eh ct a' where
    "init_sender_state reference_crypto demo_world (replicate 32 7) (replicate 32 5) = (Ok a, w)"
    "init_receiver_state reference_crypto (replicate 32 7) (replicate 32 5, replicate 32 5) = Ok b"
    "conversation reference_crypto a b" "encrypt reference_crypto a [1, 2] [3] = (Ok (eh, ct), a')"
    "deliverable reference_crypto a b eh"
proof -
  define a where "a = \<lparr> dh_pair = (replicate 32 3, replicate 32 3), dh_remote = Some (replicate 32 5),
           rk = replicate 32 145, ck_s = Some (replicate 32 146), ck_r = None,
           hk_s = Some (replicate 32 143), hk_r = None, nhk_s = replicate 32 147, nhk_r = replicate 32 142,
           ns = 0, nr = 0, pn = 0, mkskipped = [], header_nonce_counter = 0, is_sender = True,
           received_messages = {||} \<rparr>"
  have base: "x25519_base reference_crypto (replicate 32 5) = replicate 32 5" by (simp add: run_simps)
  note a = demo_sender [folded a_def]
  obtain b where b: "init_receiver_state reference_crypto (replicate 32 7) (replicate 32 5, replicate 32 5) = Ok b"
      "mkskipped b = []" "hk_r b = None" "received_messages b = {||}" "ck_r b = None"
    by (auto simp: init_receiver_state_def run_simps)
  have conv: "conversation reference_crypto a b"
    using a b(1) by (intro conversation.start [of _ demo_world "replicate 32 7" "replicate 32 5"]) (simp_all add: base)
  then have "ratchet_inv a" using linked_inv conversation_linked reference_crypto_ok by blast
  from encrypt_succeeds [OF reference_crypto_ok this, of _ "[3]" "[1, 2]"]
  obtain eh ct a' where enc: "encrypt reference_crypto a [1, 2] [3] = (Ok (eh, ct), a')"
    by (auto simp: a_def MAX_AD_SIZE_def)
  have "deliverable reference_crypto a b eh"
    using b by (simp add: deliverable_def held_keys_def within_limits_def a_def)
  with that [OF a b(1) conv enc] show thesis .
qed

section \<open>Properties\<close>

text \<open>C1: In every conversation, after any history of messages in both directions, losses, late
  messages opened by the store, refused garbage, DH ratchets and sessions stored as JSON text and
  read back, a message one party encrypts decrypts at the other to its plaintext, provided it is
  deliverable: at most 1000 messages of its chain and, if it starts a new chain, of the chain
  before are missing, the memory of received messages has room, its identifier is not on record,
  and no key the receiver holds for another chain opens its header. The other messages are those
  the code refuses (test_max_skip_exceeded in Unit_Tests is one).\<close>

theorem conversation_delivers:
  assumes "crypto_ok c" and "conversation c a b" and "encrypt c a p ad = (Ok (eh, ct), a')"
    and "deliverable c a b eh"
  shows "\<exists>b' w'. decrypt c w b eh ct ad = (Ok p, b', w') \<and> conversation c a' b'"
proof -
  obtain b' w' where "decrypt c w b eh ct ad = (Ok p, b', w')"
    using linked_delivered [OF assms(1) conversation_linked [OF assms(2,1)] assms(3,4)] by blast
  with conversation.delivered [OF assms(2-4)] show ?thesis by blast
qed

theorem conversation_delivers_witness:
  "\<exists>a b eh ct a' b' w w'.
     init_sender_state reference_crypto demo_world (replicate 32 7) (replicate 32 5) = (Ok a, w) \<and>
     init_receiver_state reference_crypto (replicate 32 7) (replicate 32 5, replicate 32 5) = Ok b \<and>
     encrypt reference_crypto a [1, 2] [3] = (Ok (eh, ct), a') \<and>
     decrypt reference_crypto w b eh ct [3] = (Ok [1, 2], b', w')"
  using demo_conversation conversation_delivers [OF reference_crypto_ok] by metis

end
