(* ===== verification/Chain_Delivery.thy ===== *)
theory Chain_Delivery
  imports Conversation
begin

text \<open>
  Many messages of one sending chain, received in any order: what a batch of encryptions hands
  to the peer, the invariant of a receiver catching up with it, and its consequences, delivery
  in every order and the replay a gap makes possible.
\<close>

section \<open>A batch of messages\<close>

fun send_all :: "crypto \<Rightarrow> RatchetState \<Rightarrow> (bytes \<times> bytes) list \<Rightarrow> ((bytes \<times> bytes) list, RatchetError) result \<times> RatchetState" where
  "send_all c st [] = (Ok [], st)"
| "send_all c st ((p, ad) # ms) =
     (case encrypt c st p ad of
        (Ok m, st1) \<Rightarrow> (let (r, st2) = send_all c st1 ms in (and_then r (\<lambda>sealed. Ok (m # sealed)), st2))
      | (Err e, st1) \<Rightarrow> (Err e, st1)
      | (Panic, st1) \<Rightarrow> (Panic, st1))"

fun receive_all :: "crypto \<Rightarrow> World \<Rightarrow> RatchetState \<Rightarrow> (bytes \<times> bytes \<times> bytes) list \<Rightarrow> (bytes, RatchetError) result list" where
  "receive_all c w st [] = []"
| "receive_all c w st ((ad, eh, ct) # ms) =
     (let (r, st', w') = decrypt c w st eh ct ad in r # receive_all c w' st' ms)"

lemma send_all_ConsE:
  assumes "send_all c a ((p, ad) # ms) = (Ok sealed, a')"
  obtains eh ct a1 rest where "encrypt c a p ad = (Ok (eh, ct), a1)" "send_all c a1 ms = (Ok rest, a')" "sealed = (eh, ct) # rest"
proof -
  obtain r a1 where enc: "encrypt c a p ad = (r, a1)" by fastforce
  obtain r2 a2 where rest: "send_all c a1 ms = (r2, a2)" by fastforce
  obtain m where r: "r = Ok m" using assms enc by (cases r) auto
  obtain eh ct where m: "m = (eh, ct)" by (cases m)
  obtain sealed' where "r2 = Ok sealed'" "sealed = m # sealed'" "a2 = a'"
    using assms enc rest r by (cases r2) auto
  with enc rest r m show thesis by (intro that) auto
qed

lemma send_all_state:
  assumes ok: "crypto_ok c" and "ratchet_inv st" and "send_all c st ms = (Ok sealed, st')"
  shows "ratchet_inv st' \<and> hk_s st' = hk_s st \<and> pn st' = pn st \<and> dh_pair st' = dh_pair st \<and> (ck_s st' = None \<longleftrightarrow> ck_s st = None) \<and>
    unat (ns st') = unat (ns st) + length ms \<and>
    unat (header_nonce_counter st') = unat (header_nonce_counter st) + length ms"
  using assms(2,3)
proof (induction ms arbitrary: st sealed)
  case (Cons m ms)
  obtain p ad where m: "m = (p, ad)" by (cases m)
  from Cons.prems(2) obtain eh ct st1 rest where enc: "encrypt c st p ad = (Ok (eh, ct), st1)"
      and rest: "send_all c st1 ms = (Ok rest, st')"
    unfolding m by (rule send_all_ConsE)
  have inv1: "ratchet_inv st1" by (rule encrypt_inv(1) [OF ratchet_crypto_ok [OF ok] Cons.prems(1) enc])
  obtain ck ctr n' where "ck_s st = Some ck" "checked_add (ns st) 1 = Some n'"
      "checked_add (header_nonce_counter st) 1 = Some ctr"
      and st1: "st1 = st\<lparr>ck_s := Some (chain_key c 1 ck), ns := n', header_nonce_counter := ctr\<rparr>"
    using enc by (rule encrypt_OkD)
  then have "hk_s st1 = hk_s st" "pn st1 = pn st" "dh_pair st1 = dh_pair st" "ck_s st1 \<noteq> None" "ck_s st \<noteq> None"
      "unat (ns st1) = unat (ns st) + 1" "unat (header_nonce_counter st1) = unat (header_nonce_counter st) + 1"
    using checked_add_Some [of "ns st" 1 n'] checked_add_Some [of "header_nonce_counter st" 1 ctr] by simp_all
  with Cons.IH [OF inv1 rest] show ?case by auto
qed simp

text \<open>Sending leaves the receiving half of a session alone.\<close>

lemma send_all_receiving:
  "send_all c st ms = (Ok sealed, st') \<Longrightarrow>
     hk_r st' = hk_r st \<and> ck_r st' = ck_r st \<and> nhk_r st' = nhk_r st \<and> nr st' = nr st \<and>
     mkskipped st' = mkskipped st \<and> received_messages st' = received_messages st"
proof (induction ms arbitrary: st sealed)
  case (Cons m ms)
  obtain p ad where m: "m = (p, ad)" by (cases m)
  from Cons.prems obtain eh ct st1 rest where enc: "encrypt c st p ad = (Ok (eh, ct), st1)"
      and rest: "send_all c st1 ms = (Ok rest, st')"
    unfolding m by (rule send_all_ConsE)
  obtain ck ctr n' where "st1 = st\<lparr>ck_s := Some (chain_key c 1 ck), ns := n', header_nonce_counter := ctr\<rparr>"
    using enc by (rule encrypt_OkD)
  with Cons.IH [OF rest] show ?case by simp
qed simp

lemma send_all_conversation:
  "conversation c a b \<Longrightarrow> send_all c a ms = (Ok sealed, a') \<Longrightarrow> conversation c a' b"
proof (induction ms arbitrary: a sealed)
  case (Cons m ms)
  obtain p ad where m: "m = (p, ad)" by (cases m)
  from Cons.prems(2) obtain eh ct a1 rest where "encrypt c a p ad = (Ok (eh, ct), a1)" "send_all c a1 ms = (Ok rest, a')"
    unfolding m by (rule send_all_ConsE)
  with Cons show ?case by (blast intro: conversation.lost)
qed simp

text \<open>What the \<open>i\<close>-th message after number \<open>n0\<close> of a chain looks like to the receiver.\<close>

definition chain_msg :: "crypto \<Rightarrow> bytes \<Rightarrow> bytes \<Rightarrow> nat \<Rightarrow> bytes \<Rightarrow> nat \<Rightarrow> bytes \<times> bytes \<Rightarrow> bytes \<times> bytes \<Rightarrow> bool" where
  "chain_msg c hk ck n0 pub i m s \<longleftrightarrow>
     length (snd m) \<le> MAX_AD_SIZE \<and>
     (\<exists>h. decrypt_header_with_key c hk (fst s) = Ok h \<and> dh_pub h = pub \<and> unat (hdr_n h) = n0 + i) \<and>
     decrypt_aead c (message_key c i ck) (snd s) (concat_ad (snd m) (fst s)) = Ok (fst m)"

lemma chain_msg_Suc:
  "chain_msg c hk (chain_key c 1 ck) (Suc n0) pub i m s \<Longrightarrow> chain_msg c hk ck n0 pub (Suc i) m s"
  by (simp add: chain_msg_def message_key_shift)

lemma send_all_msgs:
  assumes "crypto_ok c" and "ratchet_inv st" and "ck_s st = Some ck" and "hk_s st = Some hk"
    and "send_all c st ms = (Ok sealed, st')"
  shows "length sealed = length ms \<and>
    (\<forall>i < length ms. chain_msg c hk ck (unat (ns st)) (snd (dh_pair st)) i (ms ! i) (sealed ! i))"
  using assms(2-)
proof (induction ms arbitrary: st ck sealed)
  case Nil
  then show ?case by simp
next
  case (Cons m ms)
  obtain p ad where m: "m = (p, ad)" by (cases m)
  obtain r st1 where enc': "encrypt c st p ad = (r, st1)" by fastforce
  obtain r2 st2 where rest': "send_all c st1 ms = (r2, st2)" by fastforce
  obtain eh ct where r: "r = Ok (eh, ct)" using Cons.prems(4) m enc' by (cases r) auto
  obtain sealed' where rest: "send_all c st1 ms = (Ok sealed', st')" and sealed: "sealed = (eh, ct) # sealed'"
    using Cons.prems(4) m enc' rest' r by (cases r2) auto
  note enc = enc' [unfolded r]
  obtain ck' hk' ctr where same: "ck_s st = Some ck'" "hk_s st = Some hk'"
      and ad: "length ad \<le> MAX_AD_SIZE" and n: "unat (ns st + 1) = unat (ns st) + 1"
      and hdr': "decrypt_header_with_key c hk' eh = Ok (next_header st)"
      and pt': "decrypt_aead c (message_key c 0 ck') ct (concat_ad ad eh) = Ok p"
      and st1': "st1 = st\<lparr>ck_s := Some (chain_key c 1 ck'), ns := ns st + 1, header_nonce_counter := ctr\<rparr>"
    by (rule encrypt_opens [OF assms(1) Cons.prems(1) enc]) blast
  have eq: "ck' = ck" "hk' = hk" using same Cons.prems(2,3) by simp_all
  note hdr = hdr' [unfolded eq] and pt = pt' [unfolded eq] and st1 = st1' [unfolded eq]
  have inv1: "ratchet_inv st1" by (rule encrypt_inv(1) [OF ratchet_crypto_ok [OF assms(1)] Cons.prems(1) enc])
  have ck1: "ck_s st1 = Some (chain_key c 1 ck)" and hk1: "hk_s st1 = Some hk"
    and n1: "unat (ns st1) = Suc (unat (ns st))" and pub1: "dh_pair st1 = dh_pair st"
    using Cons.prems(3) n by (simp_all add: st1)
  note tail = Cons.IH [OF inv1 ck1 hk1 rest, unfolded n1 pub1]
  have first: "chain_msg c hk ck (unat (ns st)) (snd (dh_pair st)) 0 m (eh, ct)"
    using ad hdr pt by (simp add: chain_msg_def m)
  have "chain_msg c hk ck (unat (ns st)) (snd (dh_pair st)) i ((m # ms) ! i) (sealed ! i)"
    if "i < length (m # ms)" for i
    using that first tail chain_msg_Suc by (cases i) (simp_all only: sealed nth_Cons_0 nth_Cons_Suc length_Cons Suc_less_eq)
  with tail show ?case by (simp add: sealed)
qed

section \<open>Catching up\<close>

text \<open>
  The receiver holds the chain from number \<open>n0\<close> on, has taken \<open>k\<close> keys from it, and has
  received the messages of \<open>done_\<close>: every earlier message still missing has its key stored.
\<close>

definition catching :: "crypto \<Rightarrow> bytes \<Rightarrow> bytes \<Rightarrow> nat \<Rightarrow> nat \<Rightarrow> bytes \<Rightarrow> (bytes \<times> u32) set \<Rightarrow> nat \<Rightarrow> nat set \<Rightarrow> nat \<Rightarrow> RatchetState \<Rightarrow> bool" where
  "catching c hk ck n0 cnt pub old r0 got k st \<longleftrightarrow>
     ratchet_inv st \<and> hk_r st = Some hk \<and> ck_r st = Some (chain_key c k ck) \<and> k \<le> cnt \<and> unat (nr st) = n0 + k \<and>
     dom (map_of (mkskipped st)) \<subseteq> old \<union> {hk} \<times> {n. n0 \<le> unat n \<and> unat n < n0 + cnt} \<and>
     (\<forall>n s. map_of (mkskipped st) (hk, n) = Some s \<and> n0 \<le> unat n \<longrightarrow> skipped_mk s = message_key c (unat n - n0) ck) \<and>
     (\<forall>n. n0 \<le> unat n \<and> unat n < n0 + k \<and> unat n - n0 \<notin> got \<longrightarrow> map_of (mkskipped st) (hk, n) \<noteq> None) \<and>
     (\<forall>n. (pub, n) |\<in>| received_messages st \<and> n0 \<le> unat n \<longrightarrow> unat n - n0 \<in> got) \<and>
     fcard (received_messages st) \<le> r0 + card got"

definition catch_limits :: "nat \<Rightarrow> nat \<Rightarrow> (bytes \<times> u32) set \<Rightarrow> nat \<Rightarrow> bool" where
  "catch_limits n0 cnt old r0 \<longleftrightarrow>
     finite old \<and> card old + 2 * cnt \<le> MAX_SKIPPED_KEYS \<and> r0 + cnt \<le> MAX_RECEIVED_TRACKING \<and>
     n0 + cnt + 1000 < 2 ^ 32"

lemma catchingD:
  assumes "catching c hk ck n0 cnt pub old r0 got k st"
  shows "ratchet_inv st" "hk_r st = Some hk" "ck_r st = Some (chain_key c k ck)" "k \<le> cnt"
    "unat (nr st) = n0 + k"
    "dom (map_of (mkskipped st)) \<subseteq> old \<union> {hk} \<times> {n. n0 \<le> unat n \<and> unat n < n0 + cnt}"
    "map_of (mkskipped st) (hk, n) = Some s \<Longrightarrow> n0 \<le> unat n \<Longrightarrow> skipped_mk s = message_key c (unat n - n0) ck"
    "n0 \<le> unat n \<Longrightarrow> unat n < n0 + k \<Longrightarrow> unat n - n0 \<notin> got \<Longrightarrow> map_of (mkskipped st) (hk, n) \<noteq> None"
    "(pub, n) |\<in>| received_messages st \<Longrightarrow> n0 \<le> unat n \<Longrightarrow> unat n - n0 \<in> got"
    "fcard (received_messages st) \<le> r0 + card got"
  using assms by (simp_all add: catching_def)

lemma catching_length:
  assumes "catching c hk ck n0 cnt pub old r0 got k st" and "finite old"
  shows "length (mkskipped st) \<le> card old + cnt"
proof -
  let ?new = "{hk} \<times> {n :: u32. n0 \<le> unat n \<and> unat n < n0 + cnt}"
  have "unat ` {n :: u32. n0 \<le> unat n \<and> unat n < n0 + cnt} \<subseteq> {n0..<n0 + cnt}" by auto
  then have fin: "finite {n :: u32. n0 \<le> unat n \<and> unat n < n0 + cnt}"
    and "card {n :: u32. n0 \<le> unat n \<and> unat n < n0 + cnt} \<le> card {n0..<n0 + cnt}"
    using card_inj_on_le [of unat "{n :: u32. n0 \<le> unat n \<and> unat n < n0 + cnt}" "{n0..<n0 + cnt}"]
    by (simp_all add: inj_on_def word_unat_eq_iff)
  then have "card ?new \<le> cnt" by (simp add: card_cartesian_product)
  moreover have "length (mkskipped st) = card (dom (map_of (mkskipped st)))"
    by (rule hm.len_card [OF wf_skippedD [OF wf_stateD(11) [OF ratchet_invD(1) [OF catchingD(1) [OF assms(1)]]]]])
  moreover have "\<dots> \<le> card (old \<union> ?new)"
    using catchingD(6) [OF assms(1)] fin assms(2) by (intro card_mono) auto
  ultimately show ?thesis using card_Un_le [of old ?new] by linarith
qed

text \<open>No stored key but that of the message itself can open it.\<close>

definition no_foreign :: "crypto \<Rightarrow> bytes \<Rightarrow> (bytes \<times> u32) set \<Rightarrow> bytes \<Rightarrow> bool" where
  "no_foreign c hk old eh \<longleftrightarrow> (\<forall>(h, n) \<in> old. h \<noteq> hk \<longrightarrow> \<not> is_ok (decrypt_header_with_key c h eh))"

lemma catching_opens_only:
  assumes "catching c hk ck n0 cnt pub old r0 got k st" and "no_foreign c hk old eh"
    and "decrypt_header_with_key c hk eh = Ok h" and "entry_opens c (mkskipped st) eh ct ad key q"
  shows "key = (hk, hdr_n h)"
proof -
  obtain s h' where s: "map_of (mkskipped st) key = Some s" and h': "decrypt_header_with_key c (fst key) eh = Ok h'"
      "hdr_n h' = snd key"
    using assms(4) by (rule entry_opensE)
  have "fst key = hk"
  proof (rule ccontr)
    assume other: "fst key \<noteq> hk"
    then have "key \<in> old" using catchingD(6) [OF assms(1)] s by force
    then have "\<not> is_ok (decrypt_header_with_key c (fst key) eh)"
      using other assms(2) unfolding no_foreign_def by fastforce
    then show False by (simp add: h')
  qed
  then show ?thesis using h' assms(3) by (metis prod.collapse result.inject(1))
qed

text \<open>A stored key opens its message, and no other entry of the store does.\<close>

lemma catching_entry:
  assumes st: "catching c hk ck n0 cnt pub old r0 got k st"
    and msg: "chain_msg c hk ck n0 pub i (p, ad) (eh, ct)" and foreign: "no_foreign c hk old eh"
    and stored: "map_of (mkskipped st) (hk, n) \<noteq> None" and n: "unat n = n0 + i"
  shows "length ad \<le> MAX_AD_SIZE" and "entry_opens c (mkskipped st) eh ct (concat_ad ad eh) (hk, n) p"
    and "entry_opens c (mkskipped st) eh ct (concat_ad ad eh) k' q \<Longrightarrow> k' = (hk, n)"
proof -
  obtain h where h: "decrypt_header_with_key c hk eh = Ok h" "unat (hdr_n h) = n0 + i"
      and ad: "length ad \<le> MAX_AD_SIZE" and p: "decrypt_aead c (message_key c i ck) ct (concat_ad ad eh) = Ok p"
    using msg by (auto simp: chain_msg_def)
  then have n_h: "hdr_n h = n" using n by (simp add: word_unat_eq_iff)
  obtain s where s: "map_of (mkskipped st) (hk, n) = Some s" using stored by auto
  have "skipped_mk s = message_key c i ck" using catchingD(7) [OF st s] n by simp
  then show "entry_opens c (mkskipped st) eh ct (concat_ad ad eh) (hk, n) p"
    using p h(1) n_h by (intro entry_opensI [OF s]) simp_all
  show "length ad \<le> MAX_AD_SIZE" by (rule ad)
  show "entry_opens c (mkskipped st) eh ct (concat_ad ad eh) k' q \<Longrightarrow> k' = (hk, n)"
    using catching_opens_only [OF st foreign h(1)] n_h by blast
qed

lemma catching_stored:
  assumes c: "ratchet_crypto c" and st: "catching c hk ck n0 cnt pub old r0 got k st"
    and msg: "chain_msg c hk ck n0 pub i (p, ad) (eh, ct)" and foreign: "no_foreign c hk old eh"
    and got: "finite got" and stored: "map_of (mkskipped st) (hk, n) \<noteq> None" and n: "unat n = n0 + i"
  shows "\<exists>st'. decrypt c w st eh ct ad = (Ok p, st', w) \<and> catching c hk ck n0 cnt pub old r0 (insert i got) k st'"
proof -
  note entry = catching_entry [OF st msg foreign stored n]
  let ?st' = "st\<lparr>mkskipped := AList.delete (hk, n) (mkskipped st)\<rparr>"
  have dec: "decrypt c w st eh ct ad = (Ok p, ?st', w)"
    by (rule decrypt_from_store [OF c entry(1,2)]) (rule entry(3))
  have inv: "ratchet_inv ?st'"
    using st_safeD decrypt_safe [OF c catchingD(1) [OF st], of w eh ct ad] dec by metis
  have "card got \<le> card (insert i got)" using got by (simp add: card_insert_le)
  then have "fcard (received_messages st) \<le> r0 + card (insert i got)"
    using catchingD(10) [OF st] by linarith
  moreover have "n' \<noteq> n \<longleftrightarrow> unat n' - n0 \<noteq> i" if "n0 \<le> unat n'" for n'
    using that n by (auto simp: word_unat_eq_iff)
  ultimately have "catching c hk ck n0 cnt pub old r0 (insert i got) k ?st'"
    using inv catchingD(2-9) [OF st] unfolding catching_def
    by (simp add: delete_conv') blast
  with dec show ?thesis by blast
qed

text \<open>
  A message whose key is not stored lies ahead; decrypting it stores the keys up to it and moves
  the chain by one step.
\<close>

lemma catching_decrypts:
  assumes c: "ratchet_crypto c" and st: "catching c hk ck n0 cnt pub old r0 got k st"
    and lim: "catch_limits n0 cnt old r0" and i: "i < cnt" and new: "i \<notin> got" and got: "got \<subseteq> {..<cnt}"
    and "chain_msg c hk ck n0 pub i (p, ad) (eh, ct)" and foreign: "no_foreign c hk old eh"
    and n: "unat n = n0 + i" and missing: "map_of (mkskipped st) (hk, n) = None"
  obtains m t where "k \<le> i"
    "decrypt c w st eh ct ad =
       (Ok p, st\<lparr>mkskipped := m, ck_r := Some (chain_key c 1 (chain_key c k ck)), nr := nr st + 1,
                received_messages := finsert (pub, n) (received_messages st)\<rparr>, w\<lparr>ticks := t\<rparr>)"
    "skip_loop c hk n (nr st) (chain_key c k ck) (mkskipped st) w = (Ok m, w\<lparr>ticks := t\<rparr>)"
proof -
  obtain h where h: "decrypt_header_with_key c hk eh = Ok h" "dh_pub h = pub" "hdr_n h = n"
      and ad: "length ad \<le> MAX_AD_SIZE" and p: "decrypt_aead c (message_key c i ck) ct (concat_ad ad eh) = Ok p"
    using assms(7) n by (auto simp: chain_msg_def word_unat_eq_iff)
  note d = catchingD [OF st]
  have lims: "2 * cnt \<le> 2000" "r0 + cnt \<le> MAX_RECEIVED_TRACKING" "n0 + cnt + 1000 < 2 ^ 32"
    using lim by (simp_all add: catch_limits_def MAX_SKIPPED_KEYS_def)
  have ki: "k \<le> i"
    using d(8) [of n] n new missing by (cases "k \<le> i") auto
  have "key \<noteq> (hk, hdr_n h)" if "entry_opens c (mkskipped st) eh ct (concat_ad ad eh) key q" for key q
    using that missing h(3) by (auto elim: entry_opensE)
  then have store: "\<not> entry_opens c (mkskipped st) eh ct (concat_ad ad eh) key q" for key q
    using catching_opens_only [OF st foreign h(1)] by blast
  have fresh: "(dh_pub h, hdr_n h) |\<notin>| received_messages st" using d(9) [of n] h(2,3) n new by auto
  have le: "nr st \<le> hdr_n h" "unat (hdr_n h) \<le> unat (nr st) + 1000" "unat (nr st) + 1000 < 2 ^ 32"
    using ki i lims d(4,5) h(3) n by (simp_all add: word_le_nat_alt)
  have "card got < cnt"
    using psubset_card_mono [of "{..<cnt}" got] got new i by auto
  then have room: "fcard (received_messages st) < MAX_RECEIVED_TRACKING" using d(10) lims(2) by linarith
  have key: "decrypt_aead c (message_key c (unat (hdr_n h) - unat (nr st)) (chain_key c k ck)) ct (concat_ad ad eh) = Ok p"
    using p ki h(3) n d(5) by (simp add: message_key_shift)
  show thesis
    by (rule decrypt_in_chain [OF c d(1) ad store d(2) h(1) fresh d(3) le room key, of w])
      (rule that [OF ki]; simp add: h)
qed

text \<open>What a run of the loop leaves in the store of a session that is catching up.\<close>

lemma catching_skip:
  assumes st: "catching c hk ck n0 cnt pub old r0 got k st" and lim: "catch_limits n0 cnt old r0"
    and skip: "skip_loop c hk n (nr st) (chain_key c k ck) (mkskipped st) w = (Ok m, w')"
    and n: "unat n = n0 + i" and i: "i < cnt" and ki: "k \<le> i"
  shows "dom (map_of m) \<subseteq> old \<union> {hk} \<times> {n. n0 \<le> unat n \<and> unat n < n0 + cnt}"
    and "\<And>j s. map_of m (hk, j) = Some s \<Longrightarrow> n0 \<le> unat j \<Longrightarrow> skipped_mk s = message_key c (unat j - n0) ck"
    and "\<And>j. n0 + k \<le> unat j \<Longrightarrow> unat j < n0 + i \<Longrightarrow> map_of m (hk, j) \<noteq> None"
    and "\<And>j. unat j < n0 + k \<or> n0 + i \<le> unat j \<Longrightarrow> map_of m (hk, j) = map_of (mkskipped st) (hk, j)"
proof -
  note d = catchingD [OF st]
  have lims: "finite old" "card old + 2 * cnt \<le> MAX_SKIPPED_KEYS" using lim by (simp_all add: catch_limits_def)
  have space: "length (mkskipped st) + (unat n - unat (nr st)) \<le> MAX_SKIPPED_KEYS"
    using catching_length [OF st lims(1)] n d(5) i lims(2) by simp
  note full = skip_loop_complete [OF skip space wf_skippedD [OF wf_stateD(11) [OF ratchet_invD(1) [OF d(1)]]]]
  show "dom (map_of m) \<subseteq> old \<union> {hk} \<times> {n. n0 \<le> unat n \<and> unat n < n0 + cnt}"
  proof
    fix x assume "x \<in> dom (map_of m)"
    then obtain s where "map_of m x = Some s" by auto
    from skip_loop_sound [OF skip this]
    show "x \<in> old \<union> {hk} \<times> {n. n0 \<le> unat n \<and> unat n < n0 + cnt}"
      using d(5,6) n i by (auto simp: word_le_nat_alt word_less_nat_alt)
  qed
  show "skipped_mk s = message_key c (unat j - n0) ck" if "map_of m (hk, j) = Some s" "n0 \<le> unat j" for j s
    using skip_loop_sound [OF skip that(1)] d(7) [of j s] that(2) d(5)
    by (auto simp: message_key_shift word_le_nat_alt)
  show "map_of m (hk, j) \<noteq> None" if "n0 + k \<le> unat j" "unat j < n0 + i" for j
    using full that d(5) n by (auto simp: word_le_nat_alt word_less_nat_alt)
  show "map_of m (hk, j) = map_of (mkskipped st) (hk, j)" if "unat j < n0 + k \<or> n0 + i \<le> unat j" for j
  proof -
    have "\<forall>j'. nr st \<le> j' \<and> j' < n \<longrightarrow> (hk, j) \<noteq> (hk, j')"
      using that d(5) n by (auto simp: word_le_nat_alt word_less_nat_alt)
    then show ?thesis using full by blast
  qed
qed

lemma catching_ahead:
  assumes c: "ratchet_crypto c" and st: "catching c hk ck n0 cnt pub old r0 got k st"
    and lim: "catch_limits n0 cnt old r0" and i: "i < cnt" and new: "i \<notin> got" and got: "got \<subseteq> {..<cnt}"
    and msg: "chain_msg c hk ck n0 pub i (p, ad) (eh, ct)" and foreign: "no_foreign c hk old eh"
    and missing: "\<And>n. unat n = n0 + i \<Longrightarrow> map_of (mkskipped st) (hk, n) = None"
  shows "k \<le> i \<and> (\<exists>st' w'. decrypt c w st eh ct ad = (Ok p, st', w') \<and>
      catching c hk ck n0 cnt pub old r0 (insert i got) (Suc k) st' \<and>
      (\<forall>n. n0 + k \<le> unat n \<and> unat n < n0 + i \<longrightarrow> map_of (mkskipped st') (hk, n) \<noteq> None) \<and>
      (\<forall>n. n0 + i \<le> unat n \<longrightarrow> map_of (mkskipped st') (hk, n) = map_of (mkskipped st) (hk, n)))"
proof -
  have "n0 + i < 2 ^ 32" using lim i by (simp add: catch_limits_def)
  then obtain n :: u32 where n: "unat n = n0 + i" by (rule unat_u32)
  obtain m t where ki: "k \<le> i" and dec: "decrypt c w st eh ct ad =
       (Ok p, st\<lparr>mkskipped := m, ck_r := Some (chain_key c 1 (chain_key c k ck)), nr := nr st + 1,
                received_messages := finsert (pub, n) (received_messages st)\<rparr>, w\<lparr>ticks := t\<rparr>)"
    and skip: "skip_loop c hk n (nr st) (chain_key c k ck) (mkskipped st) w = (Ok m, w\<lparr>ticks := t\<rparr>)"
    by (rule catching_decrypts [OF c st lim i new got msg foreign n missing [OF n]])
  let ?st' = "st\<lparr>mkskipped := m, ck_r := Some (chain_key c 1 (chain_key c k ck)), nr := nr st + 1,
                received_messages := finsert (pub, n) (received_messages st)\<rparr>"
  note d = catchingD [OF st] and store = catching_skip [OF st lim skip n i ki]
  have inv: "ratchet_inv ?st'" using st_safeD decrypt_safe [OF c d(1), of w eh ct ad] dec by metis
  have nr': "unat (nr st + 1) = n0 + Suc k"
    using d(5,4) lim unat_add_lem [of "nr st" 1] by (simp add: catch_limits_def)
  have kept: "map_of m (hk, j) \<noteq> None"
    if "n0 \<le> unat j" "unat j < n0 + Suc k" "unat j - n0 \<notin> insert i got" for j
    using that ki store(3,4) [of j] d(8) [of j] by (cases "unat j < n0 + k") auto
  have "card (insert i got) = Suc (card got)" using got new finite_subset [OF got] by simp
  then have "fcard (finsert (pub, n) (received_messages st)) \<le> r0 + card (insert i got)"
    using d(10) by (simp add: fcard_finsert_if)
  then have "catching c hk ck n0 cnt pub old r0 (insert i got) (Suc k) ?st'"
    using inv d(2) nr' ki i store(1,2) kept d(9) n
    unfolding catching_def by (auto simp: chain_key_add)
  with dec store(3,4) ki show ?thesis by (intro conjI exI) auto
qed

lemma catching_step:
  assumes c: "ratchet_crypto c" and lim: "catch_limits n0 cnt old r0" and i: "i < cnt" "i \<notin> got" and got: "got \<subseteq> {..<cnt}"
    and msg: "chain_msg c hk ck n0 pub i m s" "no_foreign c hk old (fst s)"
    and st: "catching c hk ck n0 cnt pub old r0 got k st"
  obtains st' w' k' where "decrypt c w st (fst s) (snd s) (snd m) = (Ok (fst m), st', w')"
    "catching c hk ck n0 cnt pub old r0 (insert i got) k' st'"
proof -
  have msg': "chain_msg c hk ck n0 pub i (fst m, snd m) (fst s, snd s)" using msg(1) by simp
  show thesis
  proof (cases "\<exists>n. unat n = n0 + i \<and> map_of (mkskipped st) (hk, n) \<noteq> None")
    case True
    then show thesis
      using catching_stored [OF c st msg' msg(2) finite_subset [OF got finite_lessThan]] that by blast
  next
    case False
    then show thesis using catching_ahead [OF c st lim i got msg' msg(2)] that by blast
  qed
qed

lemma catching_receive:
  assumes c: "ratchet_crypto c" and lim: "catch_limits n0 cnt old r0"
    and msgs: "\<And>i. i < cnt \<Longrightarrow> chain_msg c hk ck n0 pub i (ms ! i) (sealed ! i) \<and> no_foreign c hk old (fst (sealed ! i))"
    and st: "catching c hk ck n0 cnt pub old r0 got k st" and "got \<subseteq> {..<cnt}"
    and "distinct idx" and "set idx \<subseteq> {..<cnt} - got"
  shows "receive_all c w st (map (\<lambda>i. (snd (ms ! i), sealed ! i)) idx) = map (\<lambda>i. Ok (fst (ms ! i))) idx"
  using st assms(5-)
proof (induction idx arbitrary: got k st w)
  case Nil
  then show ?case by simp
next
  case (Cons i idx)
  have i: "i < cnt" "i \<notin> got" and got: "got \<subseteq> {..<cnt}" using Cons.prems by auto
  note msg = conjunct1 [OF msgs [OF i(1)]] conjunct2 [OF msgs [OF i(1)]]
  obtain st' w' k' where
      dec: "decrypt c w st (fst (sealed ! i)) (snd (sealed ! i)) (snd (ms ! i)) = (Ok (fst (ms ! i)), st', w')"
      and st': "catching c hk ck n0 cnt pub old r0 (insert i got) k' st'"
    by (rule catching_step [OF c lim i got msg Cons.prems(1)])
  have "receive_all c w' st' (map (\<lambda>i. (snd (ms ! i), sealed ! i)) idx) = map (\<lambda>i. Ok (fst (ms ! i))) idx"
    by (rule Cons.IH [OF st']) (use Cons.prems i in auto)
  with dec show ?case by (cases "sealed ! i") simp
qed

section \<open>A receiver in step with the sender\<close>

text \<open>
  \<open>b\<close> is on the chain \<open>a\<close> sends on and has seen all of it so far.
\<close>

definition in_step :: "RatchetState \<Rightarrow> RatchetState \<Rightarrow> bool" where
  "in_step a b \<longleftrightarrow> hk_r b \<noteq> None \<and> hk_s a = hk_r b \<and> nr b = ns a \<and> nhk_r b \<notin> set (held_keys b)"

definition batch_limits :: "RatchetState \<Rightarrow> nat \<Rightarrow> bool" where
  "batch_limits b cnt \<longleftrightarrow>
     length (mkskipped b) + 2 * cnt \<le> MAX_SKIPPED_KEYS \<and>
     fcard (received_messages b) + cnt \<le> MAX_RECEIVED_TRACKING \<and> unat (nr b) + cnt + 1000 < 2 ^ 32"

definition sealed_apart :: "crypto \<Rightarrow> RatchetState \<Rightarrow> (bytes \<times> bytes) list \<Rightarrow> bool" where
  "sealed_apart c b sealed \<longleftrightarrow>
     (\<forall>s \<in> set sealed. \<forall>hk \<in> set (held_keys b). hk_r b \<noteq> Some hk \<longrightarrow> \<not> is_ok (decrypt_header_with_key c hk (fst s)))"

lemma lead_catching:
  assumes ok: "crypto_ok c" and l: "lead c b a" and step: "hk_r b \<noteq> None" "hk_s a = hk_r b" "nr b = ns a"
    and lim: "batch_limits b (length ms)" and send: "send_all c a ms = (Ok sealed, a')"
    and apart: "sealed_apart c b sealed"
  obtains hk ck pub where
    "catching c hk ck (unat (nr b)) (length ms) pub (dom (map_of (mkskipped b))) (fcard (received_messages b)) {} 0 b"
    "catch_limits (unat (nr b)) (length ms) (dom (map_of (mkskipped b))) (fcard (received_messages b))"
    "\<And>i. i < length ms \<Longrightarrow> chain_msg c hk ck (unat (nr b)) pub i (ms ! i) (sealed ! i) \<and>
       no_foreign c hk (dom (map_of (mkskipped b))) (fst (sealed ! i))"
    "\<And>n. unat (nr b) \<le> unat n \<Longrightarrow> map_of (mkskipped b) (hk, n) = None"
    "length sealed = length ms"
proof -
  note inv = leadD(1,2) [OF l]
  obtain hk where hk: "hk_r b = Some hk" "hk_s a = Some hk" using step by auto
  then have "ck_s a \<noteq> None" using ratchet_invD(4) [OF inv(2)] by simp
  then obtain ck where ck: "ck_s a = Some ck" "ck_r b = Some ck"
      and received: "\<And>k n. (k, n) |\<in>| received_messages b \<Longrightarrow> n < ns a"
      and stored: "\<And>n. map_of (mkskipped b) (hk, n) \<noteq> None \<Longrightarrow> n < ns a"
    using leadD(10) [OF l] step hk by (auto simp: follows_def)
  have ns: "ns a = nr b" using step by simp
  have above: "map_of (mkskipped b) (hk, n) = None" if "unat (nr b) \<le> unat n" for n
    using that stored [of n] ns by (cases "map_of (mkskipped b) (hk, n)") (auto simp: word_less_nat_alt)
  note sent = send_all_msgs [OF ok inv(2) ck(1) hk(2) send, unfolded ns]
  have "distinct_keys (mkskipped b)" using wf_stateD(11) [OF ratchet_invD(1) [OF inv(1)]] by (rule wf_skippedD)
  then have card: "card (dom (map_of (mkskipped b))) = length (mkskipped b)" by (simp add: hm.len_card)
  have "catching c hk ck (unat (nr b)) (length ms) (snd (dh_pair a)) (dom (map_of (mkskipped b)))
      (fcard (received_messages b)) {} 0 b"
    using inv(1) hk(1) ck(2) above received ns unfolding catching_def
    by (fastforce simp: word_less_nat_alt)
  moreover have "catch_limits (unat (nr b)) (length ms) (dom (map_of (mkskipped b))) (fcard (received_messages b))"
    using lim card by (simp add: catch_limits_def batch_limits_def finite_dom_map_of)
  moreover have "no_foreign c hk (dom (map_of (mkskipped b))) (fst (sealed ! i))" if "i < length ms" for i
    unfolding no_foreign_def
  proof (clarify)
    fix h n s assume "map_of (mkskipped b) (h, n) = Some s" and other: "h \<noteq> hk"
      and opens: "is_ok (decrypt_header_with_key c h (fst (sealed ! i)))"
    then have "h \<in> set (held_keys b)" by (intro held_keysI(1))
    moreover have "sealed ! i \<in> set sealed" using that sent by simp
    ultimately show False using apart other opens hk(1) by (auto simp: sealed_apart_def)
  qed
  ultimately show ?thesis using that sent above by blast
qed

lemma in_step_lead:
  assumes "linked c a b" and "in_step a b"
  shows "lead c b a"
proof -
  have "\<not> lead c a b"
    using assms(2) leadD(7) [of c a b] held_keysI(2) [of b "nhk_r b"] by (auto simp: in_step_def)
  then show ?thesis using assms(1) by (simp add: linked_def)
qed

lemma in_step_catching:
  assumes ok: "crypto_ok c" and conv: "conversation c a b" and step: "in_step a b"
    and lim: "batch_limits b (length ms)" and send: "send_all c a ms = (Ok sealed, a')"
    and apart: "sealed_apart c b sealed"
  obtains hk ck pub where
    "catching c hk ck (unat (nr b)) (length ms) pub (dom (map_of (mkskipped b))) (fcard (received_messages b)) {} 0 b"
    "catch_limits (unat (nr b)) (length ms) (dom (map_of (mkskipped b))) (fcard (received_messages b))"
    "\<And>i. i < length ms \<Longrightarrow> chain_msg c hk ck (unat (nr b)) pub i (ms ! i) (sealed ! i) \<and>
       no_foreign c hk (dom (map_of (mkskipped b))) (fst (sealed ! i))"
    "\<And>n. unat (nr b) \<le> unat n \<Longrightarrow> map_of (mkskipped b) (hk, n) = None"
    "length sealed = length ms"
proof -
  have l: "lead c b a" by (rule in_step_lead [OF conversation_linked [OF conv ok] step])
  have "hk_r b \<noteq> None" "hk_s a = hk_r b" "nr b = ns a" using step by (auto simp: in_step_def)
  then show thesis by (rule lead_catching [OF ok l _ _ _ lim send apart]) (rule that)
qed

section \<open>A run on the executable instance\<close>

lemma send_all_total:
  assumes "crypto_ok c" and "ratchet_inv st" and "ck_s st \<noteq> None"
    and "\<forall>m \<in> set ms. length (snd m) \<le> MAX_AD_SIZE"
    and "unat (ns st) + length ms < 2 ^ 32" and "unat (header_nonce_counter st) + length ms < 2 ^ 64"
  shows "\<exists>sealed st'. send_all c st ms = (Ok sealed, st')"
  using assms(2-)
proof (induction ms arbitrary: st)
  case Nil
  then show ?case by simp
next
  case (Cons m ms)
  obtain p ad where m: "m = (p, ad)" by (cases m)
  obtain ck where ck: "ck_s st = Some ck" using Cons.prems(2) by auto
  let ?st1 = "st\<lparr>ck_s := Some (chain_key c 1 ck), ns := ns st + 1, header_nonce_counter := header_nonce_counter st + 1\<rparr>"
  obtain eh ct where enc: "encrypt c st p ad = (Ok (eh, ct), ?st1)"
    using encrypt_succeeds [OF assms(1) Cons.prems(1) ck, of ad p] Cons.prems(3-5) m by auto
  have "unat (ns st + 1) = unat (ns st) + 1" "unat (header_nonce_counter st + 1) = unat (header_nonce_counter st) + 1"
    using Cons.prems(4,5) unat_add_lem [of "ns st" 1] unat_add_lem [of "header_nonce_counter st" 1] by simp_all
  then obtain sealed st' where "send_all c ?st1 ms = (Ok sealed, st')"
    using Cons.IH [OF encrypt_inv(1) [OF ratchet_crypto_ok [OF assms(1)] Cons.prems(1) enc]] Cons.prems(3-5) by auto
  with enc show ?case by (simp add: m)
qed

text \<open>Two sessions after their first message.\<close>

lemma demo_exchange:
  obtains a b where "conversation reference_crypto a b" "lead reference_crypto b a"
    "hk_s a = Some (replicate 32 143)" "hk_r b = hk_s a" "nhk_r b = replicate 32 147"
    "nr b = 1" "ns a = 1" "ns b = 0" "header_nonce_counter a = 1" "header_nonce_counter b = 0"
    "mkskipped b = []" "fcard (received_messages b) = 1" "snd (dh_pair a) = replicate 32 3"
    "hk_r a = None" "ck_r a = None" "mkskipped a = []" "received_messages a = {||}" "ck_s a \<noteq> None"
proof -
  define a0 where "a0 = \<lparr> dh_pair = (replicate 32 3, replicate 32 3), dh_remote = Some (replicate 32 5),
           rk = replicate 32 145, ck_s = Some (replicate 32 146), ck_r = None,
           hk_s = Some (replicate 32 143), hk_r = None, nhk_s = replicate 32 147, nhk_r = replicate 32 142,
           ns = 0, nr = 0, pn = 0, mkskipped = [], header_nonce_counter = 0, is_sender = True,
           received_messages = {||} \<rparr>"
  note a0 = demo_sender [folded a0_def]
  have base: "x25519_base reference_crypto (replicate 32 5) = replicate 32 5" by (simp add: run_simps)
  obtain b0 where b0: "init_receiver_state reference_crypto (replicate 32 7) (replicate 32 5, replicate 32 5) = Ok b0"
      "mkskipped b0 = []" "hk_r b0 = None" "received_messages b0 = {||}" "ck_r b0 = None" "header_nonce_counter b0 = 0"
    by (auto simp: init_receiver_state_def run_simps)
  have conv: "conversation reference_crypto a0 b0"
    using a0 b0(1) by (intro conversation.start [of _ demo_world "replicate 32 7" "replicate 32 5"]) (simp_all add: base)
  have lead0: "lead reference_crypto a0 b0"
    by (rule init_lead [OF reference_crypto_ok, of "replicate 32 7" "replicate 32 5" demo_world])
      (use a0 b0(1) in \<open>simp_all add: base\<close>)
  then have "ratchet_inv a0" by (rule leadD)
  from encrypt_succeeds [OF reference_crypto_ok this, of "replicate 32 146" "[]" "[]"]
  obtain eh ct a where enc: "encrypt reference_crypto a0 [] [] = (Ok (eh, ct), a)"
      and a: "a = a0\<lparr>ck_s := Some (chain_key reference_crypto 1 (replicate 32 146)), ns := 1, header_nonce_counter := 1\<rparr>"
    by (auto simp: a0_def MAX_AD_SIZE_def)
  have guard: "deliverable reference_crypto a0 b0 eh"
    using b0 by (simp add: deliverable_def held_keys_def within_limits_def a0_def)
  obtain b w where dec: "decrypt reference_crypto demo_world b0 eh ct [] = (Ok [], b, w)" and lead: "lead reference_crypto b a"
      and b: "nr b = 1" "hk_r b = hk_s a" "nhk_r b = nhk_s a" "fcard (received_messages b) = 1" "mkskipped b = []" "ns b = 0"
    by (rule delivered_with_ratchet [OF reference_crypto_ok lead0 enc guard, of demo_world])
      (use b0 in \<open>auto simp: a0_def\<close>)
  have conv: "conversation reference_crypto a b" by (rule conversation.delivered [OF conv enc guard dec])
  show thesis
    by (rule that [OF conv lead _ b(2) _ b(1) _ b(6) _ _ b(5,4)])
      (use b(3) decrypt_counters(1) [OF dec] b0(6) in \<open>simp_all add: a a0_def\<close>)
qed

lemma demo_in_step:
  assumes "length ms \<le> 3" and "\<forall>m \<in> set ms. snd m = []"
  obtains a b sealed a' where "conversation reference_crypto a b" "in_step a b" "batch_limits b 3"
    "send_all reference_crypto a ms = (Ok sealed, a')" "sealed_apart reference_crypto b sealed"
proof (rule demo_exchange)
  fix a b
  assume conv: "conversation reference_crypto a b" and lead: "lead reference_crypto b a"
    and a: "hk_s a = Some (replicate 32 143)" "ns a = 1" "header_nonce_counter a = 1" "ck_s a \<noteq> None"
    and b: "hk_r b = hk_s a" "nhk_r b = replicate 32 147" "nr b = 1" "mkskipped b = []" "fcard (received_messages b) = 1"
  have "in_step a b" "batch_limits b 3"
    using a b by (simp_all add: in_step_def batch_limits_def held_keys_def MAX_SKIPPED_KEYS_def MAX_RECEIVED_TRACKING_def)
  moreover have "sealed_apart reference_crypto b sealed" for sealed
    using a b by (simp add: sealed_apart_def held_keys_def)
  moreover have "\<exists>sealed a'. send_all reference_crypto a ms = (Ok sealed, a')"
    by (rule send_all_total [OF reference_crypto_ok leadD(2) [OF lead] a(4)])
      (use assms a in \<open>auto simp: MAX_AD_SIZE_def\<close>)
  ultimately show thesis using that [OF conv] by blast
qed

section \<open>Properties\<close>

text \<open>Messages of a chain arrive in any order: whatever selection of a batch reaches a receiver in
  step with the sender, in whatever order, each message decrypts to its own plaintext.\<close>

lemma chain_any_order:
  assumes "crypto_ok c" and "conversation c a b" and "in_step a b" and "batch_limits b (length ms)"
    and "send_all c a ms = (Ok sealed, a')" and "sealed_apart c b sealed"
    and "distinct idx" and "set idx \<subseteq> {..<length ms}"
  shows "receive_all c w b (map (\<lambda>i. (snd (ms ! i), sealed ! i)) idx) = map (\<lambda>i. Ok (fst (ms ! i))) idx"
  by (rule in_step_catching [OF assms(1-6)])
    (rule catching_receive [OF ratchet_crypto_ok [OF assms(1)], where got = "{}" and k = 0], use assms(7,8) in auto)

text \<open>Replay after a gap. The receiver misses the first of three messages, takes the second and
  the third, and then accepts the second again: because the chain counter moves by one message
  whatever the gap, receiving the third stores the key of the second anew, and stored keys are
  tried before duplicates are looked for.\<close>

lemma replay_after_gap:
  assumes "crypto_ok c" and "conversation c a b" and "in_step a b" and "batch_limits b 3"
    and "send_all c a [m0, m1, m2] = (Ok [s0, s1, s2], a')" and "sealed_apart c b [s0, s1, s2]"
  shows "receive_all c w b [(snd m1, s1), (snd m2, s2), (snd m1, s1)] = [Ok (fst m1), Ok (fst m2), Ok (fst m1)]"
proof -
  have "batch_limits b (length [m0, m1, m2])" using assms(4) by (simp add: numeral_3_eq_3)
  note start = in_step_catching [OF assms(1-3) this assms(5,6)]
  note c = ratchet_crypto_ok [OF assms(1)]
  show ?thesis
  proof (rule start)
    fix hk ck pub
    let ?n0 = "unat (nr b)" and ?old = "dom (map_of (mkskipped b))" and ?r0 = "fcard (received_messages b)"
    let ?catching = "catching c hk ck ?n0 3 pub ?old ?r0"
    assume st0: "catching c hk ck ?n0 (length [m0, m1, m2]) pub ?old ?r0 {} 0 b"
      and lim0: "catch_limits ?n0 (length [m0, m1, m2]) ?old ?r0"
      and msgs: "\<And>i. i < length [m0, m1, m2] \<Longrightarrow> chain_msg c hk ck ?n0 pub i ([m0, m1, m2] ! i) ([s0, s1, s2] ! i) \<and>
         no_foreign c hk ?old (fst ([s0, s1, s2] ! i))"
      and none: "\<And>n. ?n0 \<le> unat n \<Longrightarrow> map_of (mkskipped b) (hk, n) = None"
    have lim: "catch_limits ?n0 3 ?old ?r0" and st: "?catching {} 0 b" using lim0 st0 by (simp_all add: numeral_3_eq_3)
    have msg1: "chain_msg c hk ck ?n0 pub 1 (fst m1, snd m1) (fst s1, snd s1)" "no_foreign c hk ?old (fst s1)"
      and msg2: "chain_msg c hk ck ?n0 pub 2 (fst m2, snd m2) (fst s2, snd s2)" "no_foreign c hk ?old (fst s2)"
      using msgs [of 1] msgs [of 2] by simp_all
    obtain b1 w1 where dec1: "decrypt c w b (fst s1) (snd s1) (snd m1) = (Ok (fst m1), b1, w1)"
        and st1: "?catching {1} (Suc 0) b1"
        and none1: "\<And>n. ?n0 + 1 \<le> unat n \<Longrightarrow> map_of (mkskipped b1) (hk, n) = None"
      using catching_ahead [OF c st lim _ _ _ msg1, of w] none by auto
    obtain b2 w2 where dec2: "decrypt c w1 b1 (fst s2) (snd s2) (snd m2) = (Ok (fst m2), b2, w2)"
        and st2: "?catching (insert 2 {1}) (Suc (Suc 0)) b2"
        and again: "\<And>n. ?n0 + Suc 0 \<le> unat n \<Longrightarrow> unat n < ?n0 + 2 \<Longrightarrow> map_of (mkskipped b2) (hk, n) \<noteq> None"
      using catching_ahead [OF c st1 lim _ _ _ msg2, of w1] none1 by auto
    have "unat (nr b) + 1 < 2 ^ 32" using assms(4) by (simp add: batch_limits_def)
    then have n1: "unat (nr b + 1) = ?n0 + 1" using unat_add_lem [of "nr b" 1] by simp
    obtain b3 where "decrypt c w2 b2 (fst s1) (snd s1) (snd m1) = (Ok (fst m1), b3, w2)"
      using catching_stored [OF c st2 msg1 _ again n1, of w2] n1 by auto
    with dec1 dec2 show ?thesis by (cases s1; cases s2) simp
  qed
qed

end
