(* ===== verification/Curve_Utils.thy ===== *)
theory Curve_Utils
  imports Primitives
begin

text \<open>
  \<^verbatim>\<open>src/utils.rs\<close> and \<^verbatim>\<open>src/hashes.rs\<close>: the encoding of public keys, their validation,
  clamping, the key pairs of XEdDSA and the domain-separated hashes. The arithmetic of
  \<^verbatim>\<open>curve25519-dalek\<close> is a parameter, a record of operations on points and scalars, with its
  documented laws as predicates.
\<close>

section \<open>The curve\<close>

record ('p, 's) curve =
  smul :: "'s \<Rightarrow> 'p \<Rightarrow> 'p" \<comment> \<open>\<open>point * scalar\<close>\<close>
  padd :: "'p \<Rightarrow> 'p \<Rightarrow> 'p"
  psub :: "'p \<Rightarrow> 'p \<Rightarrow> 'p"
  mul_by_cofactor :: "'p \<Rightarrow> 'p"
  identity :: 'p
  basepoint :: 'p
  compress :: "'p \<Rightarrow> bytes"
  decompress :: "bytes \<Rightarrow> 'p option"
  mont_to_edwards :: "bytes \<Rightarrow> u8 \<Rightarrow> 'p option" \<comment> \<open>\<open>MontgomeryPoint::to_edwards(sign)\<close>\<close>
  map_to_curve :: "(bytes \<Rightarrow> bytes) \<Rightarrow> bytes \<Rightarrow> 'p" \<comment> \<open>\<open>nonspec_map_to_curve\<close> with a digest\<close>
  scalar_zero :: 's
  scalar_add :: "'s \<Rightarrow> 's \<Rightarrow> 's"
  scalar_mul :: "'s \<Rightarrow> 's \<Rightarrow> 's"
  scalar_neg :: "'s \<Rightarrow> 's"
  scalar_from_bytes :: "bytes \<Rightarrow> 's" \<comment> \<open>\<open>from_bytes_mod_order\<close>\<close>
  scalar_from_wide :: "bytes \<Rightarrow> 's" \<comment> \<open>\<open>from_bytes_mod_order_wide\<close>\<close>
  scalar_from_canonical :: "bytes \<Rightarrow> 's option"
  scalar_to_bytes :: "'s \<Rightarrow> bytes"

text \<open>The value of a little-endian byte string, and the order of the prime-order subgroup.\<close>

fun le_nat :: "bytes \<Rightarrow> nat" where
  "le_nat [] = 0"
| "le_nat (b # bs) = unat b + 256 * le_nat bs"

definition group_order :: nat where
  "group_order = 2 ^ 252 + 27742317777372353535851937790883648493"

definition sign_bit :: "('p, 's) curve \<Rightarrow> 'p \<Rightarrow> u8" where
  "sign_bit e p = drop_bit 7 (compress e p ! 31) AND 1"

text \<open>
  The subgroup of prime order: the base point, what the cofactor takes there, and multiples.
  Scalars act on it as a field of \<open>group_order\<close> elements; encodings are faithful.
\<close>

inductive prime_order :: "('p, 's) curve \<Rightarrow> 'p \<Rightarrow> bool" for e where
  base: "prime_order e (basepoint e)"
| cofactor: "prime_order e (mul_by_cofactor e p)"
| smul: "prime_order e p \<Longrightarrow> prime_order e (smul e s p)"

definition group_laws :: "('p, 's) curve \<Rightarrow> bool" where
  "group_laws e \<longleftrightarrow>
     (\<forall>p q. psub e (padd e p q) q = p) \<and>
     (\<forall>s t p. prime_order e p \<longrightarrow> smul e (scalar_add e s t) p = padd e (smul e s p) (smul e t p)) \<and>
     (\<forall>s t p. prime_order e p \<longrightarrow> smul e (scalar_mul e s t) p = smul e s (smul e t p)) \<and>
     (\<forall>s p. prime_order e p \<longrightarrow> smul e (scalar_neg e s) p = psub e (identity e) (smul e s p)) \<and>
     (\<forall>s p. prime_order e p \<longrightarrow> smul e s p = identity e \<longrightarrow> s = scalar_zero e \<or> p = identity e) \<and>
     (\<forall>p. prime_order e p \<longrightarrow> mul_by_cofactor e p = identity e \<longrightarrow> p = identity e) \<and>
     (\<forall>s. scalar_neg e s = scalar_zero e \<longrightarrow> s = scalar_zero e) \<and>
     basepoint e \<noteq> identity e"

definition encoding_laws :: "('p, 's) curve \<Rightarrow> bool" where
  "encoding_laws e \<longleftrightarrow>
     (\<forall>p. is_array 32 (compress e p) \<and> decompress e (compress e p) = Some p) \<and>
     (\<forall>s. is_array 32 (scalar_to_bytes e s) \<and> scalar_from_canonical e (scalar_to_bytes e s) = Some s) \<and>
     (\<forall>b. scalar_from_bytes e b = scalar_zero e \<longleftrightarrow> group_order dvd le_nat b) \<and>
     (\<forall>p. sign_bit e p = 1 \<longrightarrow> sign_bit e (psub e (identity e) p) = 0)"

definition curve_ok :: "('p, 's) curve \<Rightarrow> bool" where
  "curve_ok e \<longleftrightarrow> group_laws e \<and> encoding_laws e"

section \<open>Encoding public keys\<close>

datatype DecodeError = InvalidLength | InvalidPrefix

definition encode_public_key :: "bytes \<Rightarrow> bytes" where
  "encode_public_key key = 0x05 # key"

definition decode_public_key :: "bytes \<Rightarrow> (bytes, DecodeError) result" where
  "decode_public_key key = (if key ! 0 \<noteq> 0x05 then Err InvalidPrefix else Ok (drop 1 key))"

interpretation pubkey: fixed_codec encode_public_key decode_public_key "is_array 32" 33
proof
  fix b k assume "length b = 33" and "decode_public_key b = Ok k"
  then show "encode_public_key k = b \<and> is_array 32 k"
    by (cases b) (auto simp: encode_public_key_def decode_public_key_def split: if_splits)
qed (simp_all add: encode_public_key_def decode_public_key_def)

lemma decode_public_key_no_Panic [simp]: "decode_public_key k \<noteq> Panic"
  by (simp add: decode_public_key_def)

section \<open>Keys on the curve\<close>

definition u_to_y :: "('p, 's) curve \<Rightarrow> bytes \<Rightarrow> ('p, 'e) result" where
  "u_to_y e u = expect (mont_to_edwards e u 0)"

definition clamp_private_key :: "bytes \<Rightarrow> bytes" where
  "clamp_private_key u =
     (let u1 = u[0 := u ! 0 AND 248];
          u2 = u1[31 := u1 ! 31 AND 127]
      in u2[31 := u2 ! 31 OR 64])"

definition calculate_key_pair :: "('p, 's) curve \<Rightarrow> bytes \<Rightarrow> 's \<times> 'p" where
  "calculate_key_pair e u =
     (let k = scalar_from_bytes e (clamp_private_key u);
          ed = smul e k (basepoint e);
          sign = drop_bit 7 (compress e ed ! 31) AND 1;
          priv_key = (if sign = 1 then scalar_neg e k else k)
      in (priv_key, smul e priv_key (basepoint e)))"

definition convert_mont :: "('p, 's) curve \<Rightarrow> bytes \<Rightarrow> ('p, 'e) result" where
  "convert_mont e u = u_to_y e (u[31 := u ! 31 AND 127])"

definition is_valid_public_key :: "('p, 's) curve \<Rightarrow> bytes \<Rightarrow> (bool, 'e) result" where
  "is_valid_public_key e pk =
     (case decode_public_key pk of
        Err _ \<Rightarrow> Ok False
      | Panic \<Rightarrow> Panic
      | Ok decoded \<Rightarrow>
          if list_all (\<lambda>b. b = 0) decoded then Ok False
          else and_then (convert_mont e decoded) (\<lambda>edwards.
            if edwards = identity e then Ok False
            else if mul_by_cofactor e edwards = identity e then Ok False
            else Ok True))"

section \<open>Domain-separated hashes\<close>

definition hash_prefix :: "u8 \<Rightarrow> bytes" where
  "hash_prefix i = (replicate 32 0xFF)[0 := 0xFF - i]"

definition hash_i :: "crypto \<Rightarrow> u8 \<Rightarrow> bytes \<Rightarrow> bytes" where
  "hash_i c i x = sha512 c (hash_prefix i @ x)"

text \<open>\<^verbatim>\<open>SignalHash2\<close>: the hasher as the bytes it has absorbed.\<close>

type_synonym SignalHash2 = bytes

definition signal_hash2_default :: SignalHash2 where
  "signal_hash2_default = (replicate 32 0xFF)[0 := 0xFD]"

definition signal_hash2_update :: "SignalHash2 \<Rightarrow> bytes \<Rightarrow> SignalHash2" where
  "signal_hash2_update h data = h @ data"

definition signal_hash2_finalize :: "crypto \<Rightarrow> SignalHash2 \<Rightarrow> bytes" where
  "signal_hash2_finalize c h = sha512 c h"

definition signal_hash2 :: "crypto \<Rightarrow> bytes \<Rightarrow> bytes" where
  "signal_hash2 c x = signal_hash2_finalize c (signal_hash2_update signal_hash2_default x)"

interpretation hprefix: fixed_width hash_prefix "\<lambda>_. True" 32
  by unfold_locales (auto simp: hash_prefix_def dest!: arg_cong [where f = "\<lambda>b. b ! 0"])

section \<open>Clamping\<close>

lemma le_nat_append: "le_nat (a @ b) = le_nat a + 256 ^ length a * le_nat b"
  by (induction a) (simp_all add: algebra_simps)

lemma le_nat_less: "le_nat b < 256 ^ length b"
proof (induction b)
  case (Cons x b)
  have "unat x < 256" using unsigned_less [of x] by simp
  with Cons show ?case by simp
qed simp

lemma le_nat_ones: "le_nat (replicate n 0xFF) + 1 = 256 ^ n"
  by (induction n) simp_all

text \<open>The clamped key is the original with its first and last byte changed.\<close>

lemma clamp_shape:
  assumes "is_array 32 u"
  obtains a mid z where "u = a # mid @ [z]" "is_array 30 mid"
    "clamp_private_key u = (a AND 248) # mid @ [(z AND 127) OR 64]"
proof -
  obtain a v where u: "u = a # v" using assms by (cases u) auto
  have v: "is_array 31 v" "v \<noteq> []" using assms u by auto
  define mid z where "mid = butlast v" and "z = last v"
  then have v': "v = mid @ [z]" and mid: "is_array 30 mid" using v by simp_all
  have "clamp_private_key u = (a AND 248) # mid @ [(z AND 127) OR 64]"
    using mid by (simp add: clamp_private_key_def u v' Let_def list_update_append nth_append)
  with u v' mid show ?thesis using that by simp
qed

lemma low_byte: "unat (a AND 248 :: u8) mod 8 = 0"
proof -
  have "take_bit 3 (a AND 248 :: u8) = 0"
  proof (rule bit_word_eqI)
    fix i assume "i < LENGTH(8)"
    then have "i \<in> {0, 1, 2, 3, 4, 5, 6, 7}" by auto
    then show "bit (take_bit 3 (a AND 248)) i = bit (0 :: u8) i"
      by (auto simp: bit_take_bit_iff bit_and_iff bit_numeral_rec)
  qed
  then have "take_bit 3 (unat (a AND 248)) = 0" by (metis unat_0 unsigned_take_bit_eq)
  then show ?thesis by (simp add: take_bit_eq_mod)
qed

lemma high_byte: "64 \<le> unat ((z AND 127) OR 64 :: u8)" "unat ((z AND 127) OR 64 :: u8) < 128"
proof -
  have "(64 :: u8) \<le> (z AND 127) OR 64" by (rule le_word_or1)
  then show "64 \<le> unat ((z AND 127) OR 64 :: u8)" by (simp add: word_le_nat_alt)
  have "take_bit 7 ((z AND 127) OR 64 :: u8) = (z AND 127) OR 64"
  proof (rule bit_word_eqI)
    fix i assume "i < LENGTH(8)"
    then have "i \<in> {0, 1, 2, 3, 4, 5, 6, 7}" by auto
    then show "bit (take_bit 7 ((z AND 127) OR 64)) i = bit ((z AND 127) OR 64 :: u8) i"
      by (auto simp: bit_take_bit_iff bit_and_iff bit_or_iff bit_numeral_rec)
  qed
  then have "take_bit 7 (unat ((z AND 127) OR 64 :: u8)) = unat ((z AND 127) OR 64 :: u8)"
    by (metis unsigned_take_bit_eq)
  then show "unat ((z AND 127) OR 64 :: u8) < 128" by (simp add: take_bit_nat_eq_self_iff)
qed

lemma clamp_value:
  assumes "is_array 32 u"
  shows "is_array 32 (clamp_private_key u)" "le_nat (clamp_private_key u) mod 8 = 0"
    "2 ^ 254 \<le> le_nat (clamp_private_key u)" "le_nat (clamp_private_key u) < 2 ^ 255"
proof -
  obtain a mid z where mid: "is_array 30 mid"
      and clamp: "clamp_private_key u = (a AND 248) # mid @ [(z AND 127) OR 64]"
    using assms by (rule clamp_shape)
  let ?x = "unat (a AND 248)" and ?y = "unat ((z AND 127) OR 64)"
  have val: "le_nat (clamp_private_key u) = ?x + 256 * (le_nat mid + 256 ^ 30 * ?y)"
    by (simp add: clamp le_nat_append mid)
  show "is_array 32 (clamp_private_key u)" using mid by (simp add: clamp)
  show "le_nat (clamp_private_key u) mod 8 = 0"
  proof -
    obtain q where "?x = 8 * q" using low_byte [of a] by (metis dvd_def mod_0_imp_dvd)
    then have "le_nat (clamp_private_key u) = 8 * (q + 32 * (le_nat mid + 256 ^ 30 * ?y))"
      by (simp only: val) simp
    then show ?thesis by simp
  qed
  show "2 ^ 254 \<le> le_nat (clamp_private_key u)"
    using high_byte(1) [of z] unfolding val by simp
  have "?x < 256" using unsigned_less [of "a AND 248"] by simp
  moreover have "le_nat mid < 256 ^ 30" using le_nat_less [of mid] mid by simp
  ultimately show "le_nat (clamp_private_key u) < 2 ^ 255"
    using high_byte(2) [of z] unfolding val by simp
qed

lemma clamp_idem: "is_array 32 u \<Longrightarrow> clamp_private_key (clamp_private_key u) = clamp_private_key u"
proof (erule clamp_shape)
  fix a mid z assume u: "clamp_private_key u = (a AND 248) # mid @ [(z AND 127) OR 64]" and mid: "is_array 30 mid"
  have "clamp_private_key (x # mid @ [y]) = (x AND 248) # mid @ [(y AND 127) OR 64]" for x y
    using mid by (simp add: clamp_private_key_def Let_def list_update_append nth_append)
  moreover have "a AND 248 AND 248 = a AND 248" by (simp add: and.assoc)
  moreover have "((z AND 127) OR 64) AND 127 OR 64 = (z AND 127) OR 64"
    by (rule bit_word_eqI) (auto simp: bit_and_iff bit_or_iff bit_numeral_rec)
  ultimately show ?thesis by (simp add: u)
qed

text \<open>A clamped key is a multiple of the cofactor but never of the group order.\<close>

lemma clamp_nonzero:
  assumes "is_array 32 u"
  shows "\<not> group_order dvd le_nat (clamp_private_key u)"
proof
  assume dvd: "group_order dvd le_nat (clamp_private_key u)"
  obtain m where m: "le_nat (clamp_private_key u) = 8 * m"
    using clamp_value(2) [OF assms] by (metis dvd_def mod_0_imp_dvd)
  have "coprime group_order 8"
  proof -
    have "odd group_order" by (simp add: group_order_def)
    then have "coprime group_order (2 ^ 3)" by (simp only: coprime_power_right_iff) simp
    then show ?thesis by simp
  qed
  then have "group_order dvd m" using dvd m by (simp add: coprime_dvd_mult_right_iff)
  moreover have "0 < m" "m < group_order"
    using clamp_value(3,4) [OF assms] m by (simp_all add: group_order_def)
  ultimately show False by (simp add: nat_dvd_not_less)
qed

section \<open>Key pairs\<close>

lemma group_lawsD:
  assumes "group_laws e"
  shows "psub e (padd e p q) q = p"
    "prime_order e p \<Longrightarrow> smul e (scalar_add e s t) p = padd e (smul e s p) (smul e t p)"
    "prime_order e p \<Longrightarrow> smul e (scalar_mul e s t) p = smul e s (smul e t p)"
    "prime_order e p \<Longrightarrow> smul e (scalar_neg e s) p = psub e (identity e) (smul e s p)"
    "prime_order e p \<Longrightarrow> smul e s p = identity e \<Longrightarrow> s = scalar_zero e \<or> p = identity e"
    "prime_order e p \<Longrightarrow> mul_by_cofactor e p = identity e \<Longrightarrow> p = identity e"
    "scalar_neg e s = scalar_zero e \<Longrightarrow> s = scalar_zero e" "basepoint e \<noteq> identity e"
  using assms by (simp_all add: group_laws_def)

lemma encoding_lawsD:
  assumes "encoding_laws e"
  shows "is_array 32 (compress e p)" "decompress e (compress e p) = Some p"
    "is_array 32 (scalar_to_bytes e s)" "scalar_from_canonical e (scalar_to_bytes e s) = Some s"
    "scalar_from_bytes e b = scalar_zero e \<longleftrightarrow> group_order dvd le_nat b"
    "sign_bit e p = 1 \<Longrightarrow> sign_bit e (psub e (identity e) p) = 0"
  using assms by (simp_all add: encoding_laws_def)

lemma curve_okD: "curve_ok e \<Longrightarrow> group_laws e" "curve_ok e \<Longrightarrow> encoding_laws e"
  by (simp_all add: curve_ok_def)

lemma sign_bit_01: "sign_bit e p = 0 \<or> sign_bit e p = 1"
proof (cases "bit (drop_bit 7 (compress e p ! 31)) 0")
  case True
  then have "sign_bit e p = 1" by (simp add: sign_bit_def and_one_eq mod_2_eq_odd bit_0)
  then show ?thesis ..
next
  case False
  then have "sign_bit e p = 0" by (simp add: sign_bit_def and_one_eq mod_2_eq_odd bit_0)
  then show ?thesis ..
qed

text \<open>The scalar of a key before the sign is fixed, and what the key pair is.\<close>

definition key_scalar :: "('p, 's) curve \<Rightarrow> bytes \<Rightarrow> 's" where
  "key_scalar e u = scalar_from_bytes e (clamp_private_key u)"

definition key_point :: "('p, 's) curve \<Rightarrow> bytes \<Rightarrow> 'p" where
  "key_point e u =
     (let p = smul e (key_scalar e u) (basepoint e)
      in if sign_bit e p = 1 then psub e (identity e) p else p)"

lemma calculate_key_pair_spec:
  assumes "curve_ok e" and "is_array 32 u"
  shows "snd (calculate_key_pair e u) = smul e (fst (calculate_key_pair e u)) (basepoint e)"
    "snd (calculate_key_pair e u) = key_point e u"
    "sign_bit e (snd (calculate_key_pair e u)) = 0"
    "fst (calculate_key_pair e u) \<noteq> scalar_zero e"
proof -
  note g = group_lawsD [OF curve_okD(1) [OF assms(1)]] and enc = encoding_lawsD [OF curve_okD(2) [OF assms(1)]]
  show "snd (calculate_key_pair e u) = smul e (fst (calculate_key_pair e u)) (basepoint e)"
    by (simp add: calculate_key_pair_def Let_def)
  show point: "snd (calculate_key_pair e u) = key_point e u"
    using g(4) [OF prime_order.base]
    by (simp add: calculate_key_pair_def key_point_def key_scalar_def Let_def sign_bit_def)
  show "sign_bit e (snd (calculate_key_pair e u)) = 0"
    unfolding point using enc(6) sign_bit_01 by (fastforce simp: key_point_def Let_def)
  have "key_scalar e u \<noteq> scalar_zero e"
    using clamp_nonzero [OF assms(2)] enc(5) by (simp add: key_scalar_def)
  then show "fst (calculate_key_pair e u) \<noteq> scalar_zero e"
    using g(7) by (auto simp: calculate_key_pair_def key_scalar_def Let_def)
qed

lemma key_point_prime_order:
  assumes "curve_ok e" and "is_array 32 u"
  shows "prime_order e (key_point e u)" "key_point e u \<noteq> identity e"
    "mul_by_cofactor e (key_point e u) \<noteq> identity e"
proof -
  note g = group_lawsD [OF curve_okD(1) [OF assms(1)]] and spec = calculate_key_pair_spec [OF assms]
  have mult: "key_point e u = smul e (fst (calculate_key_pair e u)) (basepoint e)" using spec(1,2) by simp
  show po: "prime_order e (key_point e u)" unfolding mult by (intro prime_order.intros)
  show "key_point e u \<noteq> identity e"
    unfolding mult using g(5) [OF prime_order.base] g(8) spec(4) by blast
  then show "mul_by_cofactor e (key_point e u) \<noteq> identity e" using g(6) [OF po] by blast
qed

text \<open>
  How X25519 public keys relate to the curve: \<^verbatim>\<open>to_edwards(0)\<close> of the public key of a secret
  is plus or minus the secret times the base point, with sign bit 0; and the coordinate 0 is a
  point of low order.
\<close>

definition birational :: "crypto \<Rightarrow> ('p, 's) curve \<Rightarrow> bool" where
  "birational c e \<longleftrightarrow>
     (\<forall>k. is_array 32 k \<longrightarrow>
        (let u = x25519_base c k in mont_to_edwards e (u[31 := u ! 31 AND 127]) 0 = Some (key_point e k))) \<and>
     (\<forall>p. mont_to_edwards e (replicate 32 0) 0 = Some p \<longrightarrow> mul_by_cofactor e p = identity e)"

lemma convert_public_key:
  assumes "birational c e" and "is_array 32 k"
  shows "convert_mont e (x25519_base c k) = Ok (key_point e k)"
  using assms by (simp add: birational_def convert_mont_def u_to_y_def Let_def)

lemma genuine_key_valid:
  assumes "crypto_ok c" and "curve_ok e" and "birational c e" and "is_array 32 k"
  shows "is_valid_public_key e (encode_public_key (x25519_base c k)) = Ok True"
proof -
  have arr: "is_array 32 (x25519_base c k)"
    using crypto_okD(4) [OF assms(1)] assms(4) by (simp add: x25519_sized_def)
  note point = key_point_prime_order [OF assms(2,4)]
  have "\<not> list_all (\<lambda>b. b = 0) (x25519_base c k)"
  proof
    assume "list_all (\<lambda>b. b = 0) (x25519_base c k)"
    then have "x25519_base c k = replicate 32 0"
      using arr by (intro replicate_eqI) (simp_all add: list_all_iff)
    then have "mont_to_edwards e (replicate 32 0) 0 = Some (key_point e k)"
      using convert_public_key [OF assms(3,4)]
        list_update_same_conv [of 31 "replicate 32 (0 :: u8)" 0]
      by (simp add: convert_mont_def u_to_y_def)
    then show False using assms(3) point(3) by (simp add: birational_def)
  qed
  moreover have "decode_public_key (encode_public_key (x25519_base c k)) = Ok (x25519_base c k)"
    using arr by (rule pubkey.dec_enc)
  ultimately show ?thesis
    using point by (simp add: is_valid_public_key_def convert_public_key [OF assms(3,4)])
qed

section \<open>An executable instance\<close>

text \<open>
  The smallest curve with the laws: points and scalars of order two, every nonzero key the one
  nonzero point, and no security whatever; X25519 keys are the clamped secrets.
\<close>

definition binary_code :: "bool \<Rightarrow> bytes" where
  "binary_code p = (if p then 1 else 0) # replicate 31 0"

definition binary_decode :: "bytes \<Rightarrow> bool option" where
  "binary_decode b = (if b = binary_code True then Some True else if b = binary_code False then Some False else None)"

definition binary_curve :: "(bool, bool) curve" where
  "binary_curve = \<lparr>
     smul = (\<and>), padd = (\<noteq>), psub = (\<noteq>), mul_by_cofactor = (\<lambda>p. p), identity = False, basepoint = True,
     compress = binary_code, decompress = binary_decode,
     mont_to_edwards = (\<lambda>u sign. Some (u \<noteq> replicate 32 0)),
     map_to_curve = (\<lambda>h x. True),
     scalar_zero = False, scalar_add = (\<noteq>), scalar_mul = (\<and>), scalar_neg = (\<lambda>s. s),
     scalar_from_bytes = (\<lambda>b. \<not> group_order dvd le_nat b),
     scalar_from_wide = (\<lambda>b. b \<noteq> replicate 64 0),
     scalar_from_canonical = binary_decode, scalar_to_bytes = binary_code \<rparr>"

definition signing_crypto :: crypto where
  "signing_crypto = reference_crypto\<lparr>x25519_base := clamp_private_key,
     x25519_dh := (\<lambda>a p. map2 (+) (clamp_private_key a) p)\<rparr>"

lemma binary_curve_simps [run_simps]:
  "mont_to_edwards binary_curve u sb = Some (u \<noteq> replicate 32 0)" "identity binary_curve = False"
  "mul_by_cofactor binary_curve p = p" "map_to_curve binary_curve h x = True"
  "scalar_zero binary_curve = False" "scalar_from_wide binary_curve b = (b \<noteq> replicate 64 0)"
  by (simp_all add: binary_curve_def)

lemma binary_decode_code: "binary_decode (binary_code p) = Some p"
  by (cases p) (simp_all add: binary_decode_def binary_code_def)

lemma binary_sign: "sign_bit binary_curve p = 0"
  by (simp add: sign_bit_def binary_curve_def binary_code_def)

lemma binary_curve_ok: "curve_ok binary_curve"
proof -
  have "group_laws binary_curve" by (auto simp: group_laws_def binary_curve_def)
  moreover have "encoding_laws binary_curve"
    unfolding encoding_laws_def binary_sign
    by (simp add: binary_curve_def binary_decode_code) (simp add: binary_code_def)
  ultimately show ?thesis by (simp add: curve_ok_def)
qed

lemma signing_crypto_ok: "crypto_ok signing_crypto"
proof -
  have "is_array 32 (map2 (+) (clamp_private_key a) p)" if "is_array 32 a" "is_array 32 p" for a p
    using clamp_value(1) [OF that(1)] that(2) by simp
  moreover have "map2 (+) a b = map2 (+) b a" for a b :: bytes
    by (simp add: list_eq_iff_nth_eq add.commute min.commute)
  ultimately show ?thesis
    using reference_crypto_ok clamp_value(1)
    by (simp add: crypto_ok_def signing_crypto_def hmac_sized_def hkdf_total_def sha512_sized_def
        x25519_sized_def dh_commutes_def gcm_correct_def cbc_correct_def)
qed

lemma binary_birational: "birational signing_crypto binary_curve"
proof -
  have "key_point binary_curve k = True" if "is_array 32 k" for k
    using clamp_nonzero [OF that] binary_sign
    by (simp add: key_point_def key_scalar_def) (simp add: binary_curve_def)
  moreover have "(clamp_private_key k)[31 := clamp_private_key k ! 31 AND 127] \<noteq> replicate 32 0"
    if "is_array 32 k" for k
  proof
    assume "(clamp_private_key k)[31 := clamp_private_key k ! 31 AND 127] = replicate 32 0"
    then have "(clamp_private_key k)[31 := clamp_private_key k ! 31 AND 127] ! 31 = 0" by simp
    moreover obtain a mid z where "is_array 30 mid" "clamp_private_key k = (a AND 248) # mid @ [(z AND 127) OR 64]"
      using \<open>is_array 32 k\<close> by (rule clamp_shape)
    ultimately have "((z AND 127) OR 64) AND 127 = 0" by (simp add: nth_append list_update_append)
    then have "bit (((z AND 127) OR 64) AND 127) 6 = False" by simp
    then show False by (simp add: bit_and_iff bit_or_iff bit_numeral_rec)
  qed
  ultimately show ?thesis
    by (auto simp: birational_def signing_crypto_def binary_curve_def Let_def)
qed

section \<open>Properties\<close>

text \<open>Clamping a 32-byte key gives a multiple of 8 between 2^254 and 2^255, which is never a multiple
  of the group order, so that the scalar of a key is never zero; and clamping twice is clamping
  once.\<close>

lemma clamped_keys:
  assumes "is_array 32 u"
  shows "is_array 32 (clamp_private_key u) \<and> le_nat (clamp_private_key u) mod 8 = 0 \<and>
    2 ^ 254 \<le> le_nat (clamp_private_key u) \<and> le_nat (clamp_private_key u) < 2 ^ 255 \<and>
    \<not> group_order dvd le_nat (clamp_private_key u) \<and>
    clamp_private_key (clamp_private_key u) = clamp_private_key u"
  using clamp_value [OF assms] clamp_nonzero [OF assms] clamp_idem [OF assms] by simp

text \<open>The key pair of a 32-byte secret: its point is the base point times its scalar, has sign
  bit 0, and is not of low order, and its scalar is not zero.\<close>

lemma key_pair_spec:
  assumes "curve_ok e" and "is_array 32 u" and "calculate_key_pair e u = (a, A)"
  shows "A = smul e a (basepoint e) \<and> sign_bit e A = 0 \<and> a \<noteq> scalar_zero e \<and>
    A \<noteq> identity e \<and> mul_by_cofactor e A \<noteq> identity e"
  using calculate_key_pair_spec [OF assms(1,2)] key_point_prime_order [OF assms(1,2)] assms(3) by simp

text \<open>A 33-byte public key decodes exactly to the key it encodes; any other first byte is refused.\<close>

lemma public_key_roundtrip:
  assumes "length b = 33"
  shows "(decode_public_key b = Ok k \<longleftrightarrow> is_array 32 k \<and> encode_public_key k = b) \<and>
    (decode_public_key b = Err x \<longleftrightarrow> x = InvalidPrefix \<and> hd b \<noteq> 5)"
proof
  show "decode_public_key b = Ok k \<longleftrightarrow> is_array 32 k \<and> encode_public_key k = b"
    by (rule pubkey.dec_iff [OF assms])
  show "decode_public_key b = Err x \<longleftrightarrow> x = InvalidPrefix \<and> hd b \<noteq> 5"
    using assms by (cases b) (auto simp: decode_public_key_def)
qed

text \<open>C40: Validation accepts a key exactly when its prefix is right, it is not all zero, and it lifts to
  a point that is not of low order; and it panics exactly when a key with the right prefix that
  is not all zero does not lift to the curve, instead of refusing it.\<close>

theorem key_validation:
  assumes "length pk = 33"
  shows "(is_valid_public_key e pk = Ok True \<longleftrightarrow>
      (\<exists>k p. pk = 5 # k \<and> k \<noteq> replicate 32 0 \<and> mont_to_edwards e (k[31 := k ! 31 AND 127]) 0 = Some p \<and>
        p \<noteq> identity e \<and> mul_by_cofactor e p \<noteq> identity e)) \<and>
    (is_valid_public_key e pk = Panic \<longleftrightarrow>
      (\<exists>k. pk = 5 # k \<and> k \<noteq> replicate 32 0 \<and> mont_to_edwards e (k[31 := k ! 31 AND 127]) 0 = None))"
proof -
  obtain t k where pk: "pk = t # k" and k: "is_array 32 k" using assms by (cases pk) auto
  have "list_all (\<lambda>b. b = 0) k \<longleftrightarrow> k = replicate 32 0"
    using k by (auto simp: list_all_iff intro: replicate_eqI)
  then show ?thesis
    by (cases "mont_to_edwards e (k[31 := k ! 31 AND 127]) 0")
      (auto simp: pk is_valid_public_key_def decode_public_key_def convert_mont_def u_to_y_def)
qed

theorem key_validation_witness:
  "is_valid_public_key binary_curve (5 # replicate 32 1) = Ok True \<and>
   is_valid_public_key (binary_curve\<lparr>mont_to_edwards := \<lambda>u s. None\<rparr>) (5 # replicate 32 1) = Panic"
proof
  have neq: "replicate 32 1 \<noteq> replicate 32 (0 :: u8)" "(replicate 32 (1 :: u8))[31 := 1] \<noteq> replicate 32 0"
    by (auto dest!: arg_cong [where f = "\<lambda>b. b ! 0"])
  show "is_valid_public_key binary_curve (5 # replicate 32 1) = Ok True"
    using neq by (simp add: key_validation binary_curve_simps)
  show "is_valid_public_key (binary_curve\<lparr>mont_to_edwards := \<lambda>u s. None\<rparr>) (5 # replicate 32 1) = Panic"
    using neq by (simp add: key_validation)
qed

text \<open>The hashes are separated by domain: the little-endian prefix is 2^256 - 1 - i, inputs hashed
  under different indices, or different inputs under one index, are never the same string, and
  the hasher used for the map to the curve is the hash of index 2.\<close>

lemma hash_domains:
  "le_nat (hash_prefix i) + unat i = 2 ^ 256 - 1 \<and>
   (hash_prefix i @ x = hash_prefix j @ y \<longleftrightarrow> i = j \<and> x = y) \<and>
   signal_hash2 c x = hash_i c 2 x"
proof (intro conjI)
  have "unat (0xFF - i) = 255 - unat i"
  proof -
    have "unat i < 256" using unsigned_less [of i] by simp
    then have "i \<le> 0xFF" by (simp add: word_le_nat_alt)
    then show ?thesis by (simp add: unat_sub)
  qed
  moreover have "unat i < 256" using unsigned_less [of i] by simp
  moreover have "replicate 32 (0xFF :: u8) = 0xFF # replicate 31 0xFF"
    using replicate_Suc [of 31 "0xFF :: u8"] by simp
  then have "hash_prefix i = (0xFF - i) # replicate 31 0xFF"
    by (simp add: hash_prefix_def)
  moreover have "le_nat (replicate 31 0xFF) + 1 = 256 ^ 31" by (rule le_nat_ones)
  ultimately show "le_nat (hash_prefix i) + unat i = 2 ^ 256 - 1" by simp
  show "hash_prefix i @ x = hash_prefix j @ y \<longleftrightarrow> i = j \<and> x = y"
    using hprefix.frame_inject [of i x j y] by auto
  show "signal_hash2 c x = hash_i c 2 x"
    by (simp add: signal_hash2_def signal_hash2_finalize_def signal_hash2_update_def signal_hash2_default_def
        hash_i_def hash_prefix_def)
qed

end
