(* ===== verification/Vxeddsa.thy ===== *)
theory Vxeddsa
  imports Curve_Utils
begin

text \<open>
  \<^verbatim>\<open>src/vxeddsa.rs\<close>: key generation, VXEdDSA signing with its VRF output, and verification.
\<close>

section \<open>Types and key generation\<close>

record VKeyPair =
  secret :: bytes
  public :: bytes

record VXEdDSAOutput =
  signature :: bytes
  vrf :: bytes

datatype VXEdDSAError = InvalidScalar

definition gen_secret :: "World \<Rightarrow> bytes \<times> World" where
  "gen_secret w = os_rng_fill 32 w"

definition gen_pubkey :: "crypto \<Rightarrow> bytes \<Rightarrow> bytes" where
  "gen_pubkey c k = encode_public_key (x25519_base c k)"

definition gen_keypair :: "crypto \<Rightarrow> World \<Rightarrow> VKeyPair \<times> World" where
  "gen_keypair c w =
     (let (s, w1) = os_rng_fill 32 w;
          public_raw = x25519_base c s
      in (\<lparr> secret = s, public = encode_public_key public_raw \<rparr>, w1))"

section \<open>Signing\<close>

text \<open>The VRF base point of a message under a compressed public point, and the VRF output of \<open>V\<close>.\<close>

definition vrf_base :: "crypto \<Rightarrow> ('p, 's) curve \<Rightarrow> bytes \<Rightarrow> bytes \<Rightarrow> 'p" where
  "vrf_base c e a_bytes message =
     mul_by_cofactor e (map_to_curve e (signal_hash2 c) (a_bytes @ message))"

definition vrf_output :: "crypto \<Rightarrow> ('p, 's) curve \<Rightarrow> 'p \<Rightarrow> bytes" where
  "vrf_output c e V = slice 0 32 (hash_i c 5 (compress e (mul_by_cofactor e V)))"

definition challenge :: "crypto \<Rightarrow> ('p, 's) curve \<Rightarrow> bytes \<Rightarrow> bytes \<Rightarrow> 'p \<Rightarrow> 'p \<Rightarrow> bytes \<Rightarrow> 's" where
  "challenge c e a_bytes V_bytes R Rv message =
     scalar_from_wide e (hash_i c 4 (a_bytes @ V_bytes @ compress e R @ compress e Rv @ message))"

definition vxeddsa_sign :: "crypto \<Rightarrow> ('p, 's) curve \<Rightarrow> World \<Rightarrow> bytes \<Rightarrow> bytes \<Rightarrow> (VXEdDSAOutput, VXEdDSAError) result \<times> World" where
  "vxeddsa_sign c e w k message =
     (let (Z, w1) = os_rng_fill 64 w;
          (a, A) = calculate_key_pair e k;
          a_bytes = compress e A;
          Bv = vrf_base c e a_bytes message;
          V = smul e a Bv;
          V_bytes = compress e V;
          r_hash = hash_i c 3 (scalar_to_bytes e a @ V_bytes @ Z);
          r = scalar_from_wide e r_hash
      in if r = scalar_zero e then (Err InvalidScalar, w1)
         else let R_point = smul e r (basepoint e);
                  Rv_point = smul e r Bv;
                  h = challenge c e a_bytes V_bytes R_point Rv_point message;
                  s = scalar_add e r (scalar_mul e h a)
              in (Ok \<lparr> signature = V_bytes @ scalar_to_bytes e h @ scalar_to_bytes e s,
                       vrf = vrf_output c e V \<rparr>, w1))"

section \<open>Verification\<close>

definition vxeddsa_verify :: "crypto \<Rightarrow> ('p, 's) curve \<Rightarrow> bytes \<Rightarrow> bytes \<Rightarrow> bytes \<Rightarrow> (bytes option, 'e) result" where
  "vxeddsa_verify c e public_key message sig =
     (let V_bytes = slice 0 32 sig;
          h_bytes = slice 32 64 sig;
          s_bytes = slice 64 96 sig
      in case scalar_from_canonical e h_bytes of
           None \<Rightarrow> Ok None
         | Some h \<Rightarrow>
      (case scalar_from_canonical e s_bytes of
           None \<Rightarrow> Ok None
         | Some s \<Rightarrow>
      (case decode_public_key public_key of
           Err _ \<Rightarrow> Ok None
         | Panic \<Rightarrow> Panic
         | Ok public_key_decoded \<Rightarrow>
      and_then (convert_mont e public_key_decoded) (\<lambda>A.
        let A_bytes = compress e A
        in case decompress e V_bytes of
             None \<Rightarrow> Ok None
           | Some V \<Rightarrow>
               let Bv = vrf_base c e A_bytes message;
                   cA = mul_by_cofactor e A;
                   cV = mul_by_cofactor e V
               in if cA = identity e \<or> cV = identity e \<or> Bv = identity e then Ok None
                  else let R = psub e (smul e s (basepoint e)) (smul e h A);
                           Rv = psub e (smul e s Bv) (smul e h V);
                           hcheck = challenge c e A_bytes V_bytes R Rv message
                       in if h \<noteq> hcheck then Ok None
                          else Ok (Some (vrf_output c e V))))))"

lemma vxeddsa_verify_no_Err: "vxeddsa_verify c e pk message sig \<noteq> Err x"
  by (auto simp: vxeddsa_verify_def convert_mont_def u_to_y_def Let_def and_then_eq_Err
      split: option.split result.split)

lemma gen_pubkey_sized: "crypto_ok c \<Longrightarrow> is_array 32 k \<Longrightarrow> is_array 33 (gen_pubkey c k)"
  using crypto_okD(4) by (auto simp: gen_pubkey_def encode_public_key_def x25519_sized_def)

lemma gen_keypair_public: "gen_keypair c w = (kp, w') \<Longrightarrow> public kp = gen_pubkey c (secret kp) \<and> is_array 32 (secret kp)"
  by (auto simp: gen_keypair_def gen_pubkey_def os_rng_fill_def Let_def)

text \<open>A successful signature, field by field.\<close>

lemma vxeddsa_sign_OkD:
  assumes "vxeddsa_sign c e w k message = (Ok out, w')"
  obtains a A r V where "calculate_key_pair e k = (a, A)" "V = smul e a (vrf_base c e (compress e A) message)"
    "signature out = compress e V @
       scalar_to_bytes e (challenge c e (compress e A) (compress e V) (smul e r (basepoint e))
         (smul e r (vrf_base c e (compress e A) message)) message) @
       scalar_to_bytes e (scalar_add e r (scalar_mul e (challenge c e (compress e A) (compress e V)
         (smul e r (basepoint e)) (smul e r (vrf_base c e (compress e A) message)) message) a))"
    "vrf out = vrf_output c e V"
  using assms unfolding vxeddsa_sign_def
  by (auto simp: Let_def split: prod.splits if_splits)

text \<open>The sizes of the arrays that are returned.\<close>

lemma vrf_output_sized: "sha512_sized c \<Longrightarrow> is_array 32 (vrf_output c e V)"
  by (simp add: vrf_output_def hash_i_def sha512_sized_def)

lemma vxeddsa_sign_sized:
  assumes "sha512_sized c" and "encoding_laws e" and "vxeddsa_sign c e w k message = (Ok out, w')"
  shows "is_array 96 (signature out)" and "is_array 32 (vrf out)"
proof -
  have "is_array 96 (signature out) \<and> is_array 32 (vrf out)"
    using assms(3) by (rule vxeddsa_sign_OkD)
      (simp add: vrf_output_sized [OF assms(1)] encoding_lawsD(1,3) [OF assms(2)])
  then show "is_array 96 (signature out)" "is_array 32 (vrf out)" by simp_all
qed

lemma vxeddsa_verify_sized:
  assumes "sha512_sized c" and "vxeddsa_verify c e pk message sig = Ok (Some v)"
  shows "is_array 32 v"
proof -
  obtain V where "v = vrf_output c e V"
    using assms(2) unfolding vxeddsa_verify_def Let_def
    by (force split: option.split_asm result.split_asm if_split_asm)
  then show ?thesis using vrf_output_sized [OF assms(1)] by simp
qed

text \<open>A genuine signature verifies.\<close>

lemma signed_verifies:
  assumes ok: "crypto_ok c" and curve: "curve_ok e" and bi: "birational c e" and k: "is_array 32 k"
    and sign: "vxeddsa_sign c e w k message = (Ok out, w')"
    and base: "vrf_base c e (compress e (key_point e k)) message \<noteq> identity e"
  shows "vxeddsa_verify c e (gen_pubkey c k) message (signature out) = Ok (Some (vrf out))"
proof -
  note g = group_lawsD [OF curve_okD(1) [OF curve]] and enc = encoding_lawsD [OF curve_okD(2) [OF curve]]
  obtain a A r V where key: "calculate_key_pair e k = (a, A)"
      and V: "V = smul e a (vrf_base c e (compress e A) message)"
      and sig: "signature out = compress e V @
         scalar_to_bytes e (challenge c e (compress e A) (compress e V) (smul e r (basepoint e))
           (smul e r (vrf_base c e (compress e A) message)) message) @
         scalar_to_bytes e (scalar_add e r (scalar_mul e (challenge c e (compress e A) (compress e V)
           (smul e r (basepoint e)) (smul e r (vrf_base c e (compress e A) message)) message) a))"
      and vrf: "vrf out = vrf_output c e V"
    using sign by (rule vxeddsa_sign_OkD)
  define Bv where "Bv = vrf_base c e (compress e A) message"
  define h where "h = challenge c e (compress e A) (compress e V) (smul e r (basepoint e)) (smul e r Bv) message"
  define s where "s = scalar_add e r (scalar_mul e h a)"
  have A: "A = smul e a (basepoint e)" "A = key_point e k" and a: "a \<noteq> scalar_zero e"
    using calculate_key_pair_spec [OF curve k] key by simp_all
  have po0: "prime_order e (basepoint e)" by (rule prime_order.base)
  have po: "prime_order e Bv" by (simp add: Bv_def vrf_base_def prime_order.cofactor)
  have Bv: "Bv \<noteq> identity e" using base by (simp add: Bv_def A(2))
  have "prime_order e V" unfolding V Bv_def [symmetric] by (rule prime_order.smul [OF po])
  moreover have "V \<noteq> identity e" using g(5) [OF po] a Bv by (auto simp: V Bv_def [symmetric])
  ultimately have cV: "mul_by_cofactor e V \<noteq> identity e" using g(6) by blast
  have cA: "mul_by_cofactor e A \<noteq> identity e" using key_point_prime_order [OF curve k] A(2) by simp
  have R: "psub e (smul e s (basepoint e)) (smul e h A) = smul e r (basepoint e)"
    using g(1-3) po0 by (simp add: s_def A(1))
  have Rv: "psub e (smul e s Bv) (smul e h V) = smul e r Bv"
    using g(1-3) po by (simp add: s_def V Bv_def [symmetric])
  have parts: "slice 0 32 (signature out) = compress e V" "slice 32 64 (signature out) = scalar_to_bytes e h"
    "slice 64 96 (signature out) = scalar_to_bytes e s"
    using enc(1) enc(3) by (simp_all add: sig slice_def h_def s_def Bv_def)
  have "decode_public_key (gen_pubkey c k) = Ok (x25519_base c k)"
    using crypto_okD(4) [OF ok] k unfolding gen_pubkey_def
    by (intro pubkey.dec_enc) (simp add: x25519_sized_def)
  then show ?thesis
    using cA cV Bv R Rv enc(2,4)
    by (simp add: vxeddsa_verify_def parts convert_public_key [OF bi k] A(2) [symmetric]
        Bv_def [symmetric] h_def [symmetric] vrf)
qed

section \<open>What an accepted signature fixes\<close>

text \<open>The bytes whose hash verification compares with the second part of the signature: the key, the
  point \<open>V\<close>, the two points recomputed from the scalars, and the message.\<close>

definition checked_bytes :: "crypto \<Rightarrow> ('p, 's) curve \<Rightarrow> bytes \<Rightarrow> bytes \<Rightarrow> bytes \<Rightarrow> bytes" where
  "checked_bytes c e public_key message sig =
     (case (convert_mont e (drop 1 public_key) :: ('p, unit) result, decompress e (slice 0 32 sig),
            scalar_from_canonical e (slice 32 64 sig), scalar_from_canonical e (slice 64 96 sig)) of
        (Ok A, Some V, Some h, Some s) \<Rightarrow>
          compress e A @ slice 0 32 sig @
          compress e (psub e (smul e s (basepoint e)) (smul e h A)) @
          compress e (psub e (smul e s (vrf_base c e (compress e A) message)) (smul e h V)) @ message
      | _ \<Rightarrow> [])"

lemma convert_mont_Ok: "convert_mont e u = (Ok A :: ('p, 'x) result) \<longleftrightarrow> convert_mont e u = (Ok A :: ('p, 'y) result)"
  by (cases "mont_to_edwards e (u[31 := u ! 31 AND 127]) 0") (simp_all add: convert_mont_def u_to_y_def)

lemma accepted_challenge:
  assumes "vxeddsa_verify c e pk message sig = (Ok (Some v) :: (bytes option, 'e) result)"
  obtains A V where "convert_mont e (drop 1 pk) = (Ok A :: ('p, unit) result)" "decompress e (slice 0 32 sig) = Some V"
    "v = vrf_output c e V"
    "scalar_from_canonical e (slice 32 64 sig) = Some (scalar_from_wide e (hash_i c 4 (checked_bytes c e pk message sig)))"
    "\<exists>R Rv. checked_bytes c e pk message sig = compress e A @ slice 0 32 sig @ compress e R @ compress e Rv @ message"
proof -
  obtain h s where scalars: "scalar_from_canonical e (slice 32 64 sig) = Some h" "scalar_from_canonical e (slice 64 96 sig) = Some s"
    using assms
    by (cases "scalar_from_canonical e (slice 32 64 sig)"; cases "scalar_from_canonical e (slice 64 96 sig)")
      (simp_all add: vxeddsa_verify_def Let_def)
  obtain u where "decode_public_key pk = Ok u"
    using assms scalars by (cases "decode_public_key pk") (simp_all add: vxeddsa_verify_def Let_def)
  then have decoded: "decode_public_key pk = Ok (drop 1 pk)" by (simp add: decode_public_key_def split: if_splits)
  obtain A where A: "convert_mont e (drop 1 pk) = (Ok A :: ('p, 'e) result)"
    using assms scalars decoded by (cases "convert_mont e (drop 1 pk) :: ('p, 'e) result") (simp_all add: vxeddsa_verify_def Let_def)
  then have A': "convert_mont e (drop 1 pk) = (Ok A :: ('p, unit) result)" by (rule convert_mont_Ok [THEN iffD1])
  obtain V where V: "decompress e (slice 0 32 sig) = Some V"
    using assms scalars decoded A by (cases "decompress e (slice 0 32 sig)") (simp_all add: vxeddsa_verify_def Let_def)
  have "h = challenge c e (compress e A) (slice 0 32 sig) (psub e (smul e s (basepoint e)) (smul e h A))
       (psub e (smul e s (vrf_base c e (compress e A) message)) (smul e h V)) message" and v: "v = vrf_output c e V"
    using assms scalars decoded A V by (auto simp: vxeddsa_verify_def Let_def split: if_splits)
  then have "scalar_from_canonical e (slice 32 64 sig) = Some (scalar_from_wide e (hash_i c 4 (checked_bytes c e pk message sig)))"
    using scalars A' V by (simp add: checked_bytes_def challenge_def)
  moreover have "\<exists>R Rv. checked_bytes c e pk message sig = compress e A @ slice 0 32 sig @ compress e R @ compress e Rv @ message"
    using scalars A' V by (auto simp: checked_bytes_def)
  ultimately show thesis by (rule that [OF A' V v])
qed

section \<open>Properties\<close>

text \<open>C37: Completeness of VXEdDSA: a signature made with a secret verifies under its public key, and
  verification returns the VRF output the signer got, provided the message does not hash to the
  identity of the curve.\<close>

theorem signatures_verify:
  assumes "crypto_ok c" and "curve_ok e" and "birational c e" and "is_array 32 k"
    and "vxeddsa_sign c e w k message = (Ok out, w')"
    and "vrf_base c e (compress e (snd (calculate_key_pair e k))) message \<noteq> identity e"
  shows "vxeddsa_verify c e (gen_pubkey c k) message (signature out) = Ok (Some (vrf out))"
  using signed_verifies [OF assms(1-5)] assms(6) calculate_key_pair_spec(2) [OF assms(2,4)] by simp

text \<open>An accepted signature is bound to its message, key and point: two accepted signatures
  with the same challenge (their second part) on different messages, under keys of different
  points or with a different point (the first part) exhibit two different byte strings that
  hash to the same scalar. The first part alone fixes the VRF output.\<close>

lemma signature_binds:
  fixes e :: "('p, 's) curve"
  assumes "encoding_laws e" and "is_array 96 sig" and "is_array 96 sig'"
    and "vxeddsa_verify c e pk m sig = (Ok (Some v) :: (bytes option, unit) result)"
    and "vxeddsa_verify c e pk' m' sig' = (Ok (Some v') :: (bytes option, unit) result)"
  shows "(slice 32 64 sig = slice 32 64 sig' \<and>
      (m \<noteq> m' \<or> slice 0 32 sig \<noteq> slice 0 32 sig' \<or>
       convert_mont e (drop 1 pk) \<noteq> (convert_mont e (drop 1 pk') :: ('p, unit) result)) \<longrightarrow>
      checked_bytes c e pk m sig \<noteq> checked_bytes c e pk' m' sig' \<and>
      scalar_from_wide e (hash_i c 4 (checked_bytes c e pk m sig)) =
      scalar_from_wide e (hash_i c 4 (checked_bytes c e pk' m' sig'))) \<and>
    (slice 0 32 sig = slice 0 32 sig' \<longrightarrow> v = v')"
proof (rule accepted_challenge [OF assms(4)], rule accepted_challenge [OF assms(5)])
  note enc = encoding_lawsD [OF assms(1)]
  fix A V A' V'
  assume key: "convert_mont e (drop 1 pk) = (Ok A :: ('p, unit) result)" "convert_mont e (drop 1 pk') = (Ok A' :: ('p, unit) result)"
    and V: "decompress e (slice 0 32 sig) = Some V" "v = vrf_output c e V"
      "decompress e (slice 0 32 sig') = Some V'" "v' = vrf_output c e V'"
    and h: "scalar_from_canonical e (slice 32 64 sig) = Some (scalar_from_wide e (hash_i c 4 (checked_bytes c e pk m sig)))"
      "scalar_from_canonical e (slice 32 64 sig') = Some (scalar_from_wide e (hash_i c 4 (checked_bytes c e pk' m' sig')))"
    and b: "\<exists>R Rv. checked_bytes c e pk m sig = compress e A @ slice 0 32 sig @ compress e R @ compress e Rv @ m"
      "\<exists>R Rv. checked_bytes c e pk' m' sig' = compress e A' @ slice 0 32 sig' @ compress e R @ compress e Rv @ m'"
  have "compress e A = compress e A' \<and> slice 0 32 sig = slice 0 32 sig' \<and> m = m'"
    if "checked_bytes c e pk m sig = checked_bytes c e pk' m' sig'"
    using b that assms(2,3) by (auto simp: enc(1) slice_def)
  moreover have "A = A'" if "compress e A = compress e A'" using enc(2) that by (metis option.inject)
  ultimately show ?thesis using key V h by auto
qed

lemma binary_hash: "hash_i signing_crypto i x \<noteq> replicate 64 0"
proof
  assume "hash_i signing_crypto i x = replicate 64 0"
  then have "sum_list (hash_prefix i @ x) = 0 \<and> sum_list (hash_prefix i @ x) + 1 = 0"
    by (auto simp: hash_i_def signing_crypto_def reference_crypto_def ref_expand_def append_eq_conv_conj
        dest: arg_cong [where f = "\<lambda>b. (b ! 0, b ! 32)"])
  then show False by (metis add_0 one_neq_zero)
qed

lemma binary_signs:
  "\<exists>out w'. vxeddsa_sign signing_crypto binary_curve w k m = (Ok out, w')"
proof -
  have "hash_i signing_crypto i x \<noteq> replicate 64 0" for i x by (rule binary_hash)
  then show ?thesis
    by (auto simp: vxeddsa_sign_def Let_def run_simps split: prod.split)
qed

theorem signatures_verify_witness:
  "\<exists>out w'. vxeddsa_sign signing_crypto binary_curve demo_world (replicate 32 1) [1, 2, 3] = (Ok out, w') \<and>
     vxeddsa_verify signing_crypto binary_curve (gen_pubkey signing_crypto (replicate 32 1)) [1, 2, 3] (signature out) =
       (Ok (Some (vrf out)) :: (bytes option, unit) result)"
proof -
  obtain out w' where sign: "vxeddsa_sign signing_crypto binary_curve demo_world (replicate 32 1) [1, 2, 3] = (Ok out, w')"
    using binary_signs by blast
  from signatures_verify [OF signing_crypto_ok binary_curve_ok binary_birational _ this] sign
  show ?thesis by (auto simp: vrf_base_def run_simps)
qed

text \<open>The VRF output and the point it comes from depend on the key and the message only, not on
  the randomness of the signature; the signature is 96 bytes and begins with that point.\<close>

lemma vrf_deterministic:
  assumes "encoding_laws e" and "vxeddsa_sign c e w1 k message = (Ok out1, w1')"
    and "vxeddsa_sign c e w2 k message = (Ok out2, w2')"
  shows "vrf out1 = vrf out2 \<and> take 32 (signature out1) = take 32 (signature out2) \<and>
    is_array 96 (signature out1)"
proof -
  note enc = encoding_lawsD [OF assms(1)]
  have "\<exists>V. out = out \<and> take 32 (signature out) = compress e (smul e (fst (calculate_key_pair e k))
        (vrf_base c e (compress e (snd (calculate_key_pair e k))) message)) \<and>
      vrf out = vrf_output c e (smul e (fst (calculate_key_pair e k))
        (vrf_base c e (compress e (snd (calculate_key_pair e k))) message)) \<and> is_array 96 (signature out)"
    if "vxeddsa_sign c e w k message = (Ok out, w')" for w out w'
    using that by (rule vxeddsa_sign_OkD) (simp add: enc(1,3))
  from this [OF assms(2)] this [OF assms(3)] show ?thesis by auto
qed

end
