(* ===== verification/X3dh.thy ===== *)
theory X3dh
  imports Vxeddsa
begin

text \<open>
  \<^verbatim>\<open>src/x3dh.rs\<close>: the X3DH key agreement, initiator and responder.
\<close>

section \<open>Types\<close>

type_synonym X3DHPublicKey = bytes
type_synonym X3DHPrivateKey = bytes

record SignedPreKey =
  spk_id :: u32
  spk_public_key :: X3DHPublicKey
  spk_signature :: bytes

record OneTimePreKey =
  opk_id :: u32
  opk_public_key :: X3DHPublicKey

record PreKeyBundle =
  identity_key :: X3DHPublicKey
  signed_prekey :: SignedPreKey
  one_time_prekey :: "OneTimePreKey option"

datatype X3DHError = InvalidSignature | InvalidKey | MissingOneTimeKey | DecodeFailed

record X3DHInitResult =
  shared_secret :: bytes
  ephemeral_public :: bytes

section \<open>Helpers\<close>

definition kdf :: "crypto \<Rightarrow> bytes \<Rightarrow> (bytes, 'e) result" where
  "kdf c km =
     expect (hkdf_sha512 c (Some (replicate 64 0)) (replicate 32 0xFF @ km) (map of_char ''X3DH'') 32)"

definition dh :: "crypto \<Rightarrow> X3DHPrivateKey \<Rightarrow> X3DHPublicKey \<Rightarrow> (bytes, DecodeError) result" where
  "dh c private public_key_encoded =
     and_then (decode_public_key public_key_encoded) (\<lambda>public_bytes. Ok (x25519_dh c private public_bytes))"

definition generate_ephemeral_keypair :: "crypto \<Rightarrow> World \<Rightarrow> (X3DHPrivateKey \<times> X3DHPublicKey) \<times> World" where
  "generate_ephemeral_keypair c w =
     (let (private, w1) = gen_secret w in ((private, gen_pubkey c private), w1))"

text \<open>\<^verbatim>\<open>dh(..).map_err(|_| X3DHError::DecodeFailed)?\<close>\<close>

definition dh_or_fail :: "crypto \<Rightarrow> bytes \<Rightarrow> bytes \<Rightarrow> (bytes, X3DHError) result" where
  "dh_or_fail c private pub = map_err (\<lambda>_. DecodeFailed) (dh c private pub)"

section \<open>The two sides\<close>

text \<open>\<^verbatim>\<open>a || b\<close> on two validations that may panic.\<close>

definition check_keys :: "('p, 's) curve \<Rightarrow> bytes \<Rightarrow> bytes \<Rightarrow> (unit, X3DHError) result" where
  "check_keys e k1 k2 =
     and_then (is_valid_public_key e k1) (\<lambda>v1.
       if \<not> v1 then Err InvalidKey
       else and_then (is_valid_public_key e k2) (\<lambda>v2. if \<not> v2 then Err InvalidKey else Ok ()))"

definition check_one_time_key :: "('p, 's) curve \<Rightarrow> OneTimePreKey option \<Rightarrow> (unit, X3DHError) result" where
  "check_one_time_key e opk =
     (case opk of None \<Rightarrow> Ok ()
      | Some k \<Rightarrow> and_then (is_valid_public_key e (opk_public_key k)) (\<lambda>v. if \<not> v then Err InvalidKey else Ok ()))"

definition check_signature :: "crypto \<Rightarrow> ('p, 's) curve \<Rightarrow> PreKeyBundle \<Rightarrow> (unit, X3DHError) result" where
  "check_signature c e bundle =
     and_then (vxeddsa_verify c e (identity_key bundle) (spk_public_key (signed_prekey bundle))
                 (spk_signature (signed_prekey bundle)))
       (\<lambda>v. if v = None then Err InvalidSignature else Ok ())"

definition x3dh_initiator :: "crypto \<Rightarrow> ('p, 's) curve \<Rightarrow> World \<Rightarrow> X3DHPrivateKey \<Rightarrow> PreKeyBundle \<Rightarrow> (X3DHInitResult, X3DHError) result \<times> World" where
  "x3dh_initiator c e w identity_private bundle =
     (case and_then (check_keys e (identity_key bundle) (spk_public_key (signed_prekey bundle))) (\<lambda>_.
           and_then (check_one_time_key e (one_time_prekey bundle)) (\<lambda>_. check_signature c e bundle)) of
        Err x \<Rightarrow> (Err x, w)
      | Panic \<Rightarrow> (Panic, w)
      | Ok _ \<Rightarrow>
          let ((ephemeral_private, ephemeral_pub), w1) = generate_ephemeral_keypair c w
          in (and_then (dh_or_fail c identity_private (spk_public_key (signed_prekey bundle))) (\<lambda>dh1.
              and_then (dh_or_fail c ephemeral_private (identity_key bundle)) (\<lambda>dh2.
              and_then (dh_or_fail c ephemeral_private (spk_public_key (signed_prekey bundle))) (\<lambda>dh3.
              and_then (case one_time_prekey bundle of
                          None \<Rightarrow> Ok (dh1 @ dh2 @ dh3)
                        | Some opk \<Rightarrow> and_then (dh_or_fail c ephemeral_private (opk_public_key opk))
                                        (\<lambda>dh4. Ok (dh1 @ dh2 @ dh3 @ dh4))) (\<lambda>chained.
              and_then (kdf c chained) (\<lambda>secret.
                Ok \<lparr> shared_secret = secret, ephemeral_public = ephemeral_pub \<rparr>))))), w1))"

definition x3dh_responder :: "crypto \<Rightarrow> ('p, 's) curve \<Rightarrow> X3DHPrivateKey \<Rightarrow> X3DHPrivateKey \<Rightarrow> X3DHPrivateKey option \<Rightarrow> X3DHPublicKey \<Rightarrow> X3DHPublicKey \<Rightarrow> (bytes, X3DHError) result" where
  "x3dh_responder c e identity_private signed_prekey_private one_time_prekey_private alice_identity_public alice_ephemeral_public =
     and_then (check_keys e alice_identity_public alice_ephemeral_public) (\<lambda>_.
     and_then (dh_or_fail c signed_prekey_private alice_identity_public) (\<lambda>dh1.
     and_then (dh_or_fail c identity_private alice_ephemeral_public) (\<lambda>dh2.
     and_then (dh_or_fail c signed_prekey_private alice_ephemeral_public) (\<lambda>dh3.
     and_then (case one_time_prekey_private of
                 None \<Rightarrow> Ok (dh1 @ dh2 @ dh3)
               | Some opk_private \<Rightarrow> and_then (dh_or_fail c opk_private alice_ephemeral_public)
                                        (\<lambda>dh4. Ok (dh1 @ dh2 @ dh3 @ dh4))) (\<lambda>chained.
     kdf c chained)))))"

section \<open>Agreement\<close>

lemma dh_or_fail_genuine:
  assumes "crypto_ok c" and "is_array 32 k"
  shows "dh_or_fail c p (gen_pubkey c k) = Ok (x25519_dh c p (x25519_base c k))"
proof -
  have "is_array 32 (x25519_base c k)" using crypto_okD(4) [OF assms(1)] assms(2) by (simp add: x25519_sized_def)
  then show ?thesis by (simp add: dh_or_fail_def dh_def gen_pubkey_def pubkey.dec_enc)
qed

lemma dh_symmetric:
  assumes "crypto_ok c" and "is_array 32 a" and "is_array 32 b"
  shows "dh_or_fail c a (gen_pubkey c b) = dh_or_fail c b (gen_pubkey c a)"
  using dh_commutesD [OF crypto_okD(5) [OF assms(1)] assms(2,3)] assms by (simp add: dh_or_fail_genuine)

lemma kdf_total: "crypto_ok c \<Longrightarrow> \<exists>okm. kdf c km = Ok okm \<and> is_array 32 okm"
  using hkdf_totalD(2) [OF crypto_okD(2), of c 32 "Some (replicate 64 0)" "replicate 32 0xFF @ km" "map of_char ''X3DH''"]
  by (auto simp: kdf_def)

lemma check_keys_genuine:
  assumes "crypto_ok c" "curve_ok e" "birational c e" "is_array 32 a" "is_array 32 b"
  shows "check_keys e (gen_pubkey c a) (gen_pubkey c b) = Ok ()"
  using assms by (simp add: check_keys_def gen_pubkey_def genuine_key_valid)

text \<open>The secret both sides derive from four private keys.\<close>

definition agreed_secret :: "crypto \<Rightarrow> bytes \<Rightarrow> bytes \<Rightarrow> bytes \<Rightarrow> bytes \<Rightarrow> bytes option \<Rightarrow> (bytes, X3DHError) result" where
  "agreed_secret c ia ek ib spk opk =
     kdf c (x25519_dh c ia (x25519_base c spk) @ x25519_dh c ek (x25519_base c ib) @ x25519_dh c ek (x25519_base c spk) @
            (case opk of None \<Rightarrow> [] | Some k \<Rightarrow> x25519_dh c ek (x25519_base c k)))"

lemma responder_genuine:
  assumes ok: "crypto_ok c" and curve: "curve_ok e" and bi: "birational c e"
    and keys: "is_array 32 ia" "is_array 32 ek" "is_array 32 ib" "is_array 32 spk" "pred_option (is_array 32) opk"
  shows "x3dh_responder c e ib spk opk (gen_pubkey c ia) (gen_pubkey c ek) = agreed_secret c ia ek ib spk opk"
  using keys dh_commutesD [OF crypto_okD(5) [OF ok]]
  by (cases opk)
    (simp_all add: x3dh_responder_def agreed_secret_def check_keys_genuine [OF ok curve bi] dh_or_fail_genuine [OF ok])

lemma initiator_genuine:
  assumes ok: "crypto_ok c" and curve: "curve_ok e" and bi: "birational c e"
    and keys: "is_array 32 ia" "is_array 32 ib" "is_array 32 spk" "pred_option (is_array 32) opk"
    and parts: "identity_key bundle = gen_pubkey c ib" "spk_public_key (signed_prekey bundle) = gen_pubkey c spk"
      "map_option opk_public_key (one_time_prekey bundle) = map_option (gen_pubkey c) opk"
    and sig: "check_signature c e bundle = Ok ()"
  shows "\<exists>ek s w'. is_array 32 ek \<and> agreed_secret c ia ek ib spk opk = Ok s \<and>
     x3dh_initiator c e w ia bundle = (Ok \<lparr> shared_secret = s, ephemeral_public = gen_pubkey c ek \<rparr>, w')"
proof -
  obtain ek w' where rng: "gen_secret w = (ek, w')" by fastforce
  then have ek: "is_array 32 ek" by (metis fst_conv gen_secret_def length_os_rng_fill)
  obtain s where s: "agreed_secret c ia ek ib spk opk = Ok s"
    using kdf_total [OF ok] unfolding agreed_secret_def by blast
  have "check_one_time_key e (one_time_prekey bundle) = Ok ()"
    using parts(3) keys(4) genuine_key_valid [OF ok curve bi]
    by (cases opk; cases "one_time_prekey bundle") (auto simp: check_one_time_key_def gen_pubkey_def)
  then have "x3dh_initiator c e w ia bundle = (Ok \<lparr> shared_secret = s, ephemeral_public = gen_pubkey c ek \<rparr>, w')"
    using parts keys s
    by (cases opk; cases "one_time_prekey bundle")
      (simp_all add: x3dh_initiator_def sig check_keys_genuine [OF ok curve bi] dh_or_fail_genuine [OF ok]
        generate_ephemeral_keypair_def rng agreed_secret_def)
  with ek s show ?thesis by blast
qed

section \<open>Failures\<close>

lemma valid_dh:
  assumes "is_valid_public_key e pk = (Ok True :: (bool, X3DHError) result)"
  shows "\<exists>s. dh_or_fail c p pk = Ok s"
  using assms by (auto simp: is_valid_public_key_def dh_or_fail_def dh_def split: result.splits)

lemma is_valid_no_Err: "is_valid_public_key e pk \<noteq> Err x"
  by (auto simp: is_valid_public_key_def convert_mont_def u_to_y_def and_then_eq_Err split: result.split)

lemma is_valid_cases:
  "is_valid_public_key e pk = (Ok True :: (bool, X3DHError) result) \<or>
   is_valid_public_key e pk = (Ok False :: (bool, X3DHError) result) \<or>
   is_valid_public_key e pk = (Panic :: (bool, X3DHError) result)"
proof (cases "is_valid_public_key e pk :: (bool, X3DHError) result")
  case (Ok b)
  then show ?thesis by (cases b) simp_all
qed (simp_all add: is_valid_no_Err)

lemma check_keys_cases:
  "check_keys e k1 k2 = Ok () \<and> is_valid_public_key e k1 = (Ok True :: (bool, X3DHError) result) \<and>
      is_valid_public_key e k2 = (Ok True :: (bool, X3DHError) result) \<or>
   check_keys e k1 k2 = Err InvalidKey \<or> check_keys e k1 k2 = Panic"
  using is_valid_cases [of e k1] is_valid_cases [of e k2]
  by (elim disjE) (simp_all add: check_keys_def)

lemma initiator_ephemeral:
  assumes "x3dh_initiator c e w ia bndl = (Ok r, w')"
  obtains ek where "is_array 32 ek" "ephemeral_public r = gen_pubkey c ek"
proof -
  obtain ek w1 where rng: "gen_secret w = (ek, w1)" by fastforce
  then have "is_array 32 ek" by (metis fst_conv gen_secret_def length_os_rng_fill)
  moreover have "ephemeral_public r = gen_pubkey c ek"
    using assms rng
    by (auto simp: x3dh_initiator_def generate_ephemeral_keypair_def split: result.splits)
  ultimately show thesis by (rule that)
qed

lemma check_one_time_key_cases:
  "check_one_time_key e k = Ok () \<and> (\<forall>x. k = Some x \<longrightarrow> (\<exists>s. dh_or_fail c p (opk_public_key x) = Ok s)) \<or>
   check_one_time_key e k = Err InvalidKey \<or> check_one_time_key e k = Panic"
proof (cases k)
  case (Some x)
  then show ?thesis
    using is_valid_cases [of e "opk_public_key x"] valid_dh [of e "opk_public_key x" c p]
    by (elim disjE) (simp_all add: check_one_time_key_def)
qed (simp add: check_one_time_key_def)

lemma check_signature_cases:
  "check_signature c e bndl = Ok () \<or> check_signature c e bndl = Err InvalidSignature \<or> check_signature c e bndl = Panic"
  by (cases "vxeddsa_verify c e (identity_key bndl) (spk_public_key (signed_prekey bndl)) (spk_signature (signed_prekey bndl))
        :: (bytes option, X3DHError) result")
    (auto simp: check_signature_def vxeddsa_verify_no_Err)

text \<open>Once the checks have passed, the initiator succeeds.\<close>

lemma initiator_checked:
  assumes "crypto_ok c" and "check_keys e (identity_key bndl) (spk_public_key (signed_prekey bndl)) = Ok ()"
    and "check_one_time_key e (one_time_prekey bndl) = Ok ()" and "check_signature c e bndl = Ok ()"
  obtains r w' where "x3dh_initiator c e w ia bndl = (Ok r, w')" "is_array 32 (shared_secret r)"
proof -
  obtain ek w1 where "gen_secret w = (ek, w1)" by fastforce
  then have rng: "generate_ephemeral_keypair c w = ((ek, gen_pubkey c ek), w1)"
    by (simp add: generate_ephemeral_keypair_def)
  have "is_valid_public_key e (identity_key bndl) = (Ok True :: (bool, X3DHError) result)"
      "is_valid_public_key e (spk_public_key (signed_prekey bndl)) = (Ok True :: (bool, X3DHError) result)"
    using check_keys_cases [of e "identity_key bndl" "spk_public_key (signed_prekey bndl)"] assms(2) by auto
  then obtain d1 d2 d3 where d: "dh_or_fail c ia (spk_public_key (signed_prekey bndl)) = Ok d1"
      "dh_or_fail c ek (identity_key bndl) = Ok d2" "dh_or_fail c ek (spk_public_key (signed_prekey bndl)) = Ok d3"
    using valid_dh by metis
  obtain d4 where d4: "(case one_time_prekey bndl of None \<Rightarrow> Ok (d1 @ d2 @ d3)
      | Some opk \<Rightarrow> and_then (dh_or_fail c ek (opk_public_key opk)) (\<lambda>dh4. Ok (d1 @ d2 @ d3 @ dh4))) = Ok d4"
    using check_one_time_key_cases [of e "one_time_prekey bndl" c ek] assms(3) by (cases "one_time_prekey bndl") auto
  obtain okm where "kdf c d4 = (Ok okm :: (bytes, X3DHError) result)" "is_array 32 okm"
    using kdf_total [OF assms(1)] by blast
  then show thesis
    by (intro that [of "\<lparr> shared_secret = okm, ephemeral_public = gen_pubkey c ek \<rparr>" w1])
      (simp_all add: x3dh_initiator_def assms(2-4) rng d d4)
qed

lemma initiator_cases:
  assumes "crypto_ok c"
  shows "case x3dh_initiator c e w ia bndl of
      (Ok r, w') \<Rightarrow> is_array 32 (shared_secret r) \<and> check_signature c e bndl = Ok () \<and>
         is_valid_public_key e (identity_key bndl) = (Ok True :: (bool, X3DHError) result) \<and>
         is_valid_public_key e (spk_public_key (signed_prekey bndl)) = (Ok True :: (bool, X3DHError) result)
    | (Err x, w') \<Rightarrow> (x = InvalidKey \<or> x = InvalidSignature) \<and> w' = w
    | (Panic, w') \<Rightarrow> w' = w"
proof -
  let ?keys = "check_keys e (identity_key bndl) (spk_public_key (signed_prekey bndl))"
  let ?checks = "and_then ?keys (\<lambda>_.
           and_then (check_one_time_key e (one_time_prekey bndl)) (\<lambda>_. check_signature c e bndl))"
  note cases = check_keys_cases [of e "identity_key bndl" "spk_public_key (signed_prekey bndl)"]
    check_one_time_key_cases [of e "one_time_prekey bndl"] check_signature_cases [of c e bndl]
  show ?thesis
  proof (cases ?checks)
    case (Ok u)
    then have ok: "?keys = Ok ()" "check_one_time_key e (one_time_prekey bndl) = Ok ()" "check_signature c e bndl = Ok ()"
      by auto
    obtain r w' where "x3dh_initiator c e w ia bndl = (Ok r, w')" "is_array 32 (shared_secret r)"
      using initiator_checked [OF assms ok] .
    with ok cases(1) show ?thesis by auto
  next
    case (Err x)
    then have "x = InvalidKey \<or> x = InvalidSignature" using cases by (auto simp: and_then_eq_Err)
    with Err show ?thesis by (simp add: x3dh_initiator_def)
  next
    case Panic
    then show ?thesis by (simp add: x3dh_initiator_def)
  qed
qed

lemma responder_cases:
  assumes "crypto_ok c"
  shows "case x3dh_responder c e ib spk opk ia ek of
      Ok s \<Rightarrow> is_array 32 s \<and> is_valid_public_key e ia = (Ok True :: (bool, X3DHError) result) \<and>
              is_valid_public_key e ek = (Ok True :: (bool, X3DHError) result)
    | Err x \<Rightarrow> x = InvalidKey
    | Panic \<Rightarrow> check_keys e ia ek = Panic"
proof (cases "check_keys e ia ek = Ok ()")
  case True
  then have valid: "is_valid_public_key e ia = (Ok True :: (bool, X3DHError) result)"
      "is_valid_public_key e ek = (Ok True :: (bool, X3DHError) result)"
    using check_keys_cases [of e ia ek] by auto
  obtain d1 d2 d3 where d: "dh_or_fail c spk ia = Ok d1" "dh_or_fail c ib ek = Ok d2" "dh_or_fail c spk ek = Ok d3"
    using valid_dh valid by metis
  have "\<exists>d4. (case opk of None \<Rightarrow> Ok (d1 @ d2 @ d3)
      | Some k \<Rightarrow> and_then (dh_or_fail c k ek) (\<lambda>dh4. Ok (d1 @ d2 @ d3 @ dh4))) = Ok d4"
  proof (cases opk)
    case (Some k)
    obtain d where "dh_or_fail c k ek = Ok d" using valid_dh [OF valid(2)] by blast
    with Some show ?thesis by simp
  qed simp
  then obtain d4 where d4: "(case opk of None \<Rightarrow> Ok (d1 @ d2 @ d3)
      | Some k \<Rightarrow> and_then (dh_or_fail c k ek) (\<lambda>dh4. Ok (d1 @ d2 @ d3 @ dh4))) = Ok d4" by blast
  obtain okm where okm: "kdf c d4 = (Ok okm :: (bytes, X3DHError) result)" "is_array 32 okm"
    using kdf_total [OF assms] by blast
  have "x3dh_responder c e ib spk opk ia ek = Ok okm"
    by (simp add: x3dh_responder_def True d d4 okm del: and_then_eq_Ok)
  with okm valid show ?thesis by simp
next
  case False
  then have "check_keys e ia ek = Err InvalidKey \<or> check_keys e ia ek = Panic"
    using check_keys_cases [of e ia ek] by blast
  then show ?thesis by (auto simp: x3dh_responder_def)
qed

lemma genuine_agreement:
  assumes "crypto_ok c" and "curve_ok e" and "birational c e"
    and "is_array 32 ia" "is_array 32 ib" "is_array 32 spk" "pred_option (is_array 32) opk"
    and "vxeddsa_sign c e w0 ib (gen_pubkey c spk) = (Ok out, w0')"
    and "vrf_base c e (compress e (snd (calculate_key_pair e ib))) (gen_pubkey c spk) \<noteq> identity e"
    and "bndl = \<lparr> identity_key = gen_pubkey c ib,
           signed_prekey = \<lparr> spk_id = i, spk_public_key = gen_pubkey c spk, spk_signature = signature out \<rparr>,
           one_time_prekey = map_option (\<lambda>k. \<lparr> opk_id = j, opk_public_key = gen_pubkey c k \<rparr>) opk \<rparr>"
  shows "\<exists>r w'. x3dh_initiator c e w ia bndl = (Ok r, w') \<and> is_array 32 (shared_secret r) \<and>
    x3dh_responder c e ib spk opk (gen_pubkey c ia) (ephemeral_public r) = Ok (shared_secret r)"
proof -
  have base: "vrf_base c e (compress e (key_point e ib)) (gen_pubkey c spk) \<noteq> identity e"
    using assms(9) calculate_key_pair_spec(2) [OF assms(2,5)] by simp
  have sig: "check_signature c e bndl = Ok ()"
    by (simp add: check_signature_def assms(10) signed_verifies [OF assms(1-3,5,8) base])
  have "map_option opk_public_key (one_time_prekey bndl) = map_option (gen_pubkey c) opk"
    by (simp add: assms(10) option.map_comp comp_def)
  then obtain ek s w' where "is_array 32 ek" and s: "agreed_secret c ia ek ib spk opk = Ok s"
      and init: "x3dh_initiator c e w ia bndl = (Ok \<lparr> shared_secret = s, ephemeral_public = gen_pubkey c ek \<rparr>, w')"
    using initiator_genuine [OF assms(1-7) _ _ _ sig, of w] by (auto simp: assms(10))
  moreover have "x3dh_responder c e ib spk opk (gen_pubkey c ia) (gen_pubkey c ek) = Ok s"
    using responder_genuine [OF assms(1-4) _ assms(5-7)] \<open>is_array 32 ek\<close> s by simp
  moreover have "is_array 32 s" using s kdf_total [OF assms(1)] unfolding agreed_secret_def by (metis result.inject(1))
  ultimately show ?thesis by auto
qed

section \<open>Properties\<close>

text \<open>C38: The two sides agree. If Bob signs the prekey he publishes and Alice runs the initiator on his
  bundle, with or without a one-time prekey, she succeeds, and Bob's responder on her two public
  keys computes the same 32-byte secret.\<close>

theorem x3dh_agreement:
  assumes "crypto_ok c" and "curve_ok e" and "birational c e"
    and "is_array 32 ia" "is_array 32 ib" "is_array 32 spk" "pred_option (is_array 32) opk"
    and "vxeddsa_sign c e w0 ib (gen_pubkey c spk) = (Ok out, w0')"
    and "vrf_base c e (compress e (snd (calculate_key_pair e ib))) (gen_pubkey c spk) \<noteq> identity e"
    and "bndl = \<lparr> identity_key = gen_pubkey c ib,
           signed_prekey = \<lparr> spk_id = i, spk_public_key = gen_pubkey c spk, spk_signature = signature out \<rparr>,
           one_time_prekey = map_option (\<lambda>k. \<lparr> opk_id = j, opk_public_key = gen_pubkey c k \<rparr>) opk \<rparr>"
  shows "\<exists>r w'. x3dh_initiator c e w ia bndl = (Ok r, w') \<and> is_array 32 (shared_secret r) \<and>
    x3dh_responder c e ib spk opk (gen_pubkey c ia) (ephemeral_public r) = Ok (shared_secret r)"
  by (rule genuine_agreement [OF assms])

theorem x3dh_agreement_witness:
  "\<exists>out w0 r w'. vxeddsa_sign signing_crypto binary_curve demo_world (replicate 32 2) (gen_pubkey signing_crypto (replicate 32 3)) = (Ok out, w0) \<and>
     x3dh_initiator signing_crypto binary_curve w0 (replicate 32 1)
       \<lparr> identity_key = gen_pubkey signing_crypto (replicate 32 2),
         signed_prekey = \<lparr> spk_id = 1, spk_public_key = gen_pubkey signing_crypto (replicate 32 3), spk_signature = signature out \<rparr>,
         one_time_prekey = Some \<lparr> opk_id = 9, opk_public_key = gen_pubkey signing_crypto (replicate 32 4) \<rparr> \<rparr> = (Ok r, w') \<and>
     x3dh_responder signing_crypto binary_curve (replicate 32 2) (replicate 32 3) (Some (replicate 32 4))
       (gen_pubkey signing_crypto (replicate 32 1)) (ephemeral_public r) = Ok (shared_secret r)"
proof -
  obtain out w0 where sign: "vxeddsa_sign signing_crypto binary_curve demo_world (replicate 32 2)
      (gen_pubkey signing_crypto (replicate 32 3)) = (Ok out, w0)"
    using binary_signs by blast
  have "vrf_base signing_crypto binary_curve (compress binary_curve (snd (calculate_key_pair binary_curve (replicate 32 2))))
      (gen_pubkey signing_crypto (replicate 32 3)) \<noteq> identity binary_curve"
    by (simp add: vrf_base_def run_simps)
  from x3dh_agreement [OF signing_crypto_ok binary_curve_ok binary_birational _ _ _ _ sign this refl,
      of "replicate 32 1" "Some (replicate 32 4)" w0 1 9] sign
  show ?thesis by auto
qed

text \<open>How the initiator fails: with an invalid key or an invalid signature and nothing else; the
  other two errors of its type never occur. It draws randomness only after all checks, so that
  a refused bundle leaves the environment unchanged, and it panics only where a key of the
  bundle does not lift to the curve.\<close>

lemma initiator_failures:
  assumes "crypto_ok c"
  shows "case x3dh_initiator c e w ia bndl of
      (Ok r, w') \<Rightarrow> is_array 32 (shared_secret r) \<and> check_signature c e bndl = Ok () \<and>
         is_valid_public_key e (identity_key bndl) = (Ok True :: (bool, X3DHError) result) \<and>
         is_valid_public_key e (spk_public_key (signed_prekey bndl)) = (Ok True :: (bool, X3DHError) result)
    | (Err x, w') \<Rightarrow> (x = InvalidKey \<or> x = InvalidSignature) \<and> w' = w
    | (Panic, w') \<Rightarrow> w' = w"
  by (rule initiator_cases [OF assms])

text \<open>The responder fails only with an invalid key; both public keys are checked before any
  Diffie-Hellman is computed, and a success is a 32-byte secret.\<close>

lemma responder_failures:
  assumes "crypto_ok c"
  shows "case x3dh_responder c e ib spk opk ia ek of
      Ok s \<Rightarrow> is_array 32 s \<and> is_valid_public_key e ia = (Ok True :: (bool, X3DHError) result) \<and>
              is_valid_public_key e ek = (Ok True :: (bool, X3DHError) result)
    | Err x \<Rightarrow> x = InvalidKey
    | Panic \<Rightarrow> check_keys e ia ek = Panic"
  by (rule responder_cases [OF assms])

end
