(* ===== verification/Ratchet_C.thy ===== *)
theory Ratchet_C
  imports Chain_Delivery C_Interface X3dh
begin

text \<open>
  The C bindings of the Double Ratchet, \<^verbatim>\<open>src/ffi/ratchet.rs\<close>: sessions as boxes behind raw
  pointers, messages returned in leaked vectors the caller frees, and sessions written to and
  read from JSON text.
\<close>

section \<open>The memory\<close>

record RatchetEncryptResult =
  er_header :: ptr
  er_header_len :: nat
  er_ciphertext :: ptr
  er_ciphertext_len :: nat
  er_status :: int

record RatchetDecryptResult =
  dr_plaintext :: ptr
  dr_plaintext_len :: nat
  dr_status :: int

text \<open>
  \<open>boxes\<close>, \<open>vecs\<close> and \<open>c_strings\<close> are what \<^verbatim>\<open>Box::into_raw\<close>, leaked vectors and
  \<^verbatim>\<open>CString::into_raw\<close> own; the caller owns \<open>caller_blocks\<close> and the two kinds of result
  structs. Lengths are \<^verbatim>\<open>usize\<close>, statuses \<^verbatim>\<open>i32\<close>.
\<close>

record c_memory =
  next_addr :: nat
  caller_blocks :: "nat \<rightharpoonup> bytes"
  boxes :: "nat \<rightharpoonup> RatchetState"
  vecs :: "nat \<rightharpoonup> bytes"
  c_strings :: "nat \<rightharpoonup> bytes"
  encrypt_outs :: "nat \<rightharpoonup> RatchetEncryptResult"
  decrypt_outs :: "nat \<rightharpoonup> RatchetDecryptResult"
  c_world :: World

definition bytes_at :: "c_memory \<Rightarrow> nat \<Rightarrow> bytes option" where
  "bytes_at m a =
     (case caller_blocks m a of
        Some b \<Rightarrow> Some b
      | None \<Rightarrow> (case vecs m a of Some b \<Rightarrow> Some b | None \<Rightarrow> c_strings m a))"

text \<open>\<^verbatim>\<open>Box::into_raw\<close>, \<^verbatim>\<open>drop(Box::from_raw(p))\<close> and dereferencing a session pointer.\<close>

definition box_into_raw :: "RatchetState \<Rightarrow> (ptr, c_memory) c_call" where
  "box_into_raw st m =
     Returned (Addr (next_addr m))
       (m\<lparr>boxes := (boxes m)(next_addr m \<mapsto> st), next_addr := Suc (next_addr m)\<rparr>)"

definition drop_box :: "ptr \<Rightarrow> (unit, c_memory) c_call" where
  "drop_box p m =
     (case p of
        Null \<Rightarrow> Undefined
      | Addr a \<Rightarrow> if boxes m a = None then Undefined else Returned () (m\<lparr>boxes := (boxes m)(a := None)\<rparr>))"

definition deref_session :: "ptr \<Rightarrow> (RatchetState, c_memory) c_call" where
  "deref_session p m =
     (case p of
        Null \<Rightarrow> Undefined
      | Addr a \<Rightarrow> (case boxes m a of None \<Rightarrow> Undefined | Some st \<Rightarrow> Returned st m))"

definition update_session :: "ptr \<Rightarrow> RatchetState \<Rightarrow> World \<Rightarrow> (unit, c_memory) c_call" where
  "update_session p st w m =
     (case p of
        Null \<Rightarrow> Undefined
      | Addr a \<Rightarrow> Returned () (m\<lparr>boxes := (boxes m)(a \<mapsto> st), c_world := w\<rparr>))"

text \<open>
  \<^verbatim>\<open>as_mut_ptr\<close> and \<^verbatim>\<open>mem::forget\<close>: an empty vector owns no memory and its pointer dangles.
  \<^verbatim>\<open>Vec::from_raw_parts(p, len, len)\<close> takes back a leaked vector of exactly that length (the
  bindings shrink a vector before leaking it).
\<close>

definition leak_vec :: "bytes \<Rightarrow> (ptr, c_memory) c_call" where
  "leak_vec b m =
     Returned (Addr (next_addr m))
       (m\<lparr>vecs := (if b = [] then vecs m else (vecs m)(next_addr m \<mapsto> b)), next_addr := Suc (next_addr m)\<rparr>)"

definition drop_vec :: "ptr \<Rightarrow> nat \<Rightarrow> (unit, c_memory) c_call" where
  "drop_vec p len m =
     (case p of
        Null \<Rightarrow> Undefined
      | Addr a \<Rightarrow>
          (case vecs m a of
             None \<Rightarrow> Undefined
           | Some b \<Rightarrow> if length b = len then Returned () (m\<lparr>vecs := (vecs m)(a := None)\<rparr>) else Undefined))"

definition write_encrypt_result :: "ptr \<Rightarrow> RatchetEncryptResult \<Rightarrow> (unit, c_memory) c_call" where
  "write_encrypt_result p r m =
     (case p of
        Null \<Rightarrow> Undefined
      | Addr a \<Rightarrow> if encrypt_outs m a = None then Undefined
                 else Returned () (m\<lparr>encrypt_outs := (encrypt_outs m)(a \<mapsto> r)\<rparr>))"

definition write_decrypt_result :: "ptr \<Rightarrow> RatchetDecryptResult \<Rightarrow> (unit, c_memory) c_call" where
  "write_decrypt_result p r m =
     (case p of
        Null \<Rightarrow> Undefined
      | Addr a \<Rightarrow> if decrypt_outs m a = None then Undefined
                 else Returned () (m\<lparr>decrypt_outs := (decrypt_outs m)(a \<mapsto> r)\<rparr>))"

section \<open>Freeing\<close>

definition ratchet_free_byte_buffer :: "ptr \<Rightarrow> nat \<Rightarrow> (unit, c_memory) c_call" where
  "ratchet_free_byte_buffer buffer len =
     (if buffer \<noteq> Null \<and> len > 0 then drop_vec buffer len else c_ret ())"

definition ratchet_free_result_buffers :: "ptr \<Rightarrow> nat \<Rightarrow> ptr \<Rightarrow> nat \<Rightarrow> (unit, c_memory) c_call" where
  "ratchet_free_result_buffers hdr header_len ciphertext ciphertext_len =
     c_bind (if hdr \<noteq> Null \<and> header_len > 0 then drop_vec hdr header_len else c_ret ()) (\<lambda>_.
       if ciphertext \<noteq> Null \<and> ciphertext_len > 0 then drop_vec ciphertext ciphertext_len else c_ret ())"

definition ratchet_free_ffi :: "ptr \<Rightarrow> (unit, c_memory) c_call" where
  "ratchet_free_ffi state = (if state \<noteq> Null then drop_box state else c_ret ())"

definition ratchet_free_string :: "ptr \<Rightarrow> (unit, c_memory) c_call" where
  "ratchet_free_string s m =
     (case s of
        Null \<Rightarrow> Returned () m
      | Addr a \<Rightarrow> if c_strings m a = None then Undefined
                 else Returned () (m\<lparr>c_strings := (c_strings m)(a := None)\<rparr>))"

section \<open>Sessions\<close>

definition ratchet_init_sender_ffi :: "crypto \<Rightarrow> ptr \<Rightarrow> ptr \<Rightarrow> (ptr, c_memory) c_call" where
  "ratchet_init_sender_ffi c sk receiver_dh_public =
     c_bind (array_ref bytes_at 32 sk) (\<lambda>sk_bytes.
     c_bind (array_ref bytes_at 33 receiver_dh_public) (\<lambda>pub_bytes m.
       c_result (decode_public_key pub_bytes) (\<lambda>decoded.
         case decoded of
           Ok receiver_pub \<Rightarrow>
             (\<lambda>m. let (r, w) = init_sender_state c (c_world m) sk_bytes receiver_pub;
                     m1 = m\<lparr>c_world := w\<rparr>
                  in c_result r (\<lambda>r. case r of Ok st \<Rightarrow> box_into_raw st | _ \<Rightarrow> c_ret Null) m1)
         | _ \<Rightarrow> c_ret Null) m))"

definition ratchet_init_receiver_ffi :: "crypto \<Rightarrow> ptr \<Rightarrow> ptr \<Rightarrow> ptr \<Rightarrow> (ptr, c_memory) c_call" where
  "ratchet_init_receiver_ffi c sk receiver_dh_private receiver_dh_public =
     c_bind (array_ref bytes_at 32 sk) (\<lambda>sk_bytes.
     c_bind (array_ref bytes_at 32 receiver_dh_private) (\<lambda>priv_bytes.
     c_bind (array_ref bytes_at 33 receiver_dh_public) (\<lambda>pub_bytes.
       c_result (decode_public_key pub_bytes) (\<lambda>decoded.
         case decoded of
           Ok receiver_pub \<Rightarrow>
             c_result (init_receiver_state c sk_bytes (priv_bytes, receiver_pub))
               (\<lambda>r. case r of Ok st \<Rightarrow> box_into_raw st | _ \<Rightarrow> c_ret Null)
         | _ \<Rightarrow> c_ret Null))))"

definition validate_inputs :: "ptr \<Rightarrow> nat \<Rightarrow> bool" where
  "validate_inputs p len \<longleftrightarrow> \<not> (p = Null \<and> len > 0)"

fun map_error :: "RatchetError \<Rightarrow> int" where
  "map_error RatchetError.InvalidKey = -1"
| "map_error DecryptionFailed = -2"
| "map_error OldMessageKeysLimitReached = -3"
| "map_error DuplicateMessage = -4"
| "map_error InvalidHeader = -5"
| "map_error HeaderDecryptionFailed = -6"
| "map_error CounterOverflow = -7"
| "map_error ADTooLarge = -8"
| "map_error InvalidState = -9"
| "map_error TooManyMessages = -10"

definition encrypt_failure :: "RatchetError \<Rightarrow> RatchetEncryptResult" where
  "encrypt_failure e =
     \<lparr> er_header = Null, er_header_len = 0, er_ciphertext = Null, er_ciphertext_len = 0, er_status = map_error e \<rparr>"

definition decrypt_failure :: "RatchetError \<Rightarrow> RatchetDecryptResult" where
  "decrypt_failure e = \<lparr> dr_plaintext = Null, dr_plaintext_len = 0, dr_status = map_error e \<rparr>"

definition return_message :: "ptr \<Rightarrow> (bytes \<times> bytes, RatchetError) result \<Rightarrow> (int, c_memory) c_call" where
  "return_message output r =
     (case r of
        Ok (header_vec, cipher_vec) \<Rightarrow>
          c_bind (leak_vec header_vec) (\<lambda>h_ptr.
          c_bind (leak_vec cipher_vec) (\<lambda>c_ptr.
          c_bind (write_encrypt_result output
                    \<lparr> er_header = h_ptr, er_header_len = length header_vec, er_ciphertext = c_ptr,
                      er_ciphertext_len = length cipher_vec, er_status = 0 \<rparr>) (\<lambda>_.
          c_ret 0)))
      | Err e \<Rightarrow> c_bind (write_encrypt_result output (encrypt_failure e)) (\<lambda>_. c_ret (map_error e))
      | Panic \<Rightarrow> (\<lambda>_. Aborted))"

definition ratchet_encrypt_ffi :: "crypto \<Rightarrow> ptr \<Rightarrow> ptr \<Rightarrow> nat \<Rightarrow> ptr \<Rightarrow> nat \<Rightarrow> ptr \<Rightarrow> (int, c_memory) c_call" where
  "ratchet_encrypt_ffi c state_ptr plaintext plaintext_len ad ad_len output =
     (if state_ptr = Null \<or> output = Null then c_ret (-100)
      else c_bind (deref_session state_ptr) (\<lambda>state.
           c_bind (optional_slice bytes_at plaintext plaintext_len) (\<lambda>plaintext_slice.
           c_bind (optional_slice bytes_at ad ad_len) (\<lambda>ad_slice m.
             let (r, state') = encrypt c state plaintext_slice ad_slice
             in c_bind (update_session state_ptr state' (c_world m)) (\<lambda>_. return_message output r) m))))"

definition return_plaintext :: "ptr \<Rightarrow> (bytes, RatchetError) result \<Rightarrow> (int, c_memory) c_call" where
  "return_plaintext output r =
     (case r of
        Ok p_vec \<Rightarrow>
          c_bind (leak_vec p_vec) (\<lambda>p_ptr.
          c_bind (write_decrypt_result output
                    \<lparr> dr_plaintext = p_ptr, dr_plaintext_len = length p_vec, dr_status = 0 \<rparr>) (\<lambda>_.
          c_ret 0))
      | Err e \<Rightarrow> c_bind (write_decrypt_result output (decrypt_failure e)) (\<lambda>_. c_ret (map_error e))
      | Panic \<Rightarrow> (\<lambda>_. Aborted))"

definition ratchet_decrypt_ffi :: "crypto \<Rightarrow> ptr \<Rightarrow> ptr \<Rightarrow> nat \<Rightarrow> ptr \<Rightarrow> nat \<Rightarrow> ptr \<Rightarrow> nat \<Rightarrow> ptr \<Rightarrow> (int, c_memory) c_call" where
  "ratchet_decrypt_ffi c state_ptr hdr header_len ciphertext ciphertext_len ad ad_len output =
     (if state_ptr = Null \<or> output = Null then c_ret (-100)
      else if \<not> validate_inputs hdr header_len then c_ret (-101)
      else c_bind (deref_session state_ptr) (\<lambda>state.
           c_bind (from_raw_parts bytes_at hdr header_len) (\<lambda>header_slice.
           c_bind (optional_slice bytes_at ciphertext ciphertext_len) (\<lambda>ciphertext_slice.
           c_bind (optional_slice bytes_at ad ad_len) (\<lambda>ad_slice m.
             let (r, state', w) = decrypt c (c_world m) state header_slice ciphertext_slice ad_slice
             in c_bind (update_session state_ptr state' w) (\<lambda>_. return_plaintext output r) m)))))"

section \<open>Sessions as JSON text\<close>

definition ratchet_serialize :: "json_codec \<Rightarrow> ptr \<Rightarrow> (ptr, c_memory) c_call" where
  "ratchet_serialize j state_ptr =
     (if state_ptr = Null then c_ret Null
      else c_bind (deref_session state_ptr) (\<lambda>state m.
        case state_to_json j (c_world m) state of
          None \<Rightarrow> Returned Null m
        | Some json_str \<Rightarrow>
            (case c_string_of json_str of
               None \<Rightarrow> Returned Null m
             | Some c_str \<Rightarrow>
                 Returned (Addr (next_addr m))
                   (m\<lparr>c_strings := (c_strings m)(next_addr m \<mapsto> c_str), next_addr := Suc (next_addr m)\<rparr>))))"

definition ratchet_deserialize :: "json_codec \<Rightarrow> ptr \<Rightarrow> (ptr, c_memory) c_call" where
  "ratchet_deserialize j json_ptr =
     (case json_ptr of
        Null \<Rightarrow> c_ret Null
      | Addr a \<Rightarrow>
          c_bind (read_c_string bytes_at a) (\<lambda>json_str.
            if \<not> is_utf8 json_str then c_ret Null
            else (case state_from_json j json_str of
                    None \<Rightarrow> c_ret Null
                  | Some state \<Rightarrow> box_into_raw state)))"

end
