(* ===== verification/Foreign_Sessions.thy ===== *)
theory Foreign_Sessions
  imports Session_Json
begin

text \<open>
  Sessions read from a text the library did not write. \<^verbatim>\<open>serde\<close> guarantees their types only: keys
  of 32 bytes, but any combination of present and absent keys and a store of any size. Encryption
  and decryption keep these types and never panic on such a session either. The interface
  \<open>session_kept\<close> is what the bindings need of a property of sessions; both the session invariant
  and the types alone provide it.
\<close>

section \<open>What every operation keeps of a well-typed session\<close>

lemma encrypt_typed:
  assumes "ratchet_crypto c" and "wf_state st" and "encrypt c st p ad = (r, st')"
  shows "wf_state st'" and "r \<noteq> Panic"
proof -
  have "ck_s st' = ck_s st \<or> (\<exists>ck. ck_s st = Some ck \<and> ck_s st' = Some (fst (kdf_ck c ck)))"
    using assms(3) by (rule encrypt_frame)
  then have "option_array 32 (ck_s st')"
    using wf_stateD(5) [OF assms(2)] kdf_ck_sized(1) [OF ratchet_cryptoD(1) [OF assms(1)]] by auto
  then show "wf_state st'"
    using assms(2) by (subst encrypt_frame(1) [OF assms(3)]) (auto simp: wf_state_def)
  have "validate_encryption_state st = Ok () \<Longrightarrow> ck_s st \<noteq> None" and "validate_encryption_state st \<noteq> Panic"
    by (auto simp: validate_encryption_state_def split: if_splits)
  then show "r \<noteq> Panic"
    using assms(3) encrypt_header_cases(2) encrypt_aead_no_Panic [OF ratchet_cryptoD(2) [OF assms(1)]]
    by (auto simp: encrypt_def Let_def split: result.splits option.splits if_splits prod.splits)
      (metis result.distinct(3))+
qed

lemma wf_state_skipped: "wf_state st \<Longrightarrow> wf_skipped m \<Longrightarrow> wf_state (st\<lparr>mkskipped := m\<rparr>)"
  by (simp add: wf_state_def)

lemma skip_message_keys_typed:
  assumes "hmac_sized c" and "wf_skipped m" and "is_array 32 hk"
  shows "(\<exists>m' w'. skip_message_keys c w m ck hk n target = (Ok m', w') \<and> wf_skipped m') \<or>
    (\<exists>e. skip_message_keys c w m ck hk n target = (Err e, w))"
proof -
  note cases = skip_message_keys_cases [OF assms(2,3,1), where target = target and from_n = n and w = w and ck = ck]
  consider "target < n" | "n \<le> target" "unat target - unat n > 1000" | "n \<le> target" "unat target - unat n \<le> 1000"
    by (meson linorder_not_le)
  then show ?thesis using cases by cases blast+
qed

lemma store_chain_gap_typed:
  assumes "ratchet_crypto c" and "wf_state st"
  shows "st_safe wf_state (\<lambda>_ s. ck_r s = ck_r st) (store_chain_gap c target st w)"
proof (cases "\<exists>ck hk. ck_r st = Some ck \<and> hk_r st = Some hk")
  case True
  then obtain ck hk where keys: "ck_r st = Some ck" "hk_r st = Some hk" by blast
  have "wf_skipped (mkskipped st)" "is_array 32 hk" using wf_stateD(8,11) [OF assms(2)] keys by simp_all
  from skip_message_keys_typed [OF ratchet_cryptoD(1) [OF assms(1)] this, of w ck "nr st" target] show ?thesis
    using keys assms(2) by (auto simp: store_chain_gap_def intro!: wf_state_skipped)
next
  case False
  then have "store_chain_gap c target st w = (Ok (), st, w)" by (auto simp: store_chain_gap_def split: option.split)
  with assms(2) show ?thesis by simp
qed

lemma perform_dh_ratchet_typed:
  assumes "ratchet_crypto c" and "wf_state st" and "is_array 32 pub"
  shows "st_safe wf_state (\<lambda>_ s. ck_r s \<noteq> None) (perform_dh_ratchet c pub st w)"
  by (rule perform_dh_ratchet_ok [OF assms(1), of st pub w])
    (use assms x25519_sizedD(1) [OF ratchet_cryptoD(3) [OF assms(1)]] in \<open>auto simp: wf_state_def\<close>)

lemma advance_receiving_typed:
  assumes "ratchet_crypto c" and "wf_state st" and "ck_r st \<noteq> None"
  shows "st_safe wf_state (\<lambda>_ _. True) (advance_receiving c st w)"
  using assms kdf_ck_sized(1) [OF ratchet_cryptoD(1) [OF assms(1)]]
  by (auto simp: advance_receiving_def Let_def wf_state_def split: option.splits)

lemma commit_typed:
  assumes c: "ratchet_crypto c" and inv: "wf_state st" and h: "valid_header h" and chain: "dh_ratchet \<or> ck_r st \<noteq> None"
  shows "st_safe wf_state (\<lambda>_ _. True) (commit_state_changes c h dh_ratchet st w)"
  unfolding commit_state_changes_def
proof (rule st_safe_bind [where Q = "\<lambda>_ s. ck_r s \<noteq> None"])
  have pub: "is_array 32 (dh_pub h)" using h by (simp add: valid_header_def)
  have "st_safe wf_state (\<lambda>_ s. ck_r s \<noteq> None)
      (bind_st (store_chain_gap c (hdr_pn h) st w) (\<lambda>_. perform_dh_ratchet c (dh_pub h)))"
    by (rule st_safe_bind [OF store_chain_gap_typed [OF c inv]]) (rule perform_dh_ratchet_typed [OF c _ pub])
  then show "st_safe wf_state (\<lambda>_ s. ck_r s \<noteq> None)
      (if dh_ratchet
       then bind_st (store_chain_gap c (hdr_pn h) st w) (\<lambda>_. perform_dh_ratchet c (dh_pub h))
       else (Ok (), st, w))"
    using inv chain by auto
next
  fix a s w
  assume "wf_state s" and "ck_r s \<noteq> None"
  then show "st_safe wf_state (\<lambda>_ _. True) (bind_st (store_chain_gap c (hdr_n h) s w) (\<lambda>_. advance_receiving c))"
    by (intro st_safe_bind [OF store_chain_gap_typed [OF c]] advance_receiving_typed [OF c]) auto
qed

text \<open>A message key is computed from a receiving chain only, so the commit finds one.\<close>

lemma message_key_chain: "compute_message_key c st h False = Ok mk \<Longrightarrow> ck_r st \<noteq> None"
  by (auto simp: compute_message_key_def split: if_splits)

lemma decrypt_with_ratchet_typed:
  assumes c: "ratchet_crypto c" and inv: "wf_state st"
  shows "st_safe wf_state (\<lambda>_ _. True) (decrypt_with_ratchet c w st eh ct ad)"
proof (cases "decrypt_header c st eh")
  case (Ok hb)
  obtain h b where hb: "hb = (h, b)" by (cases hb)
  have h: "valid_header h" using decrypt_header_OkD(1) Ok hb by blast
  let ?opened = "and_then (compute_message_key c st h b) (\<lambda>mk. decrypt_aead c mk ct ad)"
  have "?opened \<noteq> Panic"
    using decrypt_aead_no_Panic [OF ratchet_cryptoD(2) [OF c]] by (simp add: and_then_eq_Panic)
  moreover have "b \<or> ck_r st \<noteq> None" if "?opened = Ok p" for p
    using that message_key_chain [of c st h] by (cases b) auto
  ultimately have "st_safe wf_state (\<lambda>_ s. s = st \<and> (b \<or> ck_r st \<noteq> None)) (?opened, st, w)"
    using inv by (cases ?opened) auto
  then have "st_safe wf_state (\<lambda>_ _. True)
      (bind_st (?opened, st, w) (\<lambda>p s w. bind_st (commit_state_changes c h b s w) (\<lambda>_. track_received (dh_pub h, hdr_n h) p)))"
    by (rule st_safe_bind)
      (auto intro!: st_safe_bind [OF commit_typed [OF c _ h]] simp: track_received_def wf_state_def)
  then show ?thesis using Ok hb inv by (simp add: decrypt_with_ratchet_def Let_def)
qed (simp_all add: decrypt_with_ratchet_def inv)

lemma decrypt_typed:
  assumes c: "ratchet_crypto c" and inv: "wf_state st"
  shows "st_safe wf_state (\<lambda>_ _. True) (decrypt c w st eh ct ad)"
proof -
  have "wf_state (st\<lparr>mkskipped := AList.delete k (mkskipped st)\<rparr>)" for k
    by (rule wf_state_skipped [OF inv wf_skipped_delete [OF wf_stateD(11) [OF inv]]])
  then show ?thesis
    using try_skipped_cases [OF ratchet_cryptoD(2) [OF c], of w "mkskipped st" eh ct "concat_ad ad eh"]
      decrypt_with_ratchet_typed [OF c inv, of w eh ct "concat_ad ad eh"] inv
    by (auto simp: decrypt_def Let_def)
qed

section \<open>The interface\<close>

locale session_kept =
  fixes ok :: "RatchetState \<Rightarrow> bool"
  assumes invariant_ok: "ratchet_inv st \<Longrightarrow> ok st"
    and encrypt_ok: "ratchet_crypto c \<Longrightarrow> ok st \<Longrightarrow> encrypt c st p ad = (r, st') \<Longrightarrow> ok st' \<and> r \<noteq> Panic"
    and decrypt_ok: "ratchet_crypto c \<Longrightarrow> ok st \<Longrightarrow> decrypt c w st eh ct ad = (d, st', w') \<Longrightarrow> ok st' \<and> d \<noteq> Panic"

interpretation strict: session_kept ratchet_inv
proof
  fix c st w eh ct ad r st' w'
  assume "ratchet_crypto c" "ratchet_inv st" "decrypt c w st eh ct ad = (r, st', w')"
  then show "ratchet_inv st' \<and> r \<noteq> Panic" using decrypt_safe st_safeD by metis
qed (use encrypt_inv in blast)+

interpretation typed: session_kept wf_state
proof
  fix c st w eh ct ad r st' w'
  assume "ratchet_crypto c" "wf_state st" "decrypt c w st eh ct ad = (r, st', w')"
  then show "wf_state st' \<and> r \<noteq> Panic" using decrypt_typed st_safeD by metis
qed (use encrypt_typed ratchet_invD(1) in blast)+

section \<open>Reading a text\<close>

text \<open>The derived deserialisers read arrays of their declared length, or nothing.\<close>

definition entry_typed :: "(entry, unit) result \<Rightarrow> bool" where
  "entry_typed x = (case x of Ok ((hk, n), s) \<Rightarrow> is_array 32 hk \<and> is_array 32 (skipped_mk s) | _ \<Rightarrow> True)"

definition json_typed :: "json_codec \<Rightarrow> bool" where
  "json_typed j \<longleftrightarrow>
     (\<forall>s st es. json_read j s = Some (st, es) \<longrightarrow> wf_state (st\<lparr>mkskipped := []\<rparr>) \<and> list_all entry_typed es)"

lemma visit_seq_typed:
  "visit_seq es m = Ok m' \<Longrightarrow> list_all entry_typed es \<Longrightarrow> wf_skipped m \<Longrightarrow> wf_skipped m'"
proof (induction es m rule: visit_seq.induct)
  case (2 elem elems m)
  then obtain hk n s where elem: "elem = Ok ((hk, n), s)" by (cases elem) auto
  have "wf_skipped (AList.update (hk, n) s m)"
    using "2.prems"(2,3) by (intro wf_skipped_insert) (simp_all add: elem entry_typed_def)
  then show ?case using 2 by (simp add: elem)
qed simp

lemma read_typed:
  assumes "json_typed j" and "state_from_json j s = Some st"
  shows "wf_state st"
proof -
  obtain st0 es m where read: "json_read j s = Some (st0, es)" "deserialize_skipped_map es = Ok m" "st = st0\<lparr>mkskipped := m\<rparr>"
    using assms(2) by (auto simp: state_from_json_def split: option.splits prod.splits result.splits)
  then have "wf_state (st0\<lparr>mkskipped := []\<rparr>)" "list_all entry_typed es" using assms(1) by (auto simp: json_typed_def)
  moreover have "wf_skipped m"
    using visit_seq_typed read(2) calculation(2) by (simp add: deserialize_skipped_map_def)
  ultimately show ?thesis by (simp add: read(3) wf_state_def)
qed

end
