(* ===== verification/Ratchet_C_Safe.thy ===== *)
theory Ratchet_C_Safe
  imports Ratchet_C Foreign_Sessions
begin

text \<open>
  The C bindings of the Double Ratchet under a caller that keeps to the \<^verbatim>\<open># Safety\<close> sections
  of \<^verbatim>\<open>src/ffi/ratchet.rs\<close>: no call is undefined behaviour or aborts, and the messages that
  leave one session through raw memory arrive at the other.
\<close>

section \<open>The invariant of the memory\<close>

definition below :: "nat \<Rightarrow> (nat \<rightharpoonup> 'a) \<Rightarrow> bool" where
  "below n f \<longleftrightarrow> (\<forall>a. f a \<noteq> None \<longrightarrow> a < n)"

lemma belowD: "below n f \<Longrightarrow> f n = None"
  unfolding below_def by blast

lemma below_intros [simp, intro]:
  "below n f \<Longrightarrow> below (Suc n) f"
  "below n f \<Longrightarrow> below n (f(a := None))"
  "below n f \<Longrightarrow> below (Suc n) (f(n \<mapsto> x))"
  "below n f \<Longrightarrow> f a \<noteq> None \<Longrightarrow> below n (f(a \<mapsto> y))"
  "below n Map.empty"
  unfolding below_def by auto

definition c_inv_of :: "(RatchetState \<Rightarrow> bool) \<Rightarrow> c_memory \<Rightarrow> bool" where
  "c_inv_of ok m \<longleftrightarrow>
     below (next_addr m) (caller_blocks m) \<and> below (next_addr m) (boxes m) \<and>
     below (next_addr m) (vecs m) \<and> below (next_addr m) (c_strings m) \<and>
     below (next_addr m) (encrypt_outs m) \<and> below (next_addr m) (decrypt_outs m) \<and>
     (\<forall>a st. boxes m a = Some st \<longrightarrow> ok st)"

abbreviation c_inv :: "c_memory \<Rightarrow> bool" where
  "c_inv \<equiv> c_inv_of ratchet_inv"

lemma c_invD:
  assumes "c_inv_of ok m"
  shows "below (next_addr m) (caller_blocks m)" "below (next_addr m) (boxes m)"
    "below (next_addr m) (vecs m)" "below (next_addr m) (c_strings m)"
    "below (next_addr m) (encrypt_outs m)" "below (next_addr m) (decrypt_outs m)"
    "boxes m a = Some st \<Longrightarrow> ok st"
  using assms by (auto simp: c_inv_of_def)

text \<open>What stays in place while a call runs: the blocks the caller refers to.\<close>

definition same_args :: "c_memory \<Rightarrow> c_memory \<Rightarrow> bool" where
  "same_args m m' \<longleftrightarrow>
     dom (encrypt_outs m') = dom (encrypt_outs m) \<and> dom (decrypt_outs m') = dom (decrypt_outs m)"

lemma same_args_simps [simp]:
  "same_args m m"
  "same_args m (m'\<lparr>boxes := b\<rparr>) = same_args m m'"
  "same_args m (m'\<lparr>vecs := v\<rparr>) = same_args m m'"
  "same_args m (m'\<lparr>c_strings := s\<rparr>) = same_args m m'"
  "same_args m (m'\<lparr>next_addr := n\<rparr>) = same_args m m'"
  "same_args m (m'\<lparr>c_world := w\<rparr>) = same_args m m'"
  by (simp_all add: same_args_def)

lemma out_None_iff: "same_args m m' \<Longrightarrow> encrypt_outs m' a = None \<longleftrightarrow> encrypt_outs m a = None"
    "same_args m m' \<Longrightarrow> decrypt_outs m' a = None \<longleftrightarrow> decrypt_outs m a = None"
  unfolding same_args_def by (metis domIff)+

abbreviation c_keeps :: "(RatchetState \<Rightarrow> bool) \<Rightarrow> c_memory \<Rightarrow> ('a, c_memory) c_result \<Rightarrow> bool" where
  "c_keeps ok m \<equiv> c_safe (\<lambda>m'. c_inv_of ok m' \<and> same_args m m') (\<lambda>_ _. True)"

lemma c_keeps_bind:
  assumes "c_keeps ok m (f m0)" and "\<And>a m'. c_inv_of ok m' \<Longrightarrow> same_args m m' \<Longrightarrow> c_keeps ok m (g a m')"
  shows "c_keeps ok m (c_bind f g m0)"
  using assms by (auto elim!: c_safeE)

lemma c_keeps_box [simp]:
  "c_inv_of ok m' \<Longrightarrow> same_args m m' \<Longrightarrow> ok st \<Longrightarrow> c_keeps ok m (box_into_raw st m')"
  by (auto simp: box_into_raw_def c_inv_of_def)

lemma c_keeps_leak [simp]:
  "c_inv_of ok m' \<Longrightarrow> same_args m m' \<Longrightarrow> c_keeps ok m (leak_vec b m')"
  by (auto simp: leak_vec_def c_inv_of_def)

lemma c_keeps_update [simp]:
  "c_inv_of ok m' \<Longrightarrow> same_args m m' \<Longrightarrow> boxes m' a \<noteq> None \<Longrightarrow> ok st \<Longrightarrow>
     c_keeps ok m (update_session (Addr a) st w m')"
  by (auto simp: update_session_def c_inv_of_def)

lemma c_keeps_write [simp]:
  "c_inv_of ok m' \<Longrightarrow> same_args m m' \<Longrightarrow> encrypt_outs m a \<noteq> None \<Longrightarrow> c_keeps ok m (write_encrypt_result (Addr a) er m')"
  "c_inv_of ok m' \<Longrightarrow> same_args m m' \<Longrightarrow> decrypt_outs m a \<noteq> None \<Longrightarrow> c_keeps ok m (write_decrypt_result (Addr a) dr m')"
  using out_None_iff [of m m' a]
  by (auto simp: write_encrypt_result_def write_decrypt_result_def c_inv_of_def same_args_def)

section \<open>Calls of a careful caller\<close>

datatype c_call_op =
    AllocBytes bytes
  | AllocEncryptOut
  | AllocDecryptOut
  | InitSender ptr ptr
  | InitReceiver ptr ptr ptr
  | FreeSession ptr
  | Encrypt ptr ptr nat ptr nat ptr
  | Decrypt ptr ptr nat ptr nat ptr nat ptr
  | FreeResult ptr nat ptr nat
  | FreeBuffer ptr nat
  | Serialize ptr
  | Deserialize ptr
  | FreeString ptr

text \<open>The first three are the caller's own allocations; the rest are the exported functions.\<close>

fun c_step :: "crypto \<Rightarrow> json_codec \<Rightarrow> c_call_op \<Rightarrow> (unit, c_memory) c_call" where
  "c_step c j (AllocBytes b) m =
     Returned () (m\<lparr>caller_blocks := (caller_blocks m)(next_addr m \<mapsto> b), next_addr := Suc (next_addr m)\<rparr>)"
| "c_step c j AllocEncryptOut m =
     Returned () (m\<lparr>encrypt_outs := (encrypt_outs m)(next_addr m \<mapsto> \<lparr> er_header = Null, er_header_len = 0,
                     er_ciphertext = Null, er_ciphertext_len = 0, er_status = 0 \<rparr>), next_addr := Suc (next_addr m)\<rparr>)"
| "c_step c j AllocDecryptOut m =
     Returned () (m\<lparr>decrypt_outs := (decrypt_outs m)(next_addr m \<mapsto> \<lparr> dr_plaintext = Null, dr_plaintext_len = 0,
                     dr_status = 0 \<rparr>), next_addr := Suc (next_addr m)\<rparr>)"
| "c_step c j (InitSender sk pub) m = c_bind (ratchet_init_sender_ffi c sk pub) (\<lambda>_. c_ret ()) m"
| "c_step c j (InitReceiver sk priv pub) m = c_bind (ratchet_init_receiver_ffi c sk priv pub) (\<lambda>_. c_ret ()) m"
| "c_step c j (FreeSession p) m = ratchet_free_ffi p m"
| "c_step c j (Encrypt s p pl a al out) m = c_bind (ratchet_encrypt_ffi c s p pl a al out) (\<lambda>_. c_ret ()) m"
| "c_step c j (Decrypt s h hl ct cl a al out) m =
     c_bind (ratchet_decrypt_ffi c s h hl ct cl a al out) (\<lambda>_. c_ret ()) m"
| "c_step c j (FreeResult h hl ct cl) m = ratchet_free_result_buffers h hl ct cl m"
| "c_step c j (FreeBuffer p len) m = ratchet_free_byte_buffer p len m"
| "c_step c j (Serialize s) m = c_bind (ratchet_serialize j s) (\<lambda>_. c_ret ()) m"
| "c_step c j (Deserialize p) m = c_bind (ratchet_deserialize j p) (\<lambda>_. c_ret ()) m"
| "c_step c j (FreeString p) m = ratchet_free_string p m"

definition held :: "(nat \<rightharpoonup> 'a) \<Rightarrow> ptr \<Rightarrow> bool" where
  "held f p \<longleftrightarrow> (case p of Null \<Rightarrow> True | Addr a \<Rightarrow> f a \<noteq> None)"

definition owned_vec :: "c_memory \<Rightarrow> ptr \<Rightarrow> nat \<Rightarrow> bool" where
  "owned_vec m p len \<longleftrightarrow> p = Null \<or> len = 0 \<or> (\<exists>a b. p = Addr a \<and> vecs m a = Some b \<and> length b = len)"

text \<open>
  The documented obligations. A session pointer comes from an initialisation and has not been
  freed, or is null; slices are valid for their lengths; a result struct is writable or null;
  buffers are freed once, with their length; a text that is read back is zero-terminated.
\<close>

fun permitted :: "c_memory \<Rightarrow> c_call_op \<Rightarrow> bool" where
  "permitted m (InitSender sk pub) \<longleftrightarrow>
     (\<exists>b. points_to bytes_at m sk 32 b) \<and> (\<exists>b. points_to bytes_at m pub 33 b)"
| "permitted m (InitReceiver sk priv pub) \<longleftrightarrow>
     (\<exists>b. points_to bytes_at m sk 32 b) \<and> (\<exists>b. points_to bytes_at m priv 32 b) \<and> (\<exists>b. points_to bytes_at m pub 33 b)"
| "permitted m (FreeSession s) \<longleftrightarrow> held (boxes m) s"
| "permitted m (Encrypt s p pl a al out) \<longleftrightarrow>
     held (boxes m) s \<and> slice_arg bytes_at m p pl \<and> slice_arg bytes_at m a al \<and> held (encrypt_outs m) out"
| "permitted m (Decrypt s h hl ct cl a al out) \<longleftrightarrow>
     held (boxes m) s \<and> (h = Null \<and> hl \<noteq> 0 \<or> (\<exists>b. points_to bytes_at m h hl b)) \<and>
     slice_arg bytes_at m ct cl \<and> slice_arg bytes_at m a al \<and> held (decrypt_outs m) out"
| "permitted m (FreeResult h hl ct cl) \<longleftrightarrow>
     owned_vec m h hl \<and> owned_vec m ct cl \<and> (h = Null \<or> hl = 0 \<or> ct = Null \<or> cl = 0 \<or> h \<noteq> ct)"
| "permitted m (FreeBuffer p len) \<longleftrightarrow> owned_vec m p len"
| "permitted m (Serialize s) \<longleftrightarrow> held (boxes m) s"
| "permitted m (Deserialize p) \<longleftrightarrow>
     (case p of Null \<Rightarrow> True
      | Addr a \<Rightarrow> \<exists>b. bytes_at m a = Some b \<and> 0 \<in> set b)"
| "permitted m (FreeString s) \<longleftrightarrow> held (c_strings m) s"
| "permitted m _ \<longleftrightarrow> True"

text \<open>A text need not come from \<^verbatim>\<open>ratchet_serialize\<close>. What the sessions are that the calls read back:\<close>

definition reads_back :: "(RatchetState \<Rightarrow> bool) \<Rightarrow> json_codec \<Rightarrow> c_memory \<Rightarrow> c_call_op \<Rightarrow> bool" where
  "reads_back ok j m op =
     (case op of
        Deserialize (Addr a) \<Rightarrow>
          (case bytes_at m a of
             None \<Rightarrow> True
           | Some b \<Rightarrow> pred_option ok (state_from_json j (takeWhile (\<lambda>x. x \<noteq> 0) b)))
      | _ \<Rightarrow> True)"

lemma typed_reads_back: "json_typed j \<Longrightarrow> reads_back wf_state j m op"
  by (auto simp: reads_back_def read_typed pred_option_def split: c_call_op.split ptr.split option.split dest!: option.set_sel)

section \<open>Every permitted call returns\<close>

lemma return_message_keeps:
  "c_inv_of ok m' \<Longrightarrow> same_args m m' \<Longrightarrow> r \<noteq> Panic \<Longrightarrow> encrypt_outs m a \<noteq> None \<Longrightarrow> c_keeps ok m (return_message (Addr a) r m')"
  by (cases r) (auto simp: return_message_def intro!: c_keeps_bind)

lemma return_plaintext_keeps:
  "c_inv_of ok m' \<Longrightarrow> same_args m m' \<Longrightarrow> r \<noteq> Panic \<Longrightarrow> decrypt_outs m a \<noteq> None \<Longrightarrow> c_keeps ok m (return_plaintext (Addr a) r m')"
  by (cases r) (auto simp: return_plaintext_def intro!: c_keeps_bind)

lemma deref_session_held: "boxes m a = Some st \<Longrightarrow> deref_session (Addr a) m = Returned st m"
  by (simp add: deref_session_def)

lemma encrypt_ffi_run:
  assumes "boxes m a = Some st" and "optional_slice bytes_at p pl m = Returned pt m"
    and "optional_slice bytes_at ad al m = Returned adb m" and "encrypt c st pt adb = (r, st')"
  shows "ratchet_encrypt_ffi c (Addr a) p pl ad al (Addr out) m =
     return_message (Addr out) r (m\<lparr>boxes := (boxes m)(a \<mapsto> st')\<rparr>)"
  using assms by (simp add: ratchet_encrypt_ffi_def deref_session_held update_session_def c_bind_def)

lemma decrypt_ffi_run:
  assumes "boxes m a = Some st" and "points_to bytes_at m h hl hb"
    and "optional_slice bytes_at ct cl m = Returned ctb m"
    and "optional_slice bytes_at ad al m = Returned adb m" and "decrypt c (c_world m) st hb ctb adb = (r, st', w)"
  shows "ratchet_decrypt_ffi c (Addr a) h hl ct cl ad al (Addr out) m =
     return_plaintext (Addr out) r (m\<lparr>boxes := (boxes m)(a \<mapsto> st'), c_world := w\<rparr>)"
proof -
  have "validate_inputs h hl" using assms(2) by (auto simp: validate_inputs_def points_to_def)
  then show ?thesis
    using assms by (simp add: ratchet_decrypt_ffi_def deref_session_held update_session_def c_bind_def)
qed

lemma c_inv_session:
  "c_inv_of ok m \<Longrightarrow> boxes m a \<noteq> None \<Longrightarrow> ok st \<Longrightarrow> c_inv_of ok (m\<lparr>boxes := (boxes m)(a \<mapsto> st)\<rparr>)"
  "c_inv_of ok m \<Longrightarrow> boxes m a \<noteq> None \<Longrightarrow> ok st \<Longrightarrow> c_inv_of ok (m\<lparr>boxes := (boxes m)(a \<mapsto> st), c_world := w\<rparr>)"
  by (auto simp: c_inv_of_def)

context session_kept
begin

lemma encrypt_ffi_keeps:
  assumes "ratchet_crypto c" "c_inv_of ok m" "permitted m (Encrypt s p pl ad al out)"
  shows "c_keeps ok m (ratchet_encrypt_ffi c s p pl ad al out m)"
proof (cases "s = Null \<or> out = Null")
  case True
  then show ?thesis using assms(2) by (simp add: ratchet_encrypt_ffi_def)
next
  case False
  then obtain a q where ptrs: "s = Addr a" "out = Addr q" by (metis ptr.exhaust)
  then obtain st where st: "boxes m a = Some st" and q: "encrypt_outs m q \<noteq> None"
    and "slice_arg bytes_at m p pl" "slice_arg bytes_at m ad al"
    using assms(3) by (auto simp: held_def)
  then obtain pt adb where args: "optional_slice bytes_at p pl m = Returned pt m" "optional_slice bytes_at ad al m = Returned adb m"
    using optional_slice_valid by metis
  obtain r st' where enc: "encrypt c st pt adb = (r, st')" by (cases "encrypt c st pt adb")
  have inv: "ok st" using c_invD(7) [OF assms(2) st] .
  note kept = encrypt_ok [OF assms(1) inv enc]
  show ?thesis unfolding ptrs encrypt_ffi_run [OF st args enc]
    by (rule return_message_keeps) (use st kept q in \<open>auto simp: c_inv_session assms(2)\<close>)
qed

lemma decrypt_ffi_keeps:
  assumes "ratchet_crypto c" "c_inv_of ok m" "permitted m (Decrypt s h hl ct cl ad al out)"
  shows "c_keeps ok m (ratchet_decrypt_ffi c s h hl ct cl ad al out m)"
proof (cases "s = Null \<or> out = Null \<or> h = Null")
  case True
  then show ?thesis using assms(2,3)
    by (auto simp: ratchet_decrypt_ffi_def validate_inputs_def points_to_def)
next
  case False
  then obtain a q where ptrs: "s = Addr a" "out = Addr q" by (metis ptr.exhaust)
  then obtain st hb where st: "boxes m a = Some st" and q: "decrypt_outs m q \<noteq> None"
    and hb: "points_to bytes_at m h hl hb" and "slice_arg bytes_at m ct cl" "slice_arg bytes_at m ad al"
    using assms(3) False by (auto simp: held_def)
  then obtain ctb adb where args: "optional_slice bytes_at ct cl m = Returned ctb m" "optional_slice bytes_at ad al m = Returned adb m"
    using optional_slice_valid by metis
  obtain r st' w where dec: "decrypt c (c_world m) st hb ctb adb = (r, st', w)"
    by (metis prod_cases3)
  have inv: "ok st" using c_invD(7) [OF assms(2) st] .
  note kept = decrypt_ok [OF assms(1) inv dec]
  show ?thesis unfolding ptrs decrypt_ffi_run [OF st hb args dec]
    by (rule return_plaintext_keeps) (use st kept q in \<open>auto simp: c_inv_session assms(2)\<close>)
qed

lemma init_sender_ffi_keeps:
  assumes "ratchet_crypto c" "c_inv_of ok m" "permitted m (InitSender sk pub)"
  shows "c_keeps ok m (ratchet_init_sender_ffi c sk pub m)"
proof -
  obtain skb pubb where args: "points_to bytes_at m sk 32 skb" "points_to bytes_at m pub 33 pubb"
    using assms(3) by auto
  have w: "c_inv_of ok (m\<lparr>c_world := w\<rparr>)" for w using assms(2) by (simp add: c_inv_of_def)
  show ?thesis
  proof (cases "decode_public_key pubb")
    case (Ok k)
    then have "is_array 32 k" using pubkey.enc_dec points_to_length [OF args(2)] by blast
    then obtain st w' where "init_sender_state c (c_world m) skb k = (Ok st, w')" "ok st"
      using init_sender_ok [OF assms(1) points_to_length [OF args(1)]] invariant_ok by blast
    with args Ok w assms(2) show ?thesis
      by (simp add: ratchet_init_sender_ffi_def c_bind_def)
  qed (use args assms(2) in \<open>simp_all add: ratchet_init_sender_ffi_def c_bind_def\<close>)
qed

lemma init_receiver_ffi_keeps:
  assumes "ratchet_crypto c" "c_inv_of ok m" "permitted m (InitReceiver sk priv pub)"
  shows "c_keeps ok m (ratchet_init_receiver_ffi c sk priv pub m)"
proof -
  obtain skb privb pubb where args: "points_to bytes_at m sk 32 skb" "points_to bytes_at m priv 32 privb"
      "points_to bytes_at m pub 33 pubb"
    using assms(3) by auto
  show ?thesis
  proof (cases "decode_public_key pubb")
    case (Ok k)
    then have "is_array 32 k" using pubkey.enc_dec points_to_length [OF args(3)] by blast
    then obtain st where "init_receiver_state c skb (privb, k) = Ok st" "ok st"
      using init_receiver_ok [OF assms(1) points_to_length [OF args(1)] points_to_length [OF args(2)]] invariant_ok by blast
    with args Ok assms(2) show ?thesis
      by (simp add: ratchet_init_receiver_ffi_def c_bind_def)
  qed (use args assms(2) in \<open>simp_all add: ratchet_init_receiver_ffi_def c_bind_def\<close>)
qed

end

lemma drop_vec_owned:
  assumes "c_inv_of ok m" and "owned_vec m p len" and "p \<noteq> Null" and "0 < len"
  obtains a where "p = Addr a" and "drop_vec p len m = Returned () (m\<lparr>vecs := (vecs m)(a := None)\<rparr>)"
    and "c_inv_of ok (m\<lparr>vecs := (vecs m)(a := None)\<rparr>)"
  using assms by (auto simp: owned_vec_def drop_vec_def c_inv_of_def)

lemma free_buffer_keeps:
  assumes "c_inv_of ok m" and "owned_vec m p len"
  shows "c_safe (c_inv_of ok) (\<lambda>_ m'. \<forall>q l. owned_vec m q l \<longrightarrow> (p = Null \<or> len = 0 \<or> q \<noteq> p) \<longrightarrow> owned_vec m' q l)
           (ratchet_free_byte_buffer p len m)"
proof (cases "p \<noteq> Null \<and> 0 < len")
  case True
  then obtain a where "p = Addr a" and "drop_vec p len m = Returned () (m\<lparr>vecs := (vecs m)(a := None)\<rparr>)"
    and "c_inv_of ok (m\<lparr>vecs := (vecs m)(a := None)\<rparr>)"
    using drop_vec_owned [OF assms] by blast
  then show ?thesis using True by (auto simp: ratchet_free_byte_buffer_def owned_vec_def)
qed (use assms in \<open>auto simp: ratchet_free_byte_buffer_def\<close>)

lemma free_result_eq:
  "ratchet_free_result_buffers h hl ct cl =
     c_bind (ratchet_free_byte_buffer h hl) (\<lambda>_. ratchet_free_byte_buffer ct cl)"
  by (simp add: ratchet_free_result_buffers_def ratchet_free_byte_buffer_def)

lemma free_result_keeps:
  assumes "c_inv_of ok m" and "permitted m (FreeResult h hl ct cl)"
  shows "c_safe (c_inv_of ok) (\<lambda>_ _. True) (ratchet_free_result_buffers h hl ct cl m)"
proof -
  obtain m' where "ratchet_free_byte_buffer h hl m = Returned () m'" and "c_inv_of ok m'" and ct: "owned_vec m' ct cl"
  proof (cases "ct = Null \<or> cl = 0")
    case True
    then show ?thesis
      using free_buffer_keeps [OF assms(1), of h hl] assms(2) that by (auto elim!: c_safeE simp: owned_vec_def)
  next
    case False
    then show ?thesis
      using free_buffer_keeps [OF assms(1), of h hl] assms(2) that by (fastforce elim!: c_safeE)
  qed
  moreover have "c_safe (c_inv_of ok) (\<lambda>_ _. True) (ratchet_free_byte_buffer ct cl m')"
    by (rule c_safe_True [OF free_buffer_keeps [OF \<open>c_inv_of ok m'\<close> ct]])
  ultimately show ?thesis by (simp add: free_result_eq)
qed

lemma serialize_keeps:
  assumes "c_inv_of ok m" and "permitted m (Serialize s)"
  shows "c_keeps ok m (ratchet_serialize j s m)"
proof (cases s)
  case (Addr a)
  then obtain st where "boxes m a = Some st" using assms(2) by (auto simp: held_def)
  then show ?thesis using assms(1) Addr
    by (auto simp: ratchet_serialize_def deref_session_def c_bind_def c_inv_of_def split: option.split)
qed (use assms in \<open>simp add: ratchet_serialize_def\<close>)

lemma deserialize_keeps:
  assumes "c_inv_of ok m" and "permitted m (Deserialize p)" and "reads_back ok j m (Deserialize p)"
  shows "c_keeps ok m (ratchet_deserialize j p m)"
proof (cases p)
  case (Addr a)
  then obtain b where b: "bytes_at m a = Some b" "0 \<in> set b"
    using assms(2) by auto
  then have "state_from_json j (takeWhile (\<lambda>x. x \<noteq> 0) b) = Some st \<Longrightarrow> ok st" for st
    using assms(3) by (simp add: Addr reads_back_def)
  then show ?thesis using assms(1) b
    by (auto simp: Addr ratchet_deserialize_def read_c_string_def c_bind_def split: option.split)
qed (use assms in \<open>simp add: ratchet_deserialize_def\<close>)

lemma c_keeps_unit: "c_keeps ok m (f m) \<Longrightarrow> c_safe (c_inv_of ok) (\<lambda>_ _. True) (c_bind f (\<lambda>_. c_ret ()) m)"
  by (auto elim!: c_safeE)

context session_kept
begin

lemma c_step_keeps:
  assumes c: "ratchet_crypto c" and inv: "c_inv_of ok m" and ok: "permitted m op" and reads: "reads_back ok j m op"
  shows "c_safe (c_inv_of ok) (\<lambda>_ _. True) (c_step c j op m)"
proof (cases op)
  case (InitSender sk pub)
  then show ?thesis using c_keeps_unit [of ok m "ratchet_init_sender_ffi c sk pub"] init_sender_ffi_keeps [OF c inv] ok by simp
next
  case (InitReceiver sk priv pub)
  then show ?thesis
    using c_keeps_unit [of ok m "ratchet_init_receiver_ffi c sk priv pub"] init_receiver_ffi_keeps [OF c inv] ok by simp
next
  case (FreeSession p)
  then show ?thesis using ok inv
    by (cases p) (auto simp: ratchet_free_ffi_def drop_box_def held_def c_inv_of_def split: if_splits)
next
  case (Encrypt s p pl a al out)
  then show ?thesis
    using c_keeps_unit [of ok m "ratchet_encrypt_ffi c s p pl a al out"] encrypt_ffi_keeps [OF c inv] ok by simp
next
  case (Decrypt s h hl ct cl a al out)
  then show ?thesis
    using c_keeps_unit [of ok m "ratchet_decrypt_ffi c s h hl ct cl a al out"] decrypt_ffi_keeps [OF c inv] ok by simp
next
  case (FreeResult h hl ct cl)
  then show ?thesis using free_result_keeps [OF inv] ok by simp
next
  case (FreeBuffer p len)
  then show ?thesis using c_safe_True [OF free_buffer_keeps [OF inv]] ok by simp
next
  case (Serialize s)
  then show ?thesis using c_keeps_unit [of ok m "ratchet_serialize j s"] serialize_keeps [OF inv] ok by simp
next
  case (Deserialize p)
  then show ?thesis using c_keeps_unit [of ok m "ratchet_deserialize j p"] deserialize_keeps [OF inv] ok reads by simp
next
  case (FreeString s)
  then show ?thesis using ok inv by (cases s) (auto simp: ratchet_free_string_def held_def c_inv_of_def)
qed (use inv in \<open>auto simp: c_inv_of_def\<close>)

end

section \<open>Messages in raw memory\<close>

text \<open>The blocks a leaked message adds to the memory.\<close>

lemma return_message_Ok:
  assumes "encrypt_outs m q \<noteq> None" and "eh \<noteq> []" and "ct \<noteq> []"
  shows "return_message (Addr q) (Ok (eh, ct)) m =
    Returned 0 (m\<lparr>vecs := (vecs m)(next_addr m \<mapsto> eh, Suc (next_addr m) \<mapsto> ct),
                  next_addr := Suc (Suc (next_addr m)),
                  encrypt_outs := (encrypt_outs m)(q \<mapsto>
                    \<lparr> er_header = Addr (next_addr m), er_header_len = length eh,
                      er_ciphertext = Addr (Suc (next_addr m)), er_ciphertext_len = length ct, er_status = 0 \<rparr>)\<rparr>)"
  using assms by (simp add: return_message_def leak_vec_def c_bind_def write_encrypt_result_def)

lemma return_plaintext_Ok:
  assumes "decrypt_outs m q \<noteq> None"
  shows "return_plaintext (Addr q) (Ok p) m =
    Returned 0 (m\<lparr>vecs := (if p = [] then vecs m else (vecs m)(next_addr m \<mapsto> p)),
                  next_addr := Suc (next_addr m),
                  decrypt_outs := (decrypt_outs m)(q \<mapsto>
                    \<lparr> dr_plaintext = Addr (next_addr m), dr_plaintext_len = length p, dr_status = 0 \<rparr>)\<rparr>)"
  using assms by (simp add: return_plaintext_def leak_vec_def c_bind_def write_decrypt_result_def)

lemma map_error_negative: "map_error e < 0"
  by (cases e) simp_all

lemma map_error_nonzero: "map_error e \<noteq> 0"
  using map_error_negative [of e] by simp

lemma map_error_inject: "map_error e = map_error e' \<longleftrightarrow> e = e'"
  by (cases e; cases e') simp_all

lemma map_error_range: "map_error e \<noteq> -100" "map_error e \<noteq> -101"
  by (cases e; simp)+

lemma return_message_0D:
  "return_message (Addr q) r m = Returned 0 m' \<Longrightarrow> \<exists>eh ct. r = Ok (eh, ct)"
  by (cases r) (auto simp: return_message_def write_encrypt_result_def c_bind_def map_error_nonzero split: if_splits)

lemma encrypt_not_empty:
  assumes "crypto_ok c" and "ratchet_inv st" and "encrypt c st p ad = (Ok (eh, ct), st')"
  shows "eh \<noteq> [] \<and> ct \<noteq> []"
proof (rule encrypt_opens [OF assms])
  fix ck hk
  assume "decrypt_header_with_key c hk eh = Ok (next_header st)"
    and "decrypt_aead c (message_key c 0 ck) ct (concat_ad ad eh) = Ok p"
  then show ?thesis by (auto simp: decrypt_header_with_key_def decrypt_aead_def)
qed

lemma points_to_slice: "points_to bytes_at m p len b \<Longrightarrow> slice_arg bytes_at m p len"
  by (auto simp: slice_arg_def)

text \<open>A successful call of \<^verbatim>\<open>ratchet_encrypt_ffi\<close>, and the memory it leaves.\<close>

lemma encrypt_ffi_Ok:
  assumes "crypto_ok c" "c_inv m" "boxes m a = Some st" "encrypt_outs m q \<noteq> None"
    "points_to bytes_at m p pl pt" "points_to bytes_at m ad al adb"
    "ratchet_encrypt_ffi c (Addr a) p pl ad al (Addr q) m = Returned 0 m1"
  obtains eh ct st' where "encrypt c st pt adb = (Ok (eh, ct), st')" "eh \<noteq> []" "ct \<noteq> []"
    "m1 = m\<lparr>boxes := (boxes m)(a \<mapsto> st'), vecs := (vecs m)(next_addr m \<mapsto> eh, Suc (next_addr m) \<mapsto> ct),
            next_addr := Suc (Suc (next_addr m)),
            encrypt_outs := (encrypt_outs m)(q \<mapsto>
              \<lparr> er_header = Addr (next_addr m), er_header_len = length eh,
                er_ciphertext = Addr (Suc (next_addr m)), er_ciphertext_len = length ct, er_status = 0 \<rparr>)\<rparr>"
proof -
  obtain r st' where enc: "encrypt c st pt adb = (r, st')" by (cases "encrypt c st pt adb")
  note run = encrypt_ffi_run [OF assms(3) optional_slice_points [OF assms(5)] optional_slice_points [OF assms(6)] enc]
  obtain eh ct where r: "r = Ok (eh, ct)" using assms(7) return_message_0D unfolding run by blast
  have ne: "eh \<noteq> []" "ct \<noteq> []"
    using encrypt_not_empty [OF assms(1) c_invD(7) [OF assms(2,3)]] enc r by blast+
  show thesis
    by (rule that [OF enc [unfolded r] ne])
      (use assms(4,7) return_message_Ok [of "m\<lparr>boxes := (boxes m)(a \<mapsto> st')\<rparr>" q eh ct] ne in
        \<open>simp add: run r\<close>)
qed

text \<open>The other side reads the message where the first left it.\<close>

lemma bytes_at_leaked:
  assumes "c_inv m"
  shows "bytes_at (m\<lparr>boxes := bs, vecs := (vecs m)(next_addr m \<mapsto> x, Suc (next_addr m) \<mapsto> y), next_addr := k, encrypt_outs := e\<rparr>)
           (next_addr m) = Some x"
    and "bytes_at (m\<lparr>boxes := bs, vecs := (vecs m)(next_addr m \<mapsto> x, Suc (next_addr m) \<mapsto> y), next_addr := k, encrypt_outs := e\<rparr>)
           (Suc (next_addr m)) = Some y"
proof -
  have "caller_blocks m (next_addr m) = None" "caller_blocks m (Suc (next_addr m)) = None"
    using c_invD(1) [OF assms] unfolding below_def by (auto simp: not_less)
  then show "bytes_at (m\<lparr>boxes := bs, vecs := (vecs m)(next_addr m \<mapsto> x, Suc (next_addr m) \<mapsto> y), next_addr := k, encrypt_outs := e\<rparr>)
           (next_addr m) = Some x"
    and "bytes_at (m\<lparr>boxes := bs, vecs := (vecs m)(next_addr m \<mapsto> x, Suc (next_addr m) \<mapsto> y), next_addr := k, encrypt_outs := e\<rparr>)
           (Suc (next_addr m)) = Some y"
    by (simp_all add: bytes_at_def)
qed

lemma points_to_leak:
  assumes "c_inv m" and "points_to bytes_at m p len b"
  shows "points_to bytes_at (m\<lparr>boxes := bs, vecs := (vecs m)(next_addr m \<mapsto> x, Suc (next_addr m) \<mapsto> y), next_addr := k, encrypt_outs := e\<rparr>) p len b"
proof -
  obtain a block where p: "p = Addr a" "bytes_at m a = Some block" "len \<le> length block" "b = take len block"
    using assms(2) by (auto simp: points_to_def)
  have "a < next_addr m"
    using p(2) c_invD(1,3,4) [OF assms(1)] unfolding below_def bytes_at_def by (auto split: option.splits)
  then have "bytes_at (m\<lparr>boxes := bs, vecs := (vecs m)(next_addr m \<mapsto> x, Suc (next_addr m) \<mapsto> y), next_addr := k, encrypt_outs := e\<rparr>) a
      = Some block"
    using p(2) by (simp add: bytes_at_def split: option.splits)
  then show ?thesis using p by (simp add: points_to_def)
qed

lemma points_to_block: "bytes_at m a = Some b \<Longrightarrow> points_to bytes_at m (Addr a) (length b) b"
  by (simp add: points_to_def)

text \<open>The plaintext can be read back, and freeing all three buffers restores the vectors.\<close>

lemma returned_slice:
  assumes "c_inv m" "next_addr m \<le> k" "caller_blocks m' = caller_blocks m"
    and "vecs m' = (if pt = [] then v else v(k \<mapsto> pt))"
  shows "optional_slice bytes_at (Addr k) (length pt) m' = Returned pt m'"
proof (cases "pt = []")
  case False
  have "caller_blocks m k = None"
    using c_invD(1) [OF assms(1)] assms(2) unfolding below_def by (auto simp: not_less)
  then have "bytes_at m' k = Some pt" using assms(3,4) False by (simp add: bytes_at_def)
  then show ?thesis by (rule optional_slice_points [OF points_to_block])
qed (simp add: optional_slice_def)

lemma freed_vecs:
  assumes "c_inv m" and "vecs m' = (let v = (vecs m)(next_addr m \<mapsto> eh, Suc (next_addr m) \<mapsto> ct)
                             in if pt = [] then v else v(Suc (Suc (next_addr m)) \<mapsto> pt))"
    and "eh \<noteq> []" and "ct \<noteq> []"
  shows "\<exists>m3. c_bind (ratchet_free_result_buffers (Addr (next_addr m)) (length eh) (Addr (Suc (next_addr m))) (length ct))
           (\<lambda>_. ratchet_free_byte_buffer (Addr (Suc (Suc (next_addr m)))) (length pt)) m' = Returned () m3 \<and>
         vecs m3 = vecs m"
proof -
  have "vecs m (next_addr m) = None" "vecs m (Suc (next_addr m)) = None" "vecs m (Suc (Suc (next_addr m))) = None"
    using c_invD(3) [OF assms(1)] unfolding below_def by (auto simp: not_less)
  then show ?thesis using assms(2-4)
    by (auto simp: ratchet_free_result_buffers_def ratchet_free_byte_buffer_def drop_vec_def c_bind_def Let_def fun_eq_iff)
qed

section \<open>Properties\<close>

definition empty_memory :: "World \<Rightarrow> c_memory" where
  "empty_memory w =
     \<lparr> next_addr = 0, caller_blocks = Map.empty, boxes = Map.empty, vecs = Map.empty, c_strings = Map.empty,
       encrypt_outs = Map.empty, decrypt_outs = Map.empty, c_world = w \<rparr>"

lemma empty_memory_inv: "c_inv_of ok (empty_memory w)"
  by (simp add: empty_memory_def c_inv_of_def)

definition c_good :: "(RatchetState \<Rightarrow> bool) \<Rightarrow> crypto \<Rightarrow> json_codec \<Rightarrow> c_memory \<Rightarrow> bool" where
  "c_good ok c j m \<longleftrightarrow> ratchet_crypto c \<and> json_typed j \<and> c_inv_of ok m"

lemma empty_memory_good: "ratchet_crypto c \<Longrightarrow> json_typed j \<Longrightarrow> c_good ok c j (empty_memory w)"
  by (simp add: c_good_def empty_memory_inv)

interpretation c_caller: careful_caller "c_step c j" permitted "c_good wf_state c j" for c j
proof
  fix m op assume "c_good wf_state c j m" and "permitted m op"
  then show "c_safe (c_good wf_state c j) (\<lambda>_ _. True) (c_step c j op m)"
    using typed.c_step_keeps [of c m op j] typed_reads_back by (auto simp: c_good_def elim!: c_safeE)
qed

interpretation c_own_texts: careful_caller "c_step c j" "\<lambda>m op. permitted m op \<and> reads_back ratchet_inv j m op"
  "c_good ratchet_inv c j" for c j
proof
  fix m op assume "c_good ratchet_inv c j m" and "permitted m op \<and> reads_back ratchet_inv j m op"
  then show "c_safe (c_good ratchet_inv c j) (\<lambda>_ _. True) (c_step c j op m)"
    using strict.c_step_keeps [of c m op j] by (auto simp: c_good_def elim!: c_safeE)
qed


text \<open>C14: Through the C interface, a message of a conversation that is within the limits of the
  receiver (deliverable) arrives: when ratchet_encrypt_ffi succeeds, ratchet_decrypt_ffi on the
  very buffers it returned succeeds at the peer's session and returns a buffer with the plaintext;
  freeing the three buffers leaves no vector behind.\<close>

theorem c_message_delivered:
  assumes "crypto_ok c" and "c_inv m" and "boxes m a = Some sa" and "boxes m b = Some sb" and "a \<noteq> b"
    and "conversation c sa sb" and "encrypt_outs m q \<noteq> None" and "decrypt_outs m d \<noteq> None"
    and "points_to bytes_at m p pl pt" and "points_to bytes_at m ad al adb"
    and "ratchet_encrypt_ffi c (Addr a) p pl ad al (Addr q) m = Returned 0 m1"
    and "encrypt_outs m1 q = Some er"
    and "points_to bytes_at m1 (er_header er) (er_header_len er) eh" and "deliverable c sa sb eh"
  shows "\<exists>m2 dr. ratchet_decrypt_ffi c (Addr b) (er_header er) (er_header_len er) (er_ciphertext er)
             (er_ciphertext_len er) ad al (Addr d) m1 = Returned 0 m2 \<and>
           decrypt_outs m2 d = Some dr \<and>
           optional_slice bytes_at (dr_plaintext dr) (dr_plaintext_len dr) m2 = Returned pt m2 \<and>
           (\<exists>m3. c_bind (ratchet_free_result_buffers (er_header er) (er_header_len er) (er_ciphertext er) (er_ciphertext_len er))
                   (\<lambda>_. ratchet_free_byte_buffer (dr_plaintext dr) (dr_plaintext_len dr)) m2 = Returned () m3 \<and>
                 vecs m3 = vecs m)"
proof -
  let ?n = "next_addr m"
  obtain eh' ct sa' where enc: "encrypt c sa pt adb = (Ok (eh', ct), sa')" and ne: "eh' \<noteq> []" "ct \<noteq> []"
    and m1: "m1 = m\<lparr>boxes := (boxes m)(a \<mapsto> sa'), vecs := (vecs m)(?n \<mapsto> eh', Suc ?n \<mapsto> ct),
            next_addr := Suc (Suc ?n),
            encrypt_outs := (encrypt_outs m)(q \<mapsto>
              \<lparr> er_header = Addr ?n, er_header_len = length eh',
                er_ciphertext = Addr (Suc ?n), er_ciphertext_len = length ct, er_status = 0 \<rparr>)\<rparr>"
    by (rule encrypt_ffi_Ok [OF assms(1-3,7,9-11)])
  have at: "bytes_at m1 ?n = Some eh'" "bytes_at m1 (Suc ?n) = Some ct" "points_to bytes_at m1 ad al adb"
    unfolding m1 by (rule bytes_at_leaked [OF assms(2)] points_to_leak [OF assms(2,10)])+
  have er: "er_header er = Addr ?n" "er_header_len er = length eh'" "er_ciphertext er = Addr (Suc ?n)"
      "er_ciphertext_len er = length ct"
    using assms(12) by (auto simp: m1)
  then have "eh' = eh" using assms(13) at(1) by (simp add: points_to_def)
  then obtain sb' w' where dec: "decrypt c (c_world m1) sb eh' ct adb = (Ok pt, sb', w')"
    using linked_delivered [OF assms(1) conversation_linked [OF assms(6,1)] enc] assms(14) by blast
  have sb: "boxes m1 b = Some sb" "decrypt_outs m1 d \<noteq> None" using assms(4,5,8) by (simp_all add: m1)
  define mb where "mb = m1\<lparr>boxes := (boxes m1)(b \<mapsto> sb'), c_world := w'\<rparr>"
  have run: "ratchet_decrypt_ffi c (Addr b) (Addr ?n) (length eh') (Addr (Suc ?n)) (length ct) ad al (Addr d) m1
      = return_plaintext (Addr d) (Ok pt) mb"
    using decrypt_ffi_run [OF sb(1) points_to_block [OF at(1)] optional_slice_points [OF points_to_block [OF at(2)]]
        optional_slice_points [OF at(3)] dec] by (simp add: mb_def)
  have "decrypt_outs mb d \<noteq> None" using sb(2) by (simp add: mb_def)
  note ret = return_plaintext_Ok [OF this, of pt]
  define m2 where "m2 = mb\<lparr>vecs := (if pt = [] then vecs mb else (vecs mb)(next_addr mb \<mapsto> pt)),
                  next_addr := Suc (next_addr mb),
                  decrypt_outs := (decrypt_outs mb)(d \<mapsto>
                    \<lparr> dr_plaintext = Addr (next_addr mb), dr_plaintext_len = length pt, dr_status = 0 \<rparr>)\<rparr>"
  have m2: "caller_blocks m2 = caller_blocks m"
      "vecs m2 = (let v = (vecs m)(?n \<mapsto> eh', Suc ?n \<mapsto> ct) in if pt = [] then v else v(Suc (Suc ?n) \<mapsto> pt))"
      "decrypt_outs m2 d = Some \<lparr> dr_plaintext = Addr (Suc (Suc ?n)), dr_plaintext_len = length pt, dr_status = 0 \<rparr>"
    by (simp_all add: m2_def mb_def m1)
  have "optional_slice bytes_at (Addr (Suc (Suc ?n))) (length pt) m2 = Returned pt m2"
    by (rule returned_slice [OF assms(2) _ m2(1) m2(2) [unfolded Let_def]]) simp
  then show ?thesis
    unfolding er run ret m2_def [symmetric]
    using m2(3) freed_vecs [OF assms(2) m2(2) ne]
    by (intro exI [of _ m2] exI [of _ "\<lparr> dr_plaintext = Addr (Suc (Suc ?n)), dr_plaintext_len = length pt, dr_status = 0 \<rparr>"])
      simp
qed


theorem c_message_delivered_witness:
  "\<exists>m m1 m2 er dr. ratchet_encrypt_ffi reference_crypto (Addr 0) (Addr 2) 2 (Addr 3) 1 (Addr 4) m = Returned 0 m1 \<and>
     caller_blocks m 2 = Some [1, 2] \<and> encrypt_outs m1 4 = Some er \<and>
     ratchet_decrypt_ffi reference_crypto (Addr 1) (er_header er) (er_header_len er) (er_ciphertext er)
       (er_ciphertext_len er) (Addr 3) 1 (Addr 5) m1 = Returned 0 m2 \<and>
     decrypt_outs m2 5 = Some dr \<and>
     optional_slice bytes_at (dr_plaintext dr) (dr_plaintext_len dr) m2 = Returned [1, 2] m2"
proof -
  obtain a b eh ct a' where conv: "conversation reference_crypto a b"
    and enc: "encrypt reference_crypto a [1, 2] [3] = (Ok (eh, ct), a')" and del: "deliverable reference_crypto a b eh"
    by (rule demo_conversation)
  have inv: "ratchet_inv a" "ratchet_inv b"
    using linked_inv conversation_linked [OF conv reference_crypto_ok] by blast+
  define m where "m = (empty_memory demo_world)\<lparr>boxes := [0 \<mapsto> a, 1 \<mapsto> b],
    caller_blocks := [2 \<mapsto> [1, 2], 3 \<mapsto> [3]], encrypt_outs := [4 \<mapsto> encrypt_failure InvalidState],
    decrypt_outs := [5 \<mapsto> decrypt_failure InvalidState], next_addr := 6\<rparr>"
  have m: "c_inv m" "boxes m 0 = Some a" "boxes m 1 = Some b" "encrypt_outs m 4 \<noteq> None" "decrypt_outs m 5 \<noteq> None"
      "points_to bytes_at m (Addr 2) 2 [1, 2]" "points_to bytes_at m (Addr 3) 1 [3]"
    using inv by (simp_all add: m_def empty_memory_def c_inv_of_def below_def points_to_def bytes_at_def split: if_splits)
  note ne = encrypt_not_empty [OF reference_crypto_ok inv(1) enc]
  define m1 where "m1 = m\<lparr>boxes := (boxes m)(0 \<mapsto> a'), vecs := (vecs m)(next_addr m \<mapsto> eh, Suc (next_addr m) \<mapsto> ct),
            next_addr := Suc (Suc (next_addr m)), encrypt_outs := (encrypt_outs m)(4 \<mapsto>
              \<lparr> er_header = Addr (next_addr m), er_header_len = length eh,
                er_ciphertext = Addr (Suc (next_addr m)), er_ciphertext_len = length ct, er_status = 0 \<rparr>)\<rparr>"
  have run: "ratchet_encrypt_ffi reference_crypto (Addr 0) (Addr 2) 2 (Addr 3) 1 (Addr 4) m = Returned 0 m1"
    using encrypt_ffi_run [OF m(2) optional_slice_points [OF m(6)] optional_slice_points [OF m(7)] enc, of 4]
      return_message_Ok [of "m\<lparr>boxes := (boxes m)(0 \<mapsto> a')\<rparr>" 4 eh ct] m(4) ne by (simp add: m1_def)
  have eh: "points_to bytes_at m1 (Addr (next_addr m)) (length eh) eh"
    unfolding m1_def by (rule points_to_block [OF bytes_at_leaked(1) [OF m(1)]])
  obtain er where er: "encrypt_outs m1 4 = Some er" "er_header er = Addr (next_addr m)" "er_header_len er = length eh"
    by (simp add: m1_def)
  from c_message_delivered [OF reference_crypto_ok m(1,2,3) _ conv m(4,5,6,7) run er(1) _ del] eh er
  obtain m2 dr where "ratchet_decrypt_ffi reference_crypto (Addr 1) (er_header er) (er_header_len er) (er_ciphertext er)
       (er_ciphertext_len er) (Addr 3) 1 (Addr 5) m1 = Returned 0 m2" "decrypt_outs m2 5 = Some dr"
     "optional_slice bytes_at (dr_plaintext dr) (dr_plaintext_len dr) m2 = Returned [1, 2] m2" by auto
  moreover have "caller_blocks m 2 = Some [1, 2]" by (simp add: m_def)
  ultimately show ?thesis using run er(1) by blast
qed

text \<open>C29: The status of ratchet_decrypt_ffi tells exactly what decrypt returned: it equals
  the status field of the result struct, is 0 exactly on success, determines the error, and is
  never one of the two argument errors; the session is the one decrypt left, errors
  included.\<close>

theorem decrypt_ffi_status:
  assumes "boxes m a = Some st" and "decrypt_outs m d \<noteq> None"
    and "points_to bytes_at m h hl hb" and "points_to bytes_at m ct cl ctb" and "points_to bytes_at m ad al adb"
    and "decrypt c (c_world m) st hb ctb adb = (r, st', w)" and "r \<noteq> Panic"
  shows "\<exists>m' dr. ratchet_decrypt_ffi c (Addr a) h hl ct cl ad al (Addr d) m = Returned (dr_status dr) m' \<and>
           decrypt_outs m' d = Some dr \<and> boxes m' = (boxes m)(a \<mapsto> st') \<and> c_world m' = w \<and>
           (dr_status dr = 0 \<longleftrightarrow> is_ok r) \<and> (\<forall>e. dr_status dr = map_error e \<longleftrightarrow> r = Err e) \<and>
           dr_status dr \<notin> {-100, -101}"
proof -
  note run = decrypt_ffi_run [OF assms(1,3) optional_slice_points [OF assms(4)] optional_slice_points [OF assms(5)] assms(6), of d]
  let ?m = "m\<lparr>boxes := (boxes m)(a \<mapsto> st'), c_world := w\<rparr>"
  have d: "decrypt_outs ?m d \<noteq> None" using assms(2) by simp
  show ?thesis
  proof (cases r)
    case (Ok p)
    let ?dr = "\<lparr> dr_plaintext = Addr (next_addr m), dr_plaintext_len = length p, dr_status = 0 \<rparr>"
    obtain m' where m': "return_plaintext (Addr d) (Ok p) ?m = Returned 0 m'" "decrypt_outs m' d = Some ?dr"
        "boxes m' = (boxes m)(a \<mapsto> st')" "c_world m' = w"
      using return_plaintext_Ok [OF d, of p] by simp
    then show ?thesis
      unfolding run Ok by (intro exI [of _ m'] exI [of _ ?dr]) (simp add: map_error_nonzero [symmetric])
  next
    case (Err e)
    have "return_plaintext (Addr d) (Err e) ?m =
        Returned (map_error e) (?m\<lparr>decrypt_outs := (decrypt_outs ?m)(d \<mapsto> decrypt_failure e)\<rparr>)"
      using d by (simp add: return_plaintext_def write_decrypt_result_def c_bind_def)
    then show ?thesis
      unfolding run Err
      by (intro exI [of _ "?m\<lparr>decrypt_outs := (decrypt_outs ?m)(d \<mapsto> decrypt_failure e)\<rparr>"] exI [of _ "decrypt_failure e"])
        (simp add: decrypt_failure_def map_error_nonzero map_error_inject map_error_range)
  qed (use assms(7) in simp)
qed

theorem decrypt_ffi_status_witness:
  "\<exists>m st dr m'. boxes m 0 = Some st \<and>
     ratchet_decrypt_ffi reference_crypto (Addr 0) (Addr 1) 2 (Addr 1) 2 (Addr 1) 2 (Addr 2) m = Returned (dr_status dr) m' \<and>
     decrypt_outs m' 2 = Some dr \<and> dr_status dr \<noteq> 0"
proof -
  have c: "ratchet_crypto reference_crypto" by (rule ratchet_crypto_ok [OF reference_crypto_ok])
  obtain st where st: "init_receiver_state reference_crypto (replicate 32 7) (replicate 32 1, replicate 32 1) = Ok st"
      "ratchet_inv st"
    using init_receiver_ok [OF c, of "replicate 32 7" "replicate 32 1" "replicate 32 1"] by auto
  define m where "m = (empty_memory demo_world)\<lparr>boxes := [0 \<mapsto> st], caller_blocks := [1 \<mapsto> [8, 9]],
    decrypt_outs := [2 \<mapsto> decrypt_failure InvalidState], next_addr := 3\<rparr>"
  have m: "boxes m 0 = Some st" "decrypt_outs m 2 \<noteq> None" "points_to bytes_at m (Addr 1) 2 [8, 9]"
    by (simp_all add: m_def empty_memory_def points_to_def bytes_at_def)
  obtain r st' w where dec: "decrypt reference_crypto (c_world m) st [8, 9] [8, 9] [8, 9] = (r, st', w)"
    by (metis prod_cases3)
  have no_panic: "r \<noteq> Panic"
    using decrypt_safe [OF c st(2), of "c_world m" "[8, 9]" "[8, 9]" "[8, 9]"] st_safeD unfolding dec by metis
  have failed: "\<not> is_ok r"
    using dec st(1)
    by (auto simp: init_receiver_state_def run_simps decrypt_def Let_def MAX_AD_SIZE_def try_skipped_message_keys_def
        hm_iter_def decrypt_with_ratchet_def decrypt_header_def decrypt_header_with_key_def)
  from decrypt_ffi_status [OF m(1,2) m(3) m(3) m(3) dec no_panic] obtain m' dr where
    "ratchet_decrypt_ffi reference_crypto (Addr 0) (Addr 1) 2 (Addr 1) 2 (Addr 1) 2 (Addr 2) m = Returned (dr_status dr) m'"
    "decrypt_outs m' 2 = Some dr" "dr_status dr = 0 \<longleftrightarrow> is_ok r" by blast
  with m(1) failed show ?thesis by blast
qed

text \<open>C30: Null pointers: a null session or result struct gives -100 and a null header with a length -101,
  in any memory; but a null header of length 0 passes validate_inputs and is undefined
  behaviour, whereas ratchet_encrypt_ffi accepts null slices of any length.\<close>

theorem ffi_null_arguments:
  "ratchet_decrypt_ffi c Null h hl ct cl ad al out m = Returned (-100) m \<and>
   ratchet_decrypt_ffi c (Addr a) h hl ct cl ad al Null m = Returned (-100) m \<and>
   (ratchet_decrypt_ffi c (Addr a) Null hl ct cl ad al (Addr d) m =
      (if hl = 0 then Undefined else Returned (-101) m)) \<and>
   validate_inputs Null 0 \<and>
   ratchet_encrypt_ffi c s Null pl Null al out m = ratchet_encrypt_ffi c s Null 0 Null 0 out m"
proof -
  have "c_bind (from_raw_parts bytes_at Null 0) k m' = Undefined" for k :: "bytes \<Rightarrow> (int, c_memory) c_call" and m'
    by (simp add: from_raw_parts_def c_bind_def)
  then have "ratchet_decrypt_ffi c (Addr a) Null 0 ct cl ad al (Addr d) m = Undefined"
    by (cases "boxes m a") (simp_all add: ratchet_decrypt_ffi_def validate_inputs_def deref_session_def)
  then show ?thesis
    by (simp add: ratchet_decrypt_ffi_def validate_inputs_def ratchet_encrypt_ffi_def optional_slice_def)
qed

text \<open>C34: A session written to JSON text through the C interface and read back is the same session, its
  skipped keys the same map whatever the iteration order of the hash map was, and the text can
  be freed.\<close>

theorem session_survives_json:
  assumes "json_faithful j" and "c_inv m" and "boxes m a = Some st"
    and "ratchet_serialize j (Addr a) m = Returned (Addr s) m1"
  shows "\<exists>p m2 st' m3. ratchet_deserialize j (Addr s) m1 = Returned (Addr p) m2 \<and>
           boxes m2 p = Some st' \<and> boxes m2 a = Some st \<and> ratchet_inv st' \<and>
           st' = st\<lparr>mkskipped := mkskipped st'\<rparr> \<and> map_of (mkskipped st') = map_of (mkskipped st) \<and>
           ratchet_free_string (Addr s) m2 = Returned () m3 \<and> c_strings m3 = c_strings m"
proof -
  have inv: "ratchet_inv st" using c_invD(7) [OF assms(2,3)] .
  obtain jstr where json: "state_to_json j (c_world m) st = Some jstr"
    and m1: "s = next_addr m" "m1 = m\<lparr>c_strings := (c_strings m)(next_addr m \<mapsto> jstr @ [0]), next_addr := Suc (next_addr m)\<rparr>"
    using assms(3,4)
    by (auto simp: ratchet_serialize_def deref_session_def c_bind_def c_string_of_def split: option.splits if_splits)
  obtain st' where reread: "state_from_json j jstr = Some st'" and same: "same_session st st'"
      and str: "0 \<notin> set jstr" "is_utf8 jstr"
    by (rule reread_session [OF assms(1) inv json])
  have tw: "takeWhile (\<lambda>x. x \<noteq> 0) (jstr @ [0]) = jstr" by (rule takeWhile_c_string [OF str(1)])
  have fresh: "caller_blocks m s = None" "vecs m s = None" "c_strings m s = None" "a < s"
    using c_invD(1-4) [OF assms(2)] assms(3) m1(1) unfolding below_def by auto
  then have at: "bytes_at m1 s = Some (jstr @ [0])" by (simp add: m1 bytes_at_def)
  have "ratchet_deserialize j (Addr s) m1 = box_into_raw st' m1"
    by (simp add: ratchet_deserialize_def read_c_string_def c_bind_def at tw str(2) reread)
  then have run: "ratchet_deserialize j (Addr s) m1 = Returned (Addr (Suc s))
      (m1\<lparr>boxes := (boxes m)(Suc s \<mapsto> st'), next_addr := Suc (Suc s)\<rparr>)"
    (is "_ = Returned _ ?m2") by (simp add: box_into_raw_def m1)
  have "ratchet_free_string (Addr s) ?m2 = Returned () (?m2\<lparr>c_strings := (c_strings m)(s := None)\<rparr>)"
    and "(c_strings m)(s := None) = c_strings m"
    using fresh(3) by (simp_all add: ratchet_free_string_def m1 fun_upd_idem)
  moreover have "st' = st\<lparr>mkskipped := mkskipped st'\<rparr>" "map_of (mkskipped st') = map_of (mkskipped st)"
    using same by (auto elim: same_sessionE)
  ultimately show ?thesis
    using fresh(4) assms(3) same_session_inv [OF same inv] run
    by (intro exI [of _ "Suc s"] exI [of _ ?m2] exI [of _ st']
        exI [of _ "?m2\<lparr>c_strings := (c_strings m)(s := None)\<rparr>"]) simp
qed

theorem session_survives_json_witness:
  "\<exists>j m m1 m2 s p st st'. boxes m 0 = Some st \<and> ratchet_serialize j (Addr 0) m = Returned (Addr s) m1 \<and>
     ratchet_deserialize j (Addr s) m1 = Returned (Addr p) m2 \<and> boxes m2 p = Some st' \<and>
     rk st' = replicate 32 7"
proof -
  have c: "ratchet_crypto reference_crypto" by (rule ratchet_crypto_ok [OF reference_crypto_ok])
  obtain st where "init_receiver_state reference_crypto (replicate 32 7) (replicate 32 1, replicate 32 1) = Ok st"
      "ratchet_inv st"
    using init_receiver_ok [OF c, of "replicate 32 7" "replicate 32 1" "replicate 32 1"] by auto
  then have st: "mkskipped st = []" "rk st = replicate 32 7" "ratchet_inv st" "st\<lparr>mkskipped := []\<rparr> = st"
    by (auto simp: init_receiver_state_def)
  define j where "j = \<lparr> json_write = (\<lambda>x es. if x = st \<and> es = [] then Some [123, 125] else None),
    json_read = (\<lambda>t. if t = [123, 125] then Some (st, []) else None) \<rparr>"
  define m where "m = (empty_memory demo_world)\<lparr>boxes := [0 \<mapsto> st], next_addr := 1\<rparr>"
  have j: "json_faithful j" by (simp add: json_faithful_def j_def is_utf8.simps)
  have m: "c_inv m" "boxes m 0 = Some st" using st(3) by (simp_all add: m_def empty_memory_def c_inv_of_def below_def)
  have "state_to_json j (c_world m) st = Some [123, 125]"
    using st by (simp add: state_to_json_def j_def serialize_skipped_map_def hm_iter_def)
  then obtain s m1 where ser: "ratchet_serialize j (Addr 0) m = Returned (Addr s) m1"
    using m(2) by (simp add: ratchet_serialize_def deref_session_def c_bind_def c_string_of_def)
  from session_survives_json [OF j m ser] obtain p m2 st' where
    "ratchet_deserialize j (Addr s) m1 = Returned (Addr p) m2" "boxes m2 p = Some st'" "st' = st\<lparr>mkskipped := mkskipped st'\<rparr>"
    by (elim exE conjE) (rule that, assumption+)
  moreover have "rk st' = replicate 32 7" by (subst calculation(3)) (simp add: st(2))
  ultimately show ?thesis using m(2) ser by blast
qed

end
