(* ===== verification/Crypto_C.thy ===== *)
theory Crypto_C
  imports C_Interface X3dh
begin

text \<open>
  The C bindings of the key, signature and key agreement functions: \<^verbatim>\<open>src/ffi/utils.rs\<close>,
  \<^verbatim>\<open>src/ffi/vxeddsa.rs\<close> and \<^verbatim>\<open>src/ffi/x3dh.rs\<close>. A parameter that is a Rust reference
  (\<^verbatim>\<open>&[u8; n]\<close>, \<^verbatim>\<open>&X3DHBundleInput\<close>) is passed as the value behind it; raw pointers
  stay pointers, into the caller's byte blocks and result structs.
\<close>

section \<open>C types and memory\<close>

record X3DHInitOutput =
  io_shared_secret :: bytes
  io_ephemeral_public :: bytes
  io_status :: int

record X3DHResponderOutput =
  ro_shared_secret :: bytes
  ro_status :: int

record X3DHBundleInput =
  bi_identity_public :: bytes
  bi_spk_id :: u32
  bi_spk_public :: bytes
  bi_spk_signature :: bytes
  bi_opk_id :: u32
  bi_opk_public :: bytes
  bi_has_opk :: bool

record X3DHResponderInput =
  ri_identity_private :: bytes
  ri_spk_private :: bytes
  ri_opk_private :: bytes
  ri_has_opk :: bool

record X3DHAliceKeys =
  ak_identity_public :: bytes
  ak_ephemeral_public :: bytes

record key_memory =
  key_blocks :: "nat \<rightharpoonup> bytes"
  sign_outs :: "nat \<rightharpoonup> VXEdDSAOutput"
  init_outs :: "nat \<rightharpoonup> X3DHInitOutput"
  responder_outs :: "nat \<rightharpoonup> X3DHResponderOutput"
  key_world :: World

text \<open>Writing an array through a raw pointer, and a struct.\<close>

definition write_array :: "ptr \<Rightarrow> bytes \<Rightarrow> (unit, key_memory) c_call" where
  "write_array p b m =
     (case p of
        Null \<Rightarrow> Undefined
      | Addr a \<Rightarrow>
          (case key_blocks m a of
             None \<Rightarrow> Undefined
           | Some block \<Rightarrow>
               if length b \<le> length block
               then Returned () (m\<lparr>key_blocks := (key_blocks m)(a \<mapsto> b @ drop (length b) block)\<rparr>)
               else Undefined))"

definition write_struct :: "(key_memory \<Rightarrow> nat \<Rightarrow> 'x option) \<Rightarrow> (nat \<Rightarrow> 'x \<Rightarrow> key_memory \<Rightarrow> key_memory) \<Rightarrow> ptr \<Rightarrow> 'x \<Rightarrow> (unit, key_memory) c_call" where
  "write_struct get put p x m =
     (case p of Null \<Rightarrow> Undefined | Addr a \<Rightarrow> if get m a = None then Undefined else Returned () (put a x m))"

section \<open>Keys and signatures\<close>

definition encode_public_key_ffi :: "bytes \<Rightarrow> ptr \<Rightarrow> (unit, key_memory) c_call" where
  "encode_public_key_ffi key out = (if out = Null then c_ret () else write_array out (encode_public_key key))"

definition gen_keypair_ffi :: "crypto \<Rightarrow> (VKeyPair, key_memory) c_call" where
  "gen_keypair_ffi c m = (let (kp, w) = gen_keypair c (key_world m) in Returned kp (m\<lparr>key_world := w\<rparr>))"

definition gen_secret_ffi :: "ptr \<Rightarrow> (unit, key_memory) c_call" where
  "gen_secret_ffi secret_out m = (let (s, w) = gen_secret (key_world m) in write_array secret_out s (m\<lparr>key_world := w\<rparr>))"

definition gen_pubkey_ffi :: "crypto \<Rightarrow> bytes \<Rightarrow> ptr \<Rightarrow> (unit, key_memory) c_call" where
  "gen_pubkey_ffi c k pubkey = write_array pubkey (gen_pubkey c k)"

definition vxeddsa_sign_ffi :: "crypto \<Rightarrow> ('p, 's) curve \<Rightarrow> bytes \<Rightarrow> ptr \<Rightarrow> nat \<Rightarrow> ptr \<Rightarrow> (int, key_memory) c_call" where
  "vxeddsa_sign_ffi c e k msg_ptr msg_len output =
     c_bind (from_raw_parts key_blocks msg_ptr msg_len) (\<lambda>message m.
       let (r, w) = vxeddsa_sign c e (key_world m) k message
       in c_result r (\<lambda>r. case r of
            Ok res \<Rightarrow>
              c_bind (write_struct sign_outs (\<lambda>a x m. m\<lparr>sign_outs := (sign_outs m)(a \<mapsto> x)\<rparr>) output res) (\<lambda>_. c_ret 0)
          | _ \<Rightarrow> c_ret (-1)) (m\<lparr>key_world := w\<rparr>))"

definition vxeddsa_verify_ffi :: "crypto \<Rightarrow> ('p, 's) curve \<Rightarrow> bytes \<Rightarrow> ptr \<Rightarrow> nat \<Rightarrow> bytes \<Rightarrow> ptr \<Rightarrow> (bool, key_memory) c_call" where
  "vxeddsa_verify_ffi c e u msg_ptr msg_len sig v_out =
     c_bind (from_raw_parts key_blocks msg_ptr msg_len) (\<lambda>message.
       c_result (vxeddsa_verify c e u message sig :: (bytes option, unit) result) (\<lambda>r. case r of
         Ok (Some v) \<Rightarrow> c_bind (if v_out \<noteq> Null then write_array v_out v else c_ret ()) (\<lambda>_. c_ret True)
       | _ \<Rightarrow> c_ret False))"

section \<open>Key agreement\<close>

fun init_output_from_result :: "(X3DHInitResult, X3DHError) result \<Rightarrow> X3DHInitOutput option" where
  "init_output_from_result (Ok r) =
     Some \<lparr> io_shared_secret = shared_secret r, io_ephemeral_public = ephemeral_public r, io_status = 0 \<rparr>"
| "init_output_from_result (Err InvalidSignature) =
     Some \<lparr> io_shared_secret = replicate 32 0, io_ephemeral_public = replicate 33 0, io_status = -1 \<rparr>"
| "init_output_from_result (Err InvalidKey) =
     Some \<lparr> io_shared_secret = replicate 32 0, io_ephemeral_public = replicate 33 0, io_status = -2 \<rparr>"
| "init_output_from_result (Err MissingOneTimeKey) =
     Some \<lparr> io_shared_secret = replicate 32 0, io_ephemeral_public = replicate 33 0, io_status = -3 \<rparr>"
| "init_output_from_result (Err DecodeFailed) =
     Some \<lparr> io_shared_secret = replicate 32 0, io_ephemeral_public = replicate 33 0, io_status = -4 \<rparr>"
| "init_output_from_result Panic = None"

fun responder_output_from_result :: "(bytes, X3DHError) result \<Rightarrow> X3DHResponderOutput option" where
  "responder_output_from_result (Ok s) = Some \<lparr> ro_shared_secret = s, ro_status = 0 \<rparr>"
| "responder_output_from_result (Err InvalidKey) = Some \<lparr> ro_shared_secret = replicate 32 0, ro_status = -1 \<rparr>"
| "responder_output_from_result (Err _) = Some \<lparr> ro_shared_secret = replicate 32 0, ro_status = -2 \<rparr>"
| "responder_output_from_result Panic = None"

definition bundle_from_input :: "X3DHBundleInput \<Rightarrow> PreKeyBundle" where
  "bundle_from_input b =
     \<lparr> identity_key = bi_identity_public b,
       signed_prekey = \<lparr> spk_id = bi_spk_id b, spk_public_key = bi_spk_public b, spk_signature = bi_spk_signature b \<rparr>,
       one_time_prekey = (if bi_has_opk b then Some \<lparr> opk_id = bi_opk_id b, opk_public_key = bi_opk_public b \<rparr> else None) \<rparr>"

text \<open>An output of \<open>None\<close> is a panic of the native function.\<close>

definition write_or_abort :: "('x \<Rightarrow> (unit, 'm) c_call) \<Rightarrow> 'x option \<Rightarrow> (unit, 'm) c_call" where
  "write_or_abort f x m = (case x of None \<Rightarrow> Aborted | Some y \<Rightarrow> f y m)"

definition x3dh_initiator_ffi :: "crypto \<Rightarrow> ('p, 's) curve \<Rightarrow> bytes \<Rightarrow> X3DHBundleInput \<Rightarrow> ptr \<Rightarrow> (unit, key_memory) c_call" where
  "x3dh_initiator_ffi c e identity_private b output m =
     (let (r, w) = x3dh_initiator c e (key_world m) identity_private (bundle_from_input b)
      in write_or_abort (write_struct init_outs (\<lambda>a x m. m\<lparr>init_outs := (init_outs m)(a \<mapsto> x)\<rparr>) output)
           (init_output_from_result r) (m\<lparr>key_world := w\<rparr>))"

definition x3dh_responder_ffi :: "crypto \<Rightarrow> ('p, 's) curve \<Rightarrow> X3DHResponderInput \<Rightarrow> X3DHAliceKeys \<Rightarrow> ptr \<Rightarrow> (unit, key_memory) c_call" where
  "x3dh_responder_ffi c e responder alice output =
     (let opk_private = (if ri_has_opk responder then Some (ri_opk_private responder) else None)
      in write_or_abort (write_struct responder_outs (\<lambda>a x m. m\<lparr>responder_outs := (responder_outs m)(a \<mapsto> x)\<rparr>) output)
           (responder_output_from_result
              (x3dh_responder c e (ri_identity_private responder) (ri_spk_private responder) opk_private
                 (ak_identity_public alice) (ak_ephemeral_public alice))))"

section \<open>Properties\<close>

lemma write_struct_held:
  "get m a \<noteq> None \<Longrightarrow> write_struct get put (Addr a) x m = Returned () (put a x m)"
  by (simp add: write_struct_def)

text \<open>C39: Key agreement through the C structs: on a genuine signed bundle, with or without its one-time
  prekey, x3dh_initiator_ffi writes status 0, and x3dh_responder_ffi on the keys it
  wrote does too, with the same 32-byte secret.\<close>

theorem x3dh_ffi_agreement:
  assumes "crypto_ok c" and "curve_ok e" and "birational c e"
    and "is_array 32 ia" "is_array 32 ib" "is_array 32 spk" "is_array 32 opk"
    and "vxeddsa_sign c e w0 ib (gen_pubkey c spk) = (Ok sg, w0')"
    and "vrf_base c e (compress e (snd (calculate_key_pair e ib))) (gen_pubkey c spk) \<noteq> identity e"
    and "init_outs m q \<noteq> None" and "responder_outs m r \<noteq> None"
  shows "\<exists>m1 io m2 ro.
     x3dh_initiator_ffi c e ia
       \<lparr> bi_identity_public = gen_pubkey c ib, bi_spk_id = i, bi_spk_public = gen_pubkey c spk,
         bi_spk_signature = signature sg, bi_opk_id = j, bi_opk_public = gen_pubkey c opk, bi_has_opk = h \<rparr>
       (Addr q) m = Returned () m1 \<and>
     init_outs m1 q = Some io \<and> io_status io = 0 \<and> is_array 32 (io_shared_secret io) \<and>
     x3dh_responder_ffi c e
       \<lparr> ri_identity_private = ib, ri_spk_private = spk, ri_opk_private = opk, ri_has_opk = h \<rparr>
       \<lparr> ak_identity_public = gen_pubkey c ia, ak_ephemeral_public = io_ephemeral_public io \<rparr>
       (Addr r) m1 = Returned () m2 \<and>
     responder_outs m2 r = Some ro \<and> ro_status ro = 0 \<and> ro_shared_secret ro = io_shared_secret io"
proof -
  let ?b = "\<lparr> bi_identity_public = gen_pubkey c ib, bi_spk_id = i, bi_spk_public = gen_pubkey c spk,
         bi_spk_signature = signature sg, bi_opk_id = j, bi_opk_public = gen_pubkey c opk, bi_has_opk = h \<rparr>"
  let ?opk = "if h then Some opk else None"
  have "pred_option (is_array 32) ?opk" using assms(7) by simp
  from genuine_agreement [OF assms(1-6) this assms(8,9), of "bundle_from_input ?b" i j "key_world m"]
  obtain res w' where init: "x3dh_initiator c e (key_world m) ia (bundle_from_input ?b) = (Ok res, w')"
    and len: "is_array 32 (shared_secret res)"
    and resp: "x3dh_responder c e ib spk ?opk (gen_pubkey c ia) (ephemeral_public res) = Ok (shared_secret res)"
    by (cases h) (auto simp: bundle_from_input_def)
  let ?io = "\<lparr> io_shared_secret = shared_secret res, io_ephemeral_public = ephemeral_public res, io_status = 0 \<rparr>"
  let ?ro = "\<lparr> ro_shared_secret = shared_secret res, ro_status = 0 \<rparr>"
  let ?m1 = "m\<lparr>key_world := w', init_outs := (init_outs m)(q \<mapsto> ?io)\<rparr>"
  let ?m2 = "?m1\<lparr>responder_outs := (responder_outs m)(r \<mapsto> ?ro)\<rparr>"
  have "x3dh_initiator_ffi c e ia ?b (Addr q) m = Returned () ?m1"
    using assms(10) by (simp add: x3dh_initiator_ffi_def init write_or_abort_def write_struct_held)
  moreover have "x3dh_responder_ffi c e
       \<lparr> ri_identity_private = ib, ri_spk_private = spk, ri_opk_private = opk, ri_has_opk = h \<rparr>
       \<lparr> ak_identity_public = gen_pubkey c ia, ak_ephemeral_public = ephemeral_public res \<rparr> (Addr r) ?m1 = Returned () ?m2"
    using assms(11) resp by (cases h) (simp_all add: x3dh_responder_ffi_def write_or_abort_def write_struct_held)
  ultimately show ?thesis
    using len by (intro exI [of _ ?m1] exI [of _ ?io] exI [of _ ?m2] exI [of _ ?ro]) simp
qed

theorem x3dh_ffi_agreement_witness:
  "\<exists>sg m m1 io m2 ro. 
     x3dh_initiator_ffi signing_crypto binary_curve (replicate 32 1)
       \<lparr> bi_identity_public = gen_pubkey signing_crypto (replicate 32 2), bi_spk_id = 1,
         bi_spk_public = gen_pubkey signing_crypto (replicate 32 3), bi_spk_signature = sg, bi_opk_id = 9,
         bi_opk_public = gen_pubkey signing_crypto (replicate 32 4), bi_has_opk = True \<rparr> (Addr 0) m = Returned () m1 \<and>
     init_outs m1 0 = Some io \<and>
     x3dh_responder_ffi signing_crypto binary_curve
       \<lparr> ri_identity_private = replicate 32 2, ri_spk_private = replicate 32 3, ri_opk_private = replicate 32 4,
         ri_has_opk = True \<rparr>
       \<lparr> ak_identity_public = gen_pubkey signing_crypto (replicate 32 1), ak_ephemeral_public = io_ephemeral_public io \<rparr>
       (Addr 1) m1 = Returned () m2 \<and>
     responder_outs m2 1 = Some ro \<and> ro_status ro = 0 \<and> ro_shared_secret ro = io_shared_secret io"
proof -
  obtain sg w0 where sign: "vxeddsa_sign signing_crypto binary_curve demo_world (replicate 32 2)
      (gen_pubkey signing_crypto (replicate 32 3)) = (Ok sg, w0)"
    using binary_signs by blast
  have base: "vrf_base signing_crypto binary_curve (compress binary_curve (snd (calculate_key_pair binary_curve (replicate 32 2))))
      (gen_pubkey signing_crypto (replicate 32 3)) \<noteq> identity binary_curve"
    by (simp add: vrf_base_def run_simps)
  define m where "m = \<lparr> key_blocks = Map.empty, sign_outs = Map.empty,
    init_outs = [0 \<mapsto> \<lparr> io_shared_secret = [], io_ephemeral_public = [], io_status = 0 \<rparr>],
    responder_outs = [1 \<mapsto> \<lparr> ro_shared_secret = [], ro_status = 0 \<rparr>], key_world = w0 \<rparr>"
  have "init_outs m 0 \<noteq> None" "responder_outs m 1 \<noteq> None" by (simp_all add: m_def)
  from x3dh_ffi_agreement [OF signing_crypto_ok binary_curve_ok binary_birational _ _ _ _ sign base this,
      of "replicate 32 1" "replicate 32 4" 1 9 True]
  show ?thesis by (simp only: length_replicate) blast
qed

end
