(* ===== verification/Jni.thy ===== *)
theory Jni
  imports Crypto_C Ratchet_C
begin

text \<open>
  The Java bindings of \<^verbatim>\<open>src/jni\<close>. A call into the JVM may fail at any point: \<open>jvm_ok\<close>
  is the outcome of the successive calls. Sessions are behind \<^verbatim>\<open>jlong\<close> handles. A byte array
  parameter is a null reference or an array; converting a null reference is an error that
  makes no JVM call (the \<^verbatim>\<open>jni\<close> crate checks its arguments). Looking up a class, creating
  an object, an array or a string and calling \<^verbatim>\<open>HashMap.put\<close> are one JVM call each.
\<close>

section \<open>Calls into the JVM\<close>

datatype jobject = JNull | JBytes bytes | JMap "(string \<times> bytes) list" | JText bytes

record java_world =
  jvm_ok :: "nat \<Rightarrow> bool"
  jvm_pos :: nat
  handles :: "int \<rightharpoonup> RatchetState"
  next_handle :: int
  jworld :: World

type_synonym 'a jni = "('a, java_world) c_call"
type_synonym jarray = "bytes option"

definition jvm :: "'a \<Rightarrow> 'a option jni" where
  "jvm x m = Returned (if jvm_ok m (jvm_pos m) then Some x else None) (m\<lparr>jvm_pos := Suc (jvm_pos m)\<rparr>)"

text \<open>\<^verbatim>\<open>match .. { Ok(x) => x, Err(_) => return d }\<close> and \<^verbatim>\<open>unwrap()\<close>.\<close>

definition or_return :: "'b \<Rightarrow> 'a option jni \<Rightarrow> ('a \<Rightarrow> 'b jni) \<Rightarrow> 'b jni" where
  "or_return d f g = c_bind f (\<lambda>x. case x of None \<Rightarrow> c_ret d | Some a \<Rightarrow> g a)"

definition or_abort :: "'a option jni \<Rightarrow> ('a \<Rightarrow> 'b jni) \<Rightarrow> 'b jni" where
  "or_abort f g = c_bind f (\<lambda>x. case x of None \<Rightarrow> (\<lambda>_. Aborted) | Some a \<Rightarrow> g a)"

definition convert_byte_array :: "jarray \<Rightarrow> bytes option jni" where
  "convert_byte_array arr = (case arr of None \<Rightarrow> c_ret None | Some b \<Rightarrow> jvm b)"

definition get_byte_array :: "jarray \<Rightarrow> bytes option jni" where
  "get_byte_array arr = (case arr of None \<Rightarrow> c_ret None | Some b \<Rightarrow> convert_byte_array (Some b))"

text \<open>\<^verbatim>\<open>match get_byte_array(..) { Some(v) if v.len() == n => v, _ => return .. }\<close>\<close>

definition sized_byte_array :: "nat \<Rightarrow> jarray \<Rightarrow> bytes option jni" where
  "sized_byte_array n arr =
     c_bind (get_byte_array arr) (\<lambda>x. c_ret (case x of None \<Rightarrow> None | Some v \<Rightarrow> if length v = n then Some v else None))"

definition create_byte_array :: "bytes \<Rightarrow> jobject option jni" where
  "create_byte_array b = jvm (JBytes b)"

definition byte_array_or_null :: "bytes \<Rightarrow> jobject jni" where
  "byte_array_or_null b = c_bind (create_byte_array b) (\<lambda>x. c_ret (case x of None \<Rightarrow> JNull | Some a \<Rightarrow> a))"

text \<open>\<^verbatim>\<open>let _ = env.call_method(&map, "put", ..)\<close>: a failed call leaves the map as it was.\<close>

definition java_put :: "string \<Rightarrow> bytes \<Rightarrow> (string \<times> bytes) list \<Rightarrow> (string \<times> bytes) list jni" where
  "java_put k v es = c_bind (jvm ()) (\<lambda>x. c_ret (if x = None then es else es @ [(k, v)]))"

text \<open>
  The two-entry hash maps the bindings return: class, object, the two arrays, the two keys,
  then the two entries; a failed call returns null.
\<close>

definition java_map :: "string \<Rightarrow> bytes \<Rightarrow> string \<Rightarrow> bytes \<Rightarrow> jobject jni" where
  "java_map k1 v1 k2 v2 =
     or_return JNull (jvm ()) (\<lambda>map_class.
     or_return JNull (jvm ()) (\<lambda>map_object.
     or_return JNull (create_byte_array v1) (\<lambda>array1.
     or_return JNull (create_byte_array v2) (\<lambda>array2.
     or_return JNull (jvm ()) (\<lambda>key1.
     or_return JNull (jvm ()) (\<lambda>key2.
     c_bind (java_put k1 v1 []) (\<lambda>es.
     c_bind (java_put k2 v2 es) (\<lambda>es. c_ret (JMap es)))))))))"

section \<open>Keys and signatures\<close>

definition jni_encodePublicKey :: "jarray \<Rightarrow> jobject jni" where
  "jni_encodePublicKey key_array =
     or_return JNull (convert_byte_array key_array) (\<lambda>key.
       if length key \<noteq> 32 then c_ret JNull else byte_array_or_null (encode_public_key key))"

definition jni_genKeyPair :: "crypto \<Rightarrow> jobject jni" where
  "jni_genKeyPair c m =
     (let (keys, w) = gen_keypair c (jworld m)
      in java_map ''secret'' (secret keys) ''public'' (public keys) (m\<lparr>jworld := w\<rparr>))"

definition jni_vxeddsaSign :: "crypto \<Rightarrow> ('p, 's) curve \<Rightarrow> jarray \<Rightarrow> jarray \<Rightarrow> jobject jni" where
  "jni_vxeddsaSign c e k_array m_array =
     or_return JNull (convert_byte_array k_array) (\<lambda>k.
     or_return JNull (convert_byte_array m_array) (\<lambda>message.
       if length k \<noteq> 32 then c_ret JNull
       else (\<lambda>m. let (r, w) = vxeddsa_sign c e (jworld m) k message
                 in c_result r (\<lambda>r. case r of
                      Ok out \<Rightarrow> java_map ''signature'' (signature out) ''vrf'' (vrf out)
                    | _ \<Rightarrow> c_ret JNull) (m\<lparr>jworld := w\<rparr>))))"

definition jni_vxeddsaVerify :: "crypto \<Rightarrow> ('p, 's) curve \<Rightarrow> jarray \<Rightarrow> jarray \<Rightarrow> jarray \<Rightarrow> jobject jni" where
  "jni_vxeddsaVerify c e u_array m_array signature_array =
     or_return JNull (convert_byte_array u_array) (\<lambda>u.
     or_return JNull (convert_byte_array m_array) (\<lambda>message.
     or_return JNull (convert_byte_array signature_array) (\<lambda>sig.
       if length u \<noteq> 33 \<or> length sig \<noteq> 96 then c_ret JNull
       else c_result (vxeddsa_verify c e u message sig :: (bytes option, unit) result) (\<lambda>r. case r of
              Ok (Some v_out) \<Rightarrow> byte_array_or_null v_out
            | _ \<Rightarrow> c_ret JNull))))"

definition jni_genPubKey :: "crypto \<Rightarrow> jarray \<Rightarrow> jobject jni" where
  "jni_genPubKey c k_array =
     or_return JNull (convert_byte_array k_array) (\<lambda>k.
       if length k \<noteq> 32 then c_ret JNull else byte_array_or_null (gen_pubkey c k))"

definition jni_genSecret :: "jobject jni" where
  "jni_genSecret m = (let (s, w) = gen_secret (jworld m) in byte_array_or_null s (m\<lparr>jworld := w\<rparr>))"

section \<open>Key agreement\<close>

text \<open>An array that is not 33 bytes long counts as no one-time prekey.\<close>

definition jni_x3dhInitiator :: "crypto \<Rightarrow> ('p, 's) curve \<Rightarrow> jarray \<Rightarrow> jarray \<Rightarrow> u32 \<Rightarrow> jarray \<Rightarrow> jarray \<Rightarrow> u32 \<Rightarrow> jarray \<Rightarrow> jobject jni" where
  "jni_x3dhInitiator c e identity_private bob_identity_public bob_spk_id bob_spk_public bob_spk_signature bob_opk_id bob_opk_public =
     or_return JNull (sized_byte_array 32 identity_private) (\<lambda>id_priv.
     or_return JNull (sized_byte_array 33 bob_identity_public) (\<lambda>bob_id_pub.
     or_return JNull (sized_byte_array 33 bob_spk_public) (\<lambda>bob_spk_pub.
     or_return JNull (sized_byte_array 96 bob_spk_signature) (\<lambda>bob_spk_sig.
     c_bind (get_byte_array bob_opk_public) (\<lambda>bob_opk_pub m.
       let prekey_bundle =
             \<lparr> identity_key = bob_id_pub,
               signed_prekey = \<lparr> spk_id = bob_spk_id, spk_public_key = bob_spk_pub, spk_signature = bob_spk_sig \<rparr>,
               one_time_prekey =
                 (case bob_opk_pub of
                    None \<Rightarrow> None
                  | Some v \<Rightarrow> if length v = 33 then Some \<lparr> opk_id = bob_opk_id, opk_public_key = v \<rparr> else None) \<rparr>;
           (r, w) = x3dh_initiator c e (jworld m) id_priv prekey_bundle
       in c_result r (\<lambda>r. case r of
            Ok res \<Rightarrow> java_map ''sharedSecret'' (shared_secret res) ''ephemeralPublic'' (ephemeral_public res)
          | _ \<Rightarrow> c_ret JNull) (m\<lparr>jworld := w\<rparr>))))))"

definition jni_x3dhResponder :: "crypto \<Rightarrow> ('p, 's) curve \<Rightarrow> jarray \<Rightarrow> jarray \<Rightarrow> jarray \<Rightarrow> jarray \<Rightarrow> jarray \<Rightarrow> jobject jni" where
  "jni_x3dhResponder c e identity_private signed_prekey_private one_time_prekey_private alice_identity_public alice_ephemeral_public =
     or_return JNull (sized_byte_array 32 identity_private) (\<lambda>id_priv.
     or_return JNull (sized_byte_array 32 signed_prekey_private) (\<lambda>spk_priv.
     or_return JNull (sized_byte_array 33 alice_identity_public) (\<lambda>alice_id_pub.
     or_return JNull (sized_byte_array 33 alice_ephemeral_public) (\<lambda>alice_ek_pub.
     c_bind (get_byte_array one_time_prekey_private) (\<lambda>opk_priv.
       let opk_priv_fixed = (case opk_priv of None \<Rightarrow> None | Some v \<Rightarrow> if length v = 32 then Some v else None)
       in c_result (x3dh_responder c e id_priv spk_priv opk_priv_fixed alice_id_pub alice_ek_pub) (\<lambda>r. case r of
            Ok agreed \<Rightarrow> byte_array_or_null agreed
          | _ \<Rightarrow> c_ret JNull))))))"

section \<open>Sessions\<close>

definition new_handle :: "RatchetState \<Rightarrow> int jni" where
  "new_handle st m =
     Returned (next_handle m) (m\<lparr>handles := (handles m)(next_handle m \<mapsto> st), next_handle := next_handle m + 1\<rparr>)"

definition jni_session :: "int \<Rightarrow> RatchetState jni" where
  "jni_session h m = (case handles m h of None \<Rightarrow> Undefined | Some st \<Rightarrow> Returned st m)"

definition set_session :: "int \<Rightarrow> RatchetState \<Rightarrow> World \<Rightarrow> unit jni" where
  "set_session h st w m = Returned () (m\<lparr>handles := (handles m)(h \<mapsto> st), jworld := w\<rparr>)"

definition jni_ratchetInitSender :: "crypto \<Rightarrow> jarray \<Rightarrow> jarray \<Rightarrow> int jni" where
  "jni_ratchetInitSender c sk_arr receiver_pub_arr =
     or_return 0 (sized_byte_array 32 sk_arr) (\<lambda>sk.
     or_return 0 (sized_byte_array 33 receiver_pub_arr) (\<lambda>pub_key.
       c_result (decode_public_key pub_key) (\<lambda>decoded. case decoded of
           Ok receiver_pub \<Rightarrow>
             (\<lambda>m. let (r, w) = init_sender_state c (jworld m) sk receiver_pub
                  in c_result r (\<lambda>r. case r of Ok st \<Rightarrow> new_handle st | _ \<Rightarrow> c_ret 0) (m\<lparr>jworld := w\<rparr>))
         | _ \<Rightarrow> c_ret 0)))"

definition jni_ratchetInitReceiver :: "crypto \<Rightarrow> jarray \<Rightarrow> jarray \<Rightarrow> jarray \<Rightarrow> int jni" where
  "jni_ratchetInitReceiver c sk_arr priv_arr pub_arr =
     or_return 0 (sized_byte_array 32 sk_arr) (\<lambda>sk.
     or_return 0 (sized_byte_array 32 priv_arr) (\<lambda>priv_key.
     or_return 0 (sized_byte_array 33 pub_arr) (\<lambda>pub_key.
       c_result (decode_public_key pub_key) (\<lambda>decoded. case decoded of
           Ok public_key \<Rightarrow>
             c_result (init_receiver_state c sk (priv_key, public_key))
               (\<lambda>r. case r of Ok st \<Rightarrow> new_handle st | _ \<Rightarrow> c_ret 0)
         | _ \<Rightarrow> c_ret 0))))"

definition jni_ratchetFree :: "int \<Rightarrow> unit jni" where
  "jni_ratchetFree state_ptr m =
     (if state_ptr \<noteq> 0
      then if handles m state_ptr = None then Undefined
           else Returned () (m\<lparr>handles := (handles m)(state_ptr := None)\<rparr>)
      else Returned () m)"

definition unwrap_or_default :: "bytes option \<Rightarrow> bytes" where
  "unwrap_or_default x = (case x of None \<Rightarrow> [] | Some b \<Rightarrow> b)"

definition encrypted_map :: "bytes \<Rightarrow> bytes \<Rightarrow> jobject jni" where
  "encrypted_map hdr ciphertext =
     or_abort (jvm ()) (\<lambda>map_class.
     or_abort (jvm ()) (\<lambda>map_object.
     or_abort (create_byte_array hdr) (\<lambda>h_arr.
     or_abort (create_byte_array ciphertext) (\<lambda>c_arr.
     or_abort (jvm ()) (\<lambda>h_key.
     or_abort (jvm ()) (\<lambda>c_key.
     c_bind (java_put ''header'' hdr []) (\<lambda>es.
     c_bind (java_put ''ciphertext'' ciphertext es) (\<lambda>es. c_ret (JMap es)))))))))"

definition jni_ratchetEncrypt :: "crypto \<Rightarrow> int \<Rightarrow> jarray \<Rightarrow> jarray \<Rightarrow> jobject jni" where
  "jni_ratchetEncrypt c state_ptr plaintext_arr ad_arr =
     (if state_ptr = 0 then c_ret JNull
      else or_return JNull (get_byte_array plaintext_arr) (\<lambda>plaintext_vec.
           c_bind (get_byte_array ad_arr) (\<lambda>ad.
           c_bind (jni_session state_ptr) (\<lambda>state m.
             let (r, state') = encrypt c state plaintext_vec (unwrap_or_default ad)
             in c_bind (set_session state_ptr state' (jworld m)) (\<lambda>_. c_result r (\<lambda>r. case r of
                  Ok (hdr, ciphertext) \<Rightarrow> encrypted_map hdr ciphertext
                | _ \<Rightarrow> c_ret JNull)) m))))"

definition jni_ratchetDecrypt :: "crypto \<Rightarrow> int \<Rightarrow> jarray \<Rightarrow> jarray \<Rightarrow> jarray \<Rightarrow> jobject jni" where
  "jni_ratchetDecrypt c state_ptr header_arr ciphertext_arr ad_arr =
     (if state_ptr = 0 then c_ret JNull
      else or_return JNull (get_byte_array header_arr) (\<lambda>header_vec.
           or_return JNull (get_byte_array ciphertext_arr) (\<lambda>cipher_vec.
           c_bind (get_byte_array ad_arr) (\<lambda>ad.
           c_bind (jni_session state_ptr) (\<lambda>state m.
             let (r, state', w) = decrypt c (jworld m) state header_vec cipher_vec (unwrap_or_default ad)
             in c_bind (set_session state_ptr state' w) (\<lambda>_. c_result r (\<lambda>r. case r of
                  Ok plaintext \<Rightarrow> byte_array_or_null plaintext
                | _ \<Rightarrow> c_ret JNull)) m)))))"

definition jni_ratchetSerialize :: "json_codec \<Rightarrow> int \<Rightarrow> jobject jni" where
  "jni_ratchetSerialize j state_ptr =
     (if state_ptr = 0 then c_ret JNull
      else c_bind (jni_session state_ptr) (\<lambda>state m.
        case state_to_json j (jworld m) state of
          None \<Rightarrow> Returned JNull m
        | Some json_str \<Rightarrow> or_return JNull (jvm (JText json_str)) c_ret m))"

definition jni_ratchetDeserialize :: "json_codec \<Rightarrow> bytes option \<Rightarrow> int jni" where
  "jni_ratchetDeserialize j json_str =
     (case json_str of
        None \<Rightarrow> c_ret 0
      | Some s \<Rightarrow> or_return 0 (jvm s) (\<lambda>json_string.
          case state_from_json j json_string of None \<Rightarrow> c_ret 0 | Some state \<Rightarrow> new_handle state))"

section \<open>A JVM that answers\<close>

lemma jvm_simps [simp]:
  "jvm_ok m (jvm_pos m) \<Longrightarrow> jvm x m = Returned (Some x) (m\<lparr>jvm_pos := Suc (jvm_pos m)\<rparr>)"
  "\<not> jvm_ok m (jvm_pos m) \<Longrightarrow> jvm x m = Returned None (m\<lparr>jvm_pos := Suc (jvm_pos m)\<rparr>)"
  by (simp_all add: jvm_def)

lemma or_return_simps [simp]:
  "f m = Returned (Some a) m' \<Longrightarrow> or_return d f g m = g a m'"
  "f m = Returned None m' \<Longrightarrow> or_return d f g m = Returned d m'"
  by (simp_all add: or_return_def c_bind_def)

lemma get_byte_array_simps [simp]:
  "get_byte_array None m = Returned None m"
  "get_byte_array (Some b) m = jvm b m"
  by (simp_all add: get_byte_array_def convert_byte_array_def)

lemma sized_byte_array_simps [simp]:
  "sized_byte_array n None m = Returned None m"
  "jvm_ok m (jvm_pos m) \<Longrightarrow> sized_byte_array n (Some b) m =
     Returned (if length b = n then Some b else None) (m\<lparr>jvm_pos := Suc (jvm_pos m)\<rparr>)"
  by (simp_all add: sized_byte_array_def c_bind_def)

definition jvm_up :: "java_world \<Rightarrow> bool" where
  "jvm_up m \<longleftrightarrow> (\<forall>n. jvm_ok m n)"

lemma jvm_up_simps [simp]:
  "jvm_up m \<Longrightarrow> jvm_ok m n"
  "jvm_up (m\<lparr>jvm_pos := k\<rparr>) = jvm_up m" "jvm_up (m\<lparr>jworld := w\<rparr>) = jvm_up m"
  "jvm_up (m\<lparr>handles := hs\<rparr>) = jvm_up m"
  by (simp_all add: jvm_up_def)

lemma java_map_up:
  assumes "jvm_up m"
  shows "java_map k1 v1 k2 v2 m = Returned (JMap [(k1, v1), (k2, v2)]) (m\<lparr>jvm_pos := jvm_pos m + 8\<rparr>)"
  using assms by (simp add: java_map_def create_byte_array_def java_put_def c_bind_def)

lemma byte_array_or_null_up:
  "jvm_up m \<Longrightarrow> byte_array_or_null b m = Returned (JBytes b) (m\<lparr>jvm_pos := Suc (jvm_pos m)\<rparr>)"
  by (simp add: byte_array_or_null_def create_byte_array_def c_bind_def)

text \<open>What Java sees of a call: its result, and the environment it leaves.\<close>

definition java_view :: "('a, java_world) c_result \<Rightarrow> ('a \<times> World) option" where
  "java_view r = (case r of Returned a m \<Rightarrow> Some (a, jworld m) | _ \<Rightarrow> None)"

lemma java_view_initiator:
  assumes "jvm_up m" and "is_array 32 ia" "is_array 33 ib" "is_array 33 spk" "is_array 96 sg"
  shows "java_view (jni_x3dhInitiator c e (Some ia) (Some ib) i (Some spk) (Some sg) j opk m) =
    (let b = \<lparr> identity_key = ib, signed_prekey = \<lparr> spk_id = i, spk_public_key = spk, spk_signature = sg \<rparr>,
               one_time_prekey = (case opk of None \<Rightarrow> None
                 | Some v \<Rightarrow> if length v = 33 then Some \<lparr> opk_id = j, opk_public_key = v \<rparr> else None) \<rparr>
     in case x3dh_initiator c e (jworld m) ia b of
          (Ok r, w) \<Rightarrow> Some (JMap [(''sharedSecret'', shared_secret r), (''ephemeralPublic'', ephemeral_public r)], w)
        | (Err _, w) \<Rightarrow> Some (JNull, w)
        | (Panic, w) \<Rightarrow> None)"
  using assms
  by (cases opk)
    (simp_all add: jni_x3dhInitiator_def c_bind_def java_view_def java_map_up split: prod.split result.split)

lemma java_view_responder:
  assumes "jvm_up m" and "is_array 32 ib" "is_array 32 spk" "is_array 33 ia" "is_array 33 ek"
  shows "java_view (jni_x3dhResponder c e (Some ib) (Some spk) opk (Some ia) (Some ek) m) =
    (case x3dh_responder c e ib spk (case opk of None \<Rightarrow> None | Some v \<Rightarrow> if length v = 32 then Some v else None) ia ek of
       Ok s \<Rightarrow> Some (JBytes s, jworld m)
     | Err _ \<Rightarrow> Some (JNull, jworld m)
     | Panic \<Rightarrow> None)"
  using assms
  by (cases opk)
    (simp_all add: jni_x3dhResponder_def c_bind_def java_view_def byte_array_or_null_up split: result.split)

section \<open>Properties\<close>

text \<open>C32: The Java X3DH bindings do not refuse a one-time prekey of the wrong length: the initiator and
  the responder then return exactly what they return when no one-time prekey is passed, so the
  agreement silently loses the one-time prekey.\<close>

theorem jni_one_time_key_dropped:
  assumes "jvm_up m" and "is_array 32 ia" "is_array 33 ib" "is_array 33 spk" "is_array 96 sg"
    and "is_array 32 ibs" "is_array 32 spks" "is_array 33 iap" "is_array 33 ek"
    and "length opk \<noteq> 33" and "length opks \<noteq> 32"
  shows "java_view (jni_x3dhInitiator c e (Some ia) (Some ib) i (Some spk) (Some sg) j (Some opk) m) =
         java_view (jni_x3dhInitiator c e (Some ia) (Some ib) i (Some spk) (Some sg) j None m) \<and>
         java_view (jni_x3dhResponder c e (Some ibs) (Some spks) (Some opks) (Some iap) (Some ek) m) =
         java_view (jni_x3dhResponder c e (Some ibs) (Some spks) None (Some iap) (Some ek) m)"
  using assms by (simp add: java_view_initiator java_view_responder)

text \<open>C31: A Java call of ratchetDecrypt consumes the message in the session even when the JVM
  then fails to allocate the array for the plaintext, which is lost; every error is the same
  null; and a failure to read the associated data is taken for empty associated data.\<close>

theorem jni_decrypt_outcomes:
  assumes "h \<noteq> 0" and "handles m h = Some st" and "jvm_ok m (jvm_pos m)" and "jvm_ok m (jvm_pos m + 1)"
    and "decrypt c (jworld m) st hb ctb (if jvm_ok m (jvm_pos m + 2) then ad else []) = (r, st', w)" and "r \<noteq> Panic"
  shows "\<exists>m'. jni_ratchetDecrypt c h (Some hb) (Some ctb) (Some ad) m =
           Returned (case r of Ok p \<Rightarrow> if jvm_ok m (jvm_pos m + 3) then JBytes p else JNull | _ \<Rightarrow> JNull) m' \<and>
         handles m' = (handles m)(h \<mapsto> st') \<and> jworld m' = w"
proof -
  let ?m3 = "m\<lparr>jvm_pos := Suc (Suc (Suc (jvm_pos m)))\<rparr>"
  have "jni_ratchetDecrypt c h (Some hb) (Some ctb) (Some ad) m =
      c_result r (\<lambda>r. case r of Ok p \<Rightarrow> byte_array_or_null p | _ \<Rightarrow> c_ret JNull)
        (?m3\<lparr>handles := (handles m)(h \<mapsto> st'), jworld := w\<rparr>)"
    using assms(1-5)
    by (cases "jvm_ok m (jvm_pos m + 2)")
      (simp_all add: jni_ratchetDecrypt_def jni_session_def set_session_def c_bind_def unwrap_or_default_def)
  with assms(6) show ?thesis
    by (cases r) (auto simp: byte_array_or_null_def create_byte_array_def c_bind_def jvm_def numeral_eq_Suc)
qed

theorem jni_one_time_key_dropped_witness:
  "\<exists>m. jvm_up m \<and>
     java_view (jni_x3dhResponder signing_crypto binary_curve (Some (replicate 32 1)) (Some (replicate 32 2))
       (Some (replicate 31 3)) (Some (replicate 33 5)) (Some (replicate 33 5)) m) =
     java_view (jni_x3dhResponder signing_crypto binary_curve (Some (replicate 32 1)) (Some (replicate 32 2))
       None (Some (replicate 33 5)) (Some (replicate 33 5)) m)"
proof -
  define m where "m = \<lparr> jvm_ok = (\<lambda>_. True), jvm_pos = 0, handles = Map.empty, next_handle = 1, jworld = demo_world \<rparr>"
  have up: "jvm_up m" by (simp add: m_def jvm_up_def)
  from jni_one_time_key_dropped [OF up, of "replicate 32 1" "replicate 33 5" "replicate 33 5" "replicate 96 0"
      "replicate 32 1" "replicate 32 2" "replicate 33 5" "replicate 33 5" "[]" "replicate 31 3" signing_crypto binary_curve]
  show ?thesis using up by auto
qed

theorem jni_decrypt_outcomes_witness:
  "\<exists>m m' eh ct st st' w. handles m 1 = Some st \<and>
     decrypt reference_crypto (jworld m) st eh ct [3] = (Ok [1, 2], st', w) \<and>
     jni_ratchetDecrypt reference_crypto 1 (Some eh) (Some ct) (Some [3]) m = Returned JNull m' \<and>
     handles m' 1 = Some st'"
proof -
  obtain a b eh ct a' where conv: "conversation reference_crypto a b"
    and enc: "encrypt reference_crypto a [1, 2] [3] = (Ok (eh, ct), a')" and del: "deliverable reference_crypto a b eh"
    by (rule demo_conversation)
  define m where "m = \<lparr> jvm_ok = (\<lambda>n. n < 3), jvm_pos = 0, handles = [1 \<mapsto> b], next_handle = 2, jworld = demo_world \<rparr>"
  obtain b' w where dec: "decrypt reference_crypto (jworld m) b eh ct [3] = (Ok [1, 2], b', w)"
    using linked_delivered [OF reference_crypto_ok conversation_linked [OF conv reference_crypto_ok] enc del] by blast
  have m: "(1 :: int) \<noteq> 0" "handles m 1 = Some b" "jvm_ok m (jvm_pos m)" "jvm_ok m (jvm_pos m + 1)"
      "decrypt reference_crypto (jworld m) b eh ct (if jvm_ok m (jvm_pos m + 2) then [3] else []) = (Ok [1, 2], b', w)"
      "\<not> jvm_ok m (jvm_pos m + 3)"
    using dec by (simp_all add: m_def)
  from jni_decrypt_outcomes [OF m(1-5)] m(6)
  obtain m' where "jni_ratchetDecrypt reference_crypto 1 (Some eh) (Some ct) (Some [3]) m = Returned JNull m'"
      "handles m' = (handles m)(1 \<mapsto> b')" by auto
  then show ?thesis using m(2) dec by (intro exI [of _ m] exI [of _ m']) auto
qed

end
