(* ===== verification/Jni_Safe.thy ===== *)
theory Jni_Safe
  imports Jni Foreign_Sessions
begin

text \<open>
  The session methods of \<^verbatim>\<open>src/jni/ratchet.rs\<close> under a Java caller that passes only handles it
  was given and has not freed, and whatever arrays it likes.
\<close>

section \<open>Calls\<close>

datatype jni_op =
    JInitSender jarray jarray
  | JInitReceiver jarray jarray jarray
  | JFree int
  | JEncrypt int jarray jarray
  | JDecrypt int jarray jarray jarray
  | JSerialize int
  | JDeserialize "bytes option"

fun jni_step :: "crypto \<Rightarrow> json_codec \<Rightarrow> jni_op \<Rightarrow> (unit, java_world) c_call" where
  "jni_step c j (JInitSender sk pub) = c_bind (jni_ratchetInitSender c sk pub) (\<lambda>_. c_ret ())"
| "jni_step c j (JInitReceiver sk priv pub) = c_bind (jni_ratchetInitReceiver c sk priv pub) (\<lambda>_. c_ret ())"
| "jni_step c j (JFree h) = jni_ratchetFree h"
| "jni_step c j (JEncrypt h p ad) = c_bind (jni_ratchetEncrypt c h p ad) (\<lambda>_. c_ret ())"
| "jni_step c j (JDecrypt h eh ct ad) = c_bind (jni_ratchetDecrypt c h eh ct ad) (\<lambda>_. c_ret ())"
| "jni_step c j (JSerialize h) = c_bind (jni_ratchetSerialize j h) (\<lambda>_. c_ret ())"
| "jni_step c j (JDeserialize s) = c_bind (jni_ratchetDeserialize j s) (\<lambda>_. c_ret ())"

text \<open>
  Handles are 0 or live. \<^verbatim>\<open>ratchetEncrypt\<close> unwraps the results of its JVM calls, so it is
  allowed only where the JVM answers. Any text may be read as a session.
\<close>

definition live :: "java_world \<Rightarrow> int \<Rightarrow> bool" where
  "live m h \<longleftrightarrow> h = 0 \<or> handles m h \<noteq> None"

fun jni_allowed :: "java_world \<Rightarrow> jni_op \<Rightarrow> bool" where
  "jni_allowed m (JFree h) = live m h"
| "jni_allowed m (JEncrypt h p ad) = (live m h \<and> jvm_up m)"
| "jni_allowed m (JDecrypt h eh ct ad) = live m h"
| "jni_allowed m (JSerialize h) = live m h"
| "jni_allowed m _ = True"

text \<open>A text need not come from \<^verbatim>\<open>ratchetSerialize\<close>. What the sessions are that the calls read back:\<close>

definition java_reads_back :: "(RatchetState \<Rightarrow> bool) \<Rightarrow> json_codec \<Rightarrow> jni_op \<Rightarrow> bool" where
  "java_reads_back ok j op =
     (case op of JDeserialize (Some t) \<Rightarrow> pred_option ok (state_from_json j t) | _ \<Rightarrow> True)"

lemma typed_java_reads_back: "json_typed j \<Longrightarrow> java_reads_back wf_state j op"
  by (auto simp: java_reads_back_def read_typed pred_option_def split: jni_op.split option.split dest!: option.set_sel)

definition jni_good :: "(RatchetState \<Rightarrow> bool) \<Rightarrow> crypto \<Rightarrow> java_world \<Rightarrow> bool" where
  "jni_good ok c m \<longleftrightarrow> ratchet_crypto c \<and> 0 < next_handle m \<and> (\<forall>h st. handles m h = Some st \<longrightarrow> ok st)"

section \<open>Every allowed call returns\<close>

lemma jni_goodD: "jni_good ok c m \<Longrightarrow> handles m h = Some st \<Longrightarrow> ok st"
  by (simp add: jni_good_def)

lemma jni_good_updates [simp]:
  "jni_good ok c (m\<lparr>jvm_pos := k\<rparr>) = jni_good ok c m"
  "jni_good ok c (m\<lparr>jworld := w\<rparr>) = jni_good ok c m"
  by (simp_all add: jni_good_def)

text \<open>Arguments are read without a change of the sessions.\<close>

definition reads :: "java_world \<Rightarrow> java_world \<Rightarrow> bool" where
  "reads m m' \<longleftrightarrow> handles m' = handles m \<and> jvm_ok m' = jvm_ok m"

lemma reads_live: "reads m m' \<Longrightarrow> live m' h = live m h" "reads m m' \<Longrightarrow> jvm_up m' = jvm_up m"
  by (simp_all add: reads_def live_def jvm_up_def)

lemma reads_trans: "reads m m' \<Longrightarrow> reads m' m'' \<Longrightarrow> reads m m''"
  by (simp add: reads_def)

lemma jvm_safe: "jni_good ok c m \<Longrightarrow> c_safe (jni_good ok c) (\<lambda>_ m'. reads m m') (jvm x m)"
  by (simp add: jvm_def reads_def)

lemma get_byte_array_safe: "jni_good ok c m \<Longrightarrow> c_safe (jni_good ok c) (\<lambda>_ m'. reads m m') (get_byte_array arr m)"
  by (cases arr) (simp_all add: jvm_def reads_def)

lemma sized_byte_array_safe:
  "jni_good ok c m \<Longrightarrow> c_safe (jni_good ok c) (\<lambda>x m'. reads m m' \<and> pred_option (is_array n) x) (sized_byte_array n arr m)"
  by (cases arr) (simp_all add: sized_byte_array_def c_bind_def jvm_def reads_def)

abbreviation returns :: "(RatchetState \<Rightarrow> bool) \<Rightarrow> crypto \<Rightarrow> ('a, java_world) c_result \<Rightarrow> bool" where
  "returns ok c \<equiv> c_safe (jni_good ok c) (\<lambda>_ _. True)"

lemma or_return_safe:
  assumes "c_safe (jni_good ok c) (\<lambda>x m'. Q m' \<and> pred_option R x) (f m)"
    and "\<And>a m'. jni_good ok c m' \<Longrightarrow> Q m' \<Longrightarrow> R a \<Longrightarrow> returns ok c (g a m')"
  shows "returns ok c (or_return d f g m)"
proof -
  obtain x m' where f: "f m = Returned x m'" and "jni_good ok c m'" "Q m'" "pred_option R x"
    using assms(1) by (auto elim: c_safeE)
  then show ?thesis using assms(2) by (cases x) (simp_all add: or_return_def f)
qed

lemma read_array:
  assumes "jni_good ok c m" and "\<And>a m'. jni_good ok c m' \<Longrightarrow> reads m m' \<Longrightarrow> returns ok c (g a m')"
  shows "returns ok c (or_return d (get_byte_array arr) g m)"
  by (rule or_return_safe [where Q = "reads m" and R = "\<lambda>_. True"])
    (use get_byte_array_safe [OF assms(1), of arr] assms(2) in \<open>auto elim!: c_safeE simp: option.pred_True\<close>)

lemma read_sized:
  assumes "jni_good ok c m" and "\<And>a m'. jni_good ok c m' \<Longrightarrow> reads m m' \<Longrightarrow> is_array n a \<Longrightarrow> returns ok c (g a m')"
  shows "returns ok c (or_return d (sized_byte_array n arr) g m)"
  by (rule or_return_safe [where Q = "reads m" and R = "is_array n"])
    (use sized_byte_array_safe [OF assms(1)] assms(2) in auto)

lemma read_optional:
  assumes "jni_good ok c m" and "\<And>a m'. jni_good ok c m' \<Longrightarrow> reads m m' \<Longrightarrow> returns ok c (g a m')"
  shows "returns ok c (c_bind (get_byte_array arr) g m)"
  using get_byte_array_safe [OF assms(1), of arr] assms(2) by (auto elim!: c_safeE)

lemma byte_array_or_null_safe: "jni_good ok c m \<Longrightarrow> returns ok c (byte_array_or_null b m)"
  by (simp add: byte_array_or_null_def create_byte_array_def c_bind_def jvm_def)

lemma new_handle_safe: "jni_good ok c m \<Longrightarrow> ok st \<Longrightarrow> returns ok c (new_handle st m)"
  by (auto simp: new_handle_def jni_good_def)

lemma encrypted_map_up:
  assumes "jvm_up m"
  shows "encrypted_map hdr ct m = Returned (JMap [(''header'', hdr), (''ciphertext'', ct)]) (m\<lparr>jvm_pos := jvm_pos m + 8\<rparr>)"
  using assms by (simp add: encrypted_map_def or_abort_def create_byte_array_def java_put_def c_bind_def)

lemma jni_good_session: "jni_good ok c m \<Longrightarrow> ok st \<Longrightarrow> jni_good ok c (m\<lparr>handles := (handles m)(h \<mapsto> st), jworld := w\<rparr>)"
  by (auto simp: jni_good_def)

context session_kept
begin

lemma jni_encrypt_safe:
  assumes "jni_good ok c m" and "live m h" and "jvm_up m"
  shows "returns ok c (jni_ratchetEncrypt c h p ad m)"
proof (cases "h = 0")
  case False
  show ?thesis
    unfolding jni_ratchetEncrypt_def if_not_P [OF False]
  proof (rule read_array [OF assms(1)], rule read_optional, assumption)
    fix pt m1 adb m2
    assume good: "jni_good ok c m2" and "reads m m1" "reads m1 m2"
    then have rd: "reads m m2" by (metis reads_trans)
    obtain st where st: "handles m2 h = Some st"
      using assms(2) False reads_live(1) [OF rd, of h] by (auto simp: live_def)
    obtain r st' where enc: "encrypt c st pt (unwrap_or_default adb) = (r, st')" by fastforce
    have c: "ratchet_crypto c" using good by (simp add: jni_good_def)
    note kept = encrypt_ok [OF c jni_goodD [OF good st] enc]
    let ?m = "m2\<lparr>handles := (handles m2)(h \<mapsto> st'), jworld := jworld m2\<rparr>"
    have "jni_good ok c ?m" "jvm_up ?m"
      using jni_good_session [OF good conjunct1 [OF kept]] assms(3) reads_live(2) [OF rd] by (simp_all add: jvm_up_def)
    then have "returns ok c (c_result r (\<lambda>r. case r of Ok (hdr, ct) \<Rightarrow> encrypted_map hdr ct | _ \<Rightarrow> c_ret JNull) ?m)"
      using kept by (cases r) (auto simp: encrypted_map_up)
    then show "returns ok c (c_bind (jni_session h) (\<lambda>state m.
             let (r, state') = encrypt c state pt (unwrap_or_default adb)
             in c_bind (set_session h state' (jworld m)) (\<lambda>_. c_result r (\<lambda>r. case r of
                  Ok (hdr, ciphertext) \<Rightarrow> encrypted_map hdr ciphertext
                | _ \<Rightarrow> c_ret JNull)) m) m2)"
      by (simp add: c_bind_def jni_session_def st enc set_session_def)
  qed
qed (use assms in \<open>simp add: jni_ratchetEncrypt_def\<close>)

lemma jni_decrypt_safe:
  assumes "jni_good ok c m" and "live m h"
  shows "returns ok c (jni_ratchetDecrypt c h eh ct ad m)"
proof (cases "h = 0")
  case False
  show ?thesis
    unfolding jni_ratchetDecrypt_def if_not_P [OF False]
  proof (rule read_array [OF assms(1)], rule read_array, assumption, rule read_optional, assumption)
    fix hb m1 ctb m2 adb m3
    assume good: "jni_good ok c m3" and "reads m m1" "reads m1 m2" "reads m2 m3"
    then have rd: "reads m m3" by (metis reads_trans)
    obtain st where st: "handles m3 h = Some st"
      using assms(2) False reads_live(1) [OF rd, of h] by (auto simp: live_def)
    obtain r st' w where dec: "decrypt c (jworld m3) st hb ctb (unwrap_or_default adb) = (r, st', w)"
      by (metis prod_cases3)
    have c: "ratchet_crypto c" using good by (simp add: jni_good_def)
    note kept = decrypt_ok [OF c jni_goodD [OF good st] dec]
    have "returns ok c (c_result r (\<lambda>r. case r of Ok p \<Rightarrow> byte_array_or_null p | _ \<Rightarrow> c_ret JNull)
        (m3\<lparr>handles := (handles m3)(h \<mapsto> st'), jworld := w\<rparr>))"
      using kept jni_good_session [OF good conjunct1 [OF kept]] by (cases r) (auto simp: byte_array_or_null_safe)
    then show "returns ok c (c_bind (jni_session h) (\<lambda>state m.
             let (r, state', w) = decrypt c (jworld m) state hb ctb (unwrap_or_default adb)
             in c_bind (set_session h state' w) (\<lambda>_. c_result r (\<lambda>r. case r of
                  Ok plaintext \<Rightarrow> byte_array_or_null plaintext
                | _ \<Rightarrow> c_ret JNull)) m) m3)"
      by (simp add: c_bind_def jni_session_def st dec set_session_def)
  qed
qed (use assms in \<open>simp add: jni_ratchetDecrypt_def\<close>)

lemma jni_init_sender_safe:
  assumes "jni_good ok c m"
  shows "returns ok c (jni_ratchetInitSender c sk pub m)"
  unfolding jni_ratchetInitSender_def
proof (rule read_sized [OF assms], rule read_sized, assumption)
  fix skb m1 pubb m2
  assume good: "jni_good ok c m2" and len: "is_array 32 skb" "is_array 33 pubb"
  show "returns ok c (c_result (decode_public_key pubb) (\<lambda>decoded. case decoded of
           Ok receiver_pub \<Rightarrow>
             (\<lambda>m. let (r, w) = init_sender_state c (jworld m) skb receiver_pub
                  in c_result r (\<lambda>r. case r of Ok st \<Rightarrow> new_handle st | _ \<Rightarrow> c_ret 0) (m\<lparr>jworld := w\<rparr>))
         | _ \<Rightarrow> c_ret 0) m2)"
  proof (cases "decode_public_key pubb")
    case (Ok k)
    then have "is_array 32 k" using pubkey.enc_dec len(2) by blast
    then obtain st w where "init_sender_state c (jworld m2) skb k = (Ok st, w)" "ok st"
      using init_sender_ok [OF _ len(1)] invariant_ok good unfolding jni_good_def by blast
    with good Ok show ?thesis by (simp add: new_handle_safe)
  qed (use good in simp_all)
qed

lemma jni_init_receiver_safe:
  assumes "jni_good ok c m"
  shows "returns ok c (jni_ratchetInitReceiver c sk priv pub m)"
  unfolding jni_ratchetInitReceiver_def
proof (rule read_sized [OF assms], rule read_sized, assumption, rule read_sized, assumption)
  fix skb m1 privb m2 pubb m3
  assume good: "jni_good ok c m3" and len: "is_array 32 skb" "is_array 32 privb" "is_array 33 pubb"
  show "returns ok c (c_result (decode_public_key pubb) (\<lambda>decoded. case decoded of
           Ok public_key \<Rightarrow>
             c_result (init_receiver_state c skb (privb, public_key))
               (\<lambda>r. case r of Ok st \<Rightarrow> new_handle st | _ \<Rightarrow> c_ret 0)
         | _ \<Rightarrow> c_ret 0) m3)"
  proof (cases "decode_public_key pubb")
    case (Ok k)
    then have "is_array 32 k" using pubkey.enc_dec len(3) by blast
    then obtain st where "init_receiver_state c skb (privb, k) = Ok st" "ok st"
      using init_receiver_ok [OF _ len(1,2)] invariant_ok good unfolding jni_good_def by blast
    with good Ok show ?thesis by (simp add: new_handle_safe)
  qed (use good in simp_all)
qed

lemma returns_unit: "returns ok c (f m) \<Longrightarrow> returns ok c (c_bind f (\<lambda>_. c_ret ()) m)"
  by (auto elim!: c_safeE)

lemma jni_step_safe:
  assumes good: "jni_good ok c m" and allowed: "jni_allowed m op" and reads: "java_reads_back ok j op"
  shows "returns ok c (jni_step c j op m)"
proof (cases op)
  case (JFree h)
  then show ?thesis using good allowed by (auto simp: jni_ratchetFree_def live_def jni_good_def)
next
  case (JSerialize h)
  then show ?thesis using good allowed
    by (auto simp: jni_ratchetSerialize_def live_def c_bind_def jni_session_def or_return_def jvm_def split: option.split)
next
  case (JDeserialize s)
  then show ?thesis using good reads
    by (auto simp: jni_ratchetDeserialize_def c_bind_def or_return_def jvm_def new_handle_def jni_good_def java_reads_back_def
        split: option.splits)
qed (use good allowed jni_encrypt_safe jni_decrypt_safe jni_init_sender_safe jni_init_receiver_safe in
      \<open>auto intro!: returns_unit simp del: c_bind_simps\<close>)

end

interpretation java_caller: careful_caller "jni_step c j" jni_allowed "\<lambda>m. json_typed j \<and> jni_good wf_state c m" for c j
proof
  fix m op assume "json_typed j \<and> jni_good wf_state c m" and "jni_allowed m op"
  then show "c_safe (\<lambda>m. json_typed j \<and> jni_good wf_state c m) (\<lambda>_ _. True) (jni_step c j op m)"
    using typed.jni_step_safe [of c m op j] typed_java_reads_back by (auto elim!: c_safeE)
qed

interpretation java_own_texts: careful_caller "jni_step c j" "\<lambda>m op. jni_allowed m op \<and> java_reads_back ratchet_inv j op"
  "jni_good ratchet_inv c" for c j
  by unfold_locales (use strict.jni_step_safe in blast)

section \<open>Properties\<close>

definition java_start :: "(nat \<Rightarrow> bool) \<Rightarrow> World \<Rightarrow> java_world" where
  "java_start ok w = \<lparr> jvm_ok = ok, jvm_pos = 0, handles = Map.empty, next_handle = 1, jworld = w \<rparr>"

lemma java_start_good: "ratchet_crypto c \<Longrightarrow> jni_good P c (java_start ok w)"
  by (simp add: jni_good_def java_start_def)



end
