(* ===== verification/Bindings.thy ===== *)
theory Bindings
  imports Ratchet_C_Safe Jni_Safe
begin

text \<open>
  The two bindings side by side: what a C caller reads from a result struct and its buffers, and
  what a Java caller reads from the returned object. On equal sessions and equal arguments both
  read the same and leave equal sessions, so a message may be encrypted through one binding and
  decrypted through the other.
\<close>

section \<open>What the callers read\<close>

definition c_reads :: "c_memory \<Rightarrow> ptr \<Rightarrow> nat \<Rightarrow> bytes option" where
  "c_reads m p len = (case optional_slice bytes_at p len m of Returned b _ \<Rightarrow> Some b | _ \<Rightarrow> None)"

definition c_message :: "c_memory \<Rightarrow> nat \<Rightarrow> (bytes \<times> bytes) option" where
  "c_message m q =
     (case encrypt_outs m q of
        None \<Rightarrow> None
      | Some er \<Rightarrow>
          if er_status er \<noteq> 0 then None
          else (case (c_reads m (er_header er) (er_header_len er), c_reads m (er_ciphertext er) (er_ciphertext_len er)) of
                  (Some eh, Some ct) \<Rightarrow> Some (eh, ct)
                | _ \<Rightarrow> None))"

definition c_plaintext :: "c_memory \<Rightarrow> nat \<Rightarrow> bytes option" where
  "c_plaintext m d =
     (case decrypt_outs m d of
        None \<Rightarrow> None
      | Some dr \<Rightarrow> if dr_status dr \<noteq> 0 then None else c_reads m (dr_plaintext dr) (dr_plaintext_len dr))"

definition java_message :: "jobject \<Rightarrow> (bytes \<times> bytes) option" where
  "java_message r =
     (case r of
        JMap es \<Rightarrow>
          (case (map_of es ''header'', map_of es ''ciphertext'') of
             (Some eh, Some ct) \<Rightarrow> Some (eh, ct)
           | _ \<Rightarrow> None)
      | _ \<Rightarrow> None)"

definition java_plaintext :: "jobject \<Rightarrow> bytes option" where
  "java_plaintext r = (case r of JBytes p \<Rightarrow> Some p | _ \<Rightarrow> None)"

text \<open>What either reads of the result of the native function.\<close>

definition sent :: "('a, 'e) result \<Rightarrow> 'a option" where
  "sent r = (case r of Ok x \<Rightarrow> Some x | _ \<Rightarrow> None)"

lemma sent_simps [simp]: "sent (Ok x) = Some x" "sent (Err e) = None" "sent Panic = None"
  by (simp_all add: sent_def)

section \<open>The C side\<close>

lemma c_reads_block: "bytes_at m a = Some b \<Longrightarrow> c_reads m (Addr a) (length b) = Some b"
  by (simp add: c_reads_def optional_slice_points [OF points_to_block])

lemma c_encrypt_reads:
  assumes "crypto_ok c" "c_inv m" "boxes m a = Some st" "encrypt_outs m q \<noteq> None"
    "points_to bytes_at m p pl pt" "points_to bytes_at m ad al adb" "encrypt c st pt adb = (r, st')"
  obtains s m1 where "ratchet_encrypt_ffi c (Addr a) p pl ad al (Addr q) m = Returned s m1"
    "c_message m1 q = sent r" "boxes m1 = (boxes m)(a \<mapsto> st')"
proof -
  note inv = c_invD(7) [OF assms(2,3)]
  note run = encrypt_ffi_run [OF assms(3) optional_slice_points [OF assms(5)] optional_slice_points [OF assms(6)] assms(7)]
  define mb where "mb = m\<lparr>boxes := (boxes m)(a \<mapsto> st')\<rparr>"
  have q: "encrypt_outs mb q \<noteq> None" using assms(4) by (simp add: mb_def)
  show thesis
  proof (cases r)
    case (Ok x)
    obtain eh ct where r: "r = Ok (eh, ct)" using Ok by (cases x) simp
    have ne: "eh \<noteq> []" "ct \<noteq> []" using encrypt_not_empty [OF assms(1) inv assms(7) [unfolded r]] by simp_all
    define er where "er = \<lparr> er_header = Addr (next_addr m), er_header_len = length eh,
                      er_ciphertext = Addr (Suc (next_addr m)), er_ciphertext_len = length ct, er_status = 0 \<rparr>"
    define m1 where "m1 = m\<lparr>boxes := (boxes m)(a \<mapsto> st'), vecs := (vecs m)(next_addr m \<mapsto> eh, Suc (next_addr m) \<mapsto> ct),
            next_addr := Suc (Suc (next_addr m)), encrypt_outs := (encrypt_outs m)(q \<mapsto> er)\<rparr>"
    have "return_message (Addr q) r mb = Returned 0 m1"
      using return_message_Ok [OF q ne] by (simp add: r m1_def mb_def er_def)
    moreover have at: "bytes_at m1 (next_addr m) = Some eh" "bytes_at m1 (Suc (next_addr m)) = Some ct"
      unfolding m1_def by (rule bytes_at_leaked [OF assms(2)])+
    then have "c_message m1 q = Some (eh, ct)"
      using c_reads_block [OF at(1)] c_reads_block [OF at(2)] by (simp add: c_message_def m1_def er_def)
    ultimately show thesis using run by (intro that [of 0 m1]) (simp_all add: mb_def r m1_def)
  next
    case (Err e)
    define m1 where "m1 = mb\<lparr>encrypt_outs := (encrypt_outs mb)(q \<mapsto> encrypt_failure e)\<rparr>"
    have "return_message (Addr q) r mb = Returned (map_error e) m1"
      using q by (simp add: Err return_message_def write_encrypt_result_def c_bind_def m1_def)
    then show thesis
      using run by (intro that [of "map_error e" m1])
        (simp_all add: mb_def Err m1_def c_message_def encrypt_failure_def map_error_nonzero)
  next
    case Panic
    then show thesis using encrypt_inv(2) [OF ratchet_crypto_ok [OF assms(1)] inv assms(7)] by simp
  qed
qed

lemma c_decrypt_reads:
  assumes "ratchet_crypto c" "c_inv m" "boxes m a = Some st" "decrypt_outs m d \<noteq> None"
    "points_to bytes_at m h hl hb" "points_to bytes_at m ct cl ctb" "points_to bytes_at m ad al adb"
    "decrypt c (c_world m) st hb ctb adb = (r, st', w)"
  obtains s m1 where "ratchet_decrypt_ffi c (Addr a) h hl ct cl ad al (Addr d) m = Returned s m1"
    "c_plaintext m1 d = sent r" "boxes m1 = (boxes m)(a \<mapsto> st')" "c_world m1 = w"
proof -
  note run = decrypt_ffi_run [OF assms(3,5) optional_slice_points [OF assms(6)] optional_slice_points [OF assms(7)] assms(8), of d]
  define mb where "mb = m\<lparr>boxes := (boxes m)(a \<mapsto> st'), c_world := w\<rparr>"
  have d: "decrypt_outs mb d \<noteq> None" using assms(4) by (simp add: mb_def)
  show thesis
  proof (cases r)
    case (Ok p)
    define m1 where "m1 = mb\<lparr>vecs := (if p = [] then vecs mb else (vecs mb)(next_addr mb \<mapsto> p)),
                  next_addr := Suc (next_addr mb),
                  decrypt_outs := (decrypt_outs mb)(d \<mapsto>
                    \<lparr> dr_plaintext = Addr (next_addr mb), dr_plaintext_len = length p, dr_status = 0 \<rparr>)\<rparr>"
    have "optional_slice bytes_at (Addr (next_addr mb)) (length p) m1 = Returned p m1"
      by (rule returned_slice [OF assms(2), where v = "vecs mb"]) (simp_all add: m1_def mb_def)
    then have "c_plaintext m1 d = Some p"
      by (simp add: c_plaintext_def c_reads_def m1_def)
    moreover have "return_plaintext (Addr d) r mb = Returned 0 m1"
      using return_plaintext_Ok [OF d, of p] by (simp add: Ok m1_def)
    ultimately show thesis using run by (intro that [of 0 m1]) (simp_all add: mb_def Ok m1_def)
  next
    case (Err e)
    define m1 where "m1 = mb\<lparr>decrypt_outs := (decrypt_outs mb)(d \<mapsto> decrypt_failure e)\<rparr>"
    have "return_plaintext (Addr d) r mb = Returned (map_error e) m1"
      using d by (simp add: Err return_plaintext_def write_decrypt_result_def c_bind_def m1_def)
    then show thesis
      using run by (intro that [of "map_error e" m1])
        (simp_all add: mb_def Err m1_def c_plaintext_def decrypt_failure_def map_error_nonzero)
  next
    case Panic
    have "r \<noteq> Panic"
      using decrypt_safe [OF assms(1) c_invD(7) [OF assms(2,3)], of "c_world m" hb ctb adb] st_safeD assms(8) by metis
    with Panic show thesis by simp
  qed
qed

section \<open>The Java side\<close>

lemma java_encrypt_reads:
  assumes "jvm_up jm" and "h \<noteq> 0" and "handles jm h = Some st" and "encrypt c st pt adb = (r, st')" and "r \<noteq> Panic"
  obtains jr jm1 where "jni_ratchetEncrypt c h (Some pt) (Some adb) jm = Returned jr jm1"
    "java_message jr = sent r" "handles jm1 = (handles jm)(h \<mapsto> st')" "jvm_up jm1" "jworld jm1 = jworld jm"
proof -
  define m2 where "m2 = jm\<lparr>jvm_pos := Suc (Suc (jvm_pos jm)), handles := (handles jm)(h \<mapsto> st')\<rparr>"
  have up: "jvm_up m2" and m2: "handles m2 = (handles jm)(h \<mapsto> st')" "jworld m2 = jworld jm"
    using assms(1) by (simp_all add: m2_def)
  have run: "jni_ratchetEncrypt c h (Some pt) (Some adb) jm =
      c_result r (\<lambda>r. case r of Ok (hdr, ciphertext) \<Rightarrow> encrypted_map hdr ciphertext | _ \<Rightarrow> c_ret JNull) m2"
    using assms(1-4)
    by (simp add: jni_ratchetEncrypt_def c_bind_def jni_session_def set_session_def unwrap_or_default_def m2_def)
  show thesis
  proof (cases r)
    case (Ok x)
    obtain eh ct where x: "x = (eh, ct)" by (cases x)
    show thesis
      by (rule that [of "JMap [(''header'', eh), (''ciphertext'', ct)]" "m2\<lparr>jvm_pos := jvm_pos m2 + 8\<rparr>"])
        (simp_all add: run Ok x encrypted_map_up [OF up] java_message_def up m2)
  next
    case (Err e)
    show thesis
      by (rule that [of JNull m2]) (simp_all add: run Err java_message_def up m2)
  qed (use assms(5) in simp)
qed

lemma java_decrypt_reads:
  assumes "jvm_up jm" and "h \<noteq> 0" and "handles jm h = Some st"
    and "decrypt c (jworld jm) st hb ctb adb = (r, st', w)" and "r \<noteq> Panic"
  obtains jr jm1 where "jni_ratchetDecrypt c h (Some hb) (Some ctb) (Some adb) jm = Returned jr jm1"
    "java_plaintext jr = sent r" "handles jm1 = (handles jm)(h \<mapsto> st')" "jworld jm1 = w"
proof -
  define m3 where "m3 = jm\<lparr>jvm_pos := Suc (Suc (Suc (jvm_pos jm))), handles := (handles jm)(h \<mapsto> st'), jworld := w\<rparr>"
  have up: "jvm_up m3" and m3: "handles m3 = (handles jm)(h \<mapsto> st')" "jworld m3 = w"
    using assms(1) by (simp_all add: m3_def)
  have run: "jni_ratchetDecrypt c h (Some hb) (Some ctb) (Some adb) jm =
      c_result r (\<lambda>r. case r of Ok p \<Rightarrow> byte_array_or_null p | _ \<Rightarrow> c_ret JNull) m3"
    using assms(1-4)
    by (simp add: jni_ratchetDecrypt_def c_bind_def jni_session_def set_session_def unwrap_or_default_def m3_def)
  show thesis
  proof (cases r)
    case (Ok p)
    show thesis
      by (rule that [of "JBytes p" "m3\<lparr>jvm_pos := Suc (jvm_pos m3)\<rparr>"])
        (simp_all add: run Ok byte_array_or_null_up [OF up] java_plaintext_def m3)
  next
    case (Err e)
    show thesis by (rule that [of JNull m3]) (simp_all add: run Err java_plaintext_def m3)
  qed (use assms(5) in simp)
qed

section \<open>Properties\<close>

text \<open>C10: The C and the Java binding agree: on equal sessions, with equal bytes as arguments, a call of
  encrypt through either gives the caller the same message or the same refusal and leaves equal
  sessions, and so does a call of decrypt in equal environments.\<close>

theorem bindings_agree:
  assumes "crypto_ok c" and "c_inv m" and "boxes m a = Some st"
    and "jvm_up jm" and "h \<noteq> 0" and "handles jm h = Some st"
    and "points_to bytes_at m p pl pt" "points_to bytes_at m ad al adb" "encrypt_outs m q \<noteq> None"
    and "points_to bytes_at m eh ehl ehb" "points_to bytes_at m ct ctl ctb" "decrypt_outs m d \<noteq> None"
    and "c_world m = jworld jm"
  shows "(\<exists>s m1 jr jm1. ratchet_encrypt_ffi c (Addr a) p pl ad al (Addr q) m = Returned s m1 \<and>
       jni_ratchetEncrypt c h (Some pt) (Some adb) jm = Returned jr jm1 \<and>
       c_message m1 q = java_message jr \<and> boxes m1 a = handles jm1 h) \<and>
    (\<exists>s m1 jr jm1. ratchet_decrypt_ffi c (Addr a) eh ehl ct ctl ad al (Addr d) m = Returned s m1 \<and>
       jni_ratchetDecrypt c h (Some ehb) (Some ctb) (Some adb) jm = Returned jr jm1 \<and>
       c_plaintext m1 d = java_plaintext jr \<and> boxes m1 a = handles jm1 h \<and> c_world m1 = jworld jm1)"
proof
  note inv = c_invD(7) [OF assms(2,3)] and rc = ratchet_crypto_ok [OF assms(1)]
  obtain r st' where enc: "encrypt c st pt adb = (r, st')" by fastforce
  obtain s m1 where c: "ratchet_encrypt_ffi c (Addr a) p pl ad al (Addr q) m = Returned s m1"
      "c_message m1 q = sent r" "boxes m1 = (boxes m)(a \<mapsto> st')"
    by (rule c_encrypt_reads [OF assms(1-3,9,7,8) enc])
  obtain jr jm1 where j: "jni_ratchetEncrypt c h (Some pt) (Some adb) jm = Returned jr jm1"
      "java_message jr = sent r" "handles jm1 = (handles jm)(h \<mapsto> st')"
    by (rule java_encrypt_reads [OF assms(4-6) enc encrypt_inv(2) [OF rc inv enc]])
  show "\<exists>s m1 jr jm1. ratchet_encrypt_ffi c (Addr a) p pl ad al (Addr q) m = Returned s m1 \<and>
       jni_ratchetEncrypt c h (Some pt) (Some adb) jm = Returned jr jm1 \<and>
       c_message m1 q = java_message jr \<and> boxes m1 a = handles jm1 h"
    by (intro exI [of _ s] exI [of _ m1] exI [of _ jr] exI [of _ jm1]) (simp add: c j)
next
  note inv = c_invD(7) [OF assms(2,3)] and rc = ratchet_crypto_ok [OF assms(1)]
  obtain r st' w where dec: "decrypt c (c_world m) st ehb ctb adb = (r, st', w)" by (metis prod_cases3)
  have "r \<noteq> Panic" using decrypt_safe [OF rc inv, of "c_world m" ehb ctb adb] st_safeD dec by metis
  then obtain jr jm1 where j: "jni_ratchetDecrypt c h (Some ehb) (Some ctb) (Some adb) jm = Returned jr jm1"
      "java_plaintext jr = sent r" "handles jm1 = (handles jm)(h \<mapsto> st')" "jworld jm1 = w"
    by (rule java_decrypt_reads [OF assms(4-6) dec [unfolded assms(13)]])
  obtain s m1 where c: "ratchet_decrypt_ffi c (Addr a) eh ehl ct ctl ad al (Addr d) m = Returned s m1"
      "c_plaintext m1 d = sent r" "boxes m1 = (boxes m)(a \<mapsto> st')" "c_world m1 = w"
    by (rule c_decrypt_reads [OF rc assms(2,3,12,10,11,8) dec])
  show "\<exists>s m1 jr jm1. ratchet_decrypt_ffi c (Addr a) eh ehl ct ctl ad al (Addr d) m = Returned s m1 \<and>
       jni_ratchetDecrypt c h (Some ehb) (Some ctb) (Some adb) jm = Returned jr jm1 \<and>
       c_plaintext m1 d = java_plaintext jr \<and> boxes m1 a = handles jm1 h \<and> c_world m1 = jworld jm1"
    by (intro exI [of _ s] exI [of _ m1] exI [of _ jr] exI [of _ jm1]) (simp add: c j)
qed

text \<open>C11: A message crosses the bindings in both directions: what a C caller reads after
  ratchet_encrypt_ffi, a Java caller at the peer's session decrypts to the plaintext, and what a
  Java caller gets from ratchetEncrypt, a C caller decrypts to the plaintext in its result
  struct, for messages within the limits of the receiving session (deliverable).\<close>

theorem message_crosses_bindings:
  assumes "crypto_ok c" and "c_inv m" and "boxes m a = Some sc" and "points_to bytes_at m ad al adb"
    and "jvm_up jm" and "h \<noteq> 0" and "handles jm h = Some sj" and "conversation c sc sj"
    and "points_to bytes_at m p pl pt" and "encrypt_outs m q \<noteq> None" and "decrypt_outs m d \<noteq> None"
  shows "(\<forall>s m1 eh ct. ratchet_encrypt_ffi c (Addr a) p pl ad al (Addr q) m = Returned s m1 \<and>
       c_message m1 q = Some (eh, ct) \<and> deliverable c sc sj eh \<longrightarrow>
       (\<exists>jm1. jni_ratchetDecrypt c h (Some eh) (Some ct) (Some adb) jm = Returned (JBytes pt) jm1)) \<and>
    (\<forall>jr jm1 eh ct hp cp. jni_ratchetEncrypt c h (Some pt) (Some adb) jm = Returned jr jm1 \<and>
       java_message jr = Some (eh, ct) \<and> deliverable c sj sc eh \<and>
       points_to bytes_at m hp (length eh) eh \<and> points_to bytes_at m cp (length ct) ct \<longrightarrow>
       (\<exists>s m1. ratchet_decrypt_ffi c (Addr a) hp (length eh) cp (length ct) ad al (Addr d) m = Returned s m1 \<and>
          c_plaintext m1 d = Some pt))"
proof (intro conjI allI impI; elim conjE)
  fix s m1 eh ct
  assume call: "ratchet_encrypt_ffi c (Addr a) p pl ad al (Addr q) m = Returned s m1"
    and msg: "c_message m1 q = Some (eh, ct)" and guard: "deliverable c sc sj eh"
  obtain r st' where enc: "encrypt c sc pt adb = (r, st')" by fastforce
  have "sent r = Some (eh, ct)"
    by (rule c_encrypt_reads [OF assms(1-3,10,9,4) enc]) (use call msg in simp)
  then have enc: "encrypt c sc pt adb = (Ok (eh, ct), st')" using enc by (simp add: sent_def split: result.splits)
  obtain sj' w where dec: "decrypt c (jworld jm) sj eh ct adb = (Ok pt, sj', w)"
    using linked_delivered [OF assms(1) conversation_linked [OF assms(8,1)] enc guard] by blast
  show "\<exists>jm1. jni_ratchetDecrypt c h (Some eh) (Some ct) (Some adb) jm = Returned (JBytes pt) jm1"
    by (rule java_decrypt_reads [OF assms(5-7) dec])
      (auto simp: java_plaintext_def split: jobject.splits)
next
  fix jr jm1 eh ct hp cp
  assume call: "jni_ratchetEncrypt c h (Some pt) (Some adb) jm = Returned jr jm1"
    and msg: "java_message jr = Some (eh, ct)" and guard: "deliverable c sj sc eh"
    and at: "points_to bytes_at m hp (length eh) eh" "points_to bytes_at m cp (length ct) ct"
  have link: "linked c sj sc" by (rule linked_sym [OF conversation_linked [OF assms(8,1)]])
  note rc = ratchet_crypto_ok [OF assms(1)]
  obtain r st' where enc: "encrypt c sj pt adb = (r, st')" by fastforce
  have "ratchet_inv sj" using linked_inv [OF link] ..
  then have "r \<noteq> Panic" by (rule encrypt_inv(2) [OF rc _ enc])
  then have "sent r = Some (eh, ct)"
    by (rule java_encrypt_reads [OF assms(5-7) enc]) (use call msg in simp)
  then have enc: "encrypt c sj pt adb = (Ok (eh, ct), st')" using enc by (simp add: sent_def split: result.splits)
  obtain sc' w where dec: "decrypt c (c_world m) sc eh ct adb = (Ok pt, sc', w)"
    using linked_delivered [OF assms(1) link enc guard] by blast
  show "\<exists>s m1. ratchet_decrypt_ffi c (Addr a) hp (length eh) cp (length ct) ad al (Addr d) m = Returned s m1 \<and>
          c_plaintext m1 d = Some pt"
    by (rule c_decrypt_reads [OF rc assms(2,3,11) at assms(4) dec]) auto
qed

text \<open>A C caller with the first party's session and a Java caller with either session.\<close>

definition demo_c :: "RatchetState \<Rightarrow> c_memory" where
  "demo_c st = (empty_memory demo_world)\<lparr>boxes := [0 \<mapsto> st], caller_blocks := [1 \<mapsto> [1, 2], 2 \<mapsto> [3]],
     encrypt_outs := [3 \<mapsto> encrypt_failure InvalidState], decrypt_outs := [4 \<mapsto> decrypt_failure InvalidState],
     next_addr := 5\<rparr>"

definition demo_java :: "RatchetState \<Rightarrow> java_world" where
  "demo_java st = (java_start (\<lambda>_. True) demo_world)\<lparr>handles := [1 \<mapsto> st], next_handle := 2\<rparr>"

lemma demo_callers:
  assumes "ratchet_inv st"
  shows "c_inv (demo_c st)" "boxes (demo_c st) 0 = Some st" "encrypt_outs (demo_c st) 3 \<noteq> None"
    "decrypt_outs (demo_c st) 4 \<noteq> None" "points_to bytes_at (demo_c st) (Addr 1) 2 [1, 2]"
    "points_to bytes_at (demo_c st) (Addr 2) 1 [3]" "c_world (demo_c st) = demo_world"
    "jvm_up (demo_java st)" "handles (demo_java st) 1 = Some st" "jworld (demo_java st) = demo_world"
  using assms
  by (simp_all add: demo_c_def demo_java_def empty_memory_def c_inv_of_def below_def points_to_def bytes_at_def
      jvm_up_def java_start_def split: if_splits)

theorem bindings_agree_witness:
  "\<exists>m jm s m1 jr jm1. ratchet_encrypt_ffi reference_crypto (Addr 0) (Addr 1) 2 (Addr 2) 1 (Addr 3) m = Returned s m1 \<and>
     jni_ratchetEncrypt reference_crypto 1 (Some [1, 2]) (Some [3]) jm = Returned jr jm1 \<and>
     c_message m1 3 = java_message jr \<and> boxes m1 0 = handles jm1 1"
proof -
  obtain a b eh ct a' where conv: "conversation reference_crypto a b"
    and enc: "encrypt reference_crypto a [1, 2] [3] = (Ok (eh, ct), a')" and del: "deliverable reference_crypto a b eh"
    by (rule demo_conversation)
  have inv: "ratchet_inv a" using linked_inv conversation_linked [OF conv reference_crypto_ok] by blast
  note d = demo_callers [OF inv]
  have "c_world (demo_c a) = jworld (demo_java a)" using d(7,10) by simp
  from bindings_agree [OF reference_crypto_ok d(1,2,8) _ d(9) d(5,6,3) d(6,6,4) this, THEN conjunct1]
  show ?thesis by (intro exI [of _ "demo_c a"] exI [of _ "demo_java a"]) simp
qed

theorem message_crosses_bindings_witness:
  "\<exists>m jm s m1 eh ct jm1. ratchet_encrypt_ffi reference_crypto (Addr 0) (Addr 1) 2 (Addr 2) 1 (Addr 3) m = Returned s m1 \<and>
     c_message m1 3 = Some (eh, ct) \<and>
     jni_ratchetDecrypt reference_crypto 1 (Some eh) (Some ct) (Some [3]) jm = Returned (JBytes [1, 2]) jm1"
proof -
  obtain a b eh ct a' where conv: "conversation reference_crypto a b"
    and enc: "encrypt reference_crypto a [1, 2] [3] = (Ok (eh, ct), a')" and del: "deliverable reference_crypto a b eh"
    by (rule demo_conversation)
  have inv: "ratchet_inv a" "ratchet_inv b"
    using linked_inv conversation_linked [OF conv reference_crypto_ok] by blast+
  note c = demo_callers [OF inv(1)] and j = demo_callers [OF inv(2)]
  obtain s m1 where call: "ratchet_encrypt_ffi reference_crypto (Addr 0) (Addr 1) 2 (Addr 2) 1 (Addr 3) (demo_c a) = Returned s m1"
      "c_message m1 3 = sent (Ok (eh, ct) :: (bytes \<times> bytes, RatchetError) result)"
    by (rule c_encrypt_reads [OF reference_crypto_ok c(1,2,3,5,6) enc])
  from message_crosses_bindings [OF reference_crypto_ok c(1,2,6) j(8) _ j(9) conv c(5,3,4)] call del
  have "\<exists>jm1. jni_ratchetDecrypt reference_crypto 1 (Some eh) (Some ct) (Some [3]) (demo_java b) = Returned (JBytes [1, 2]) jm1"
    by simp
  moreover have "c_message m1 3 = Some (eh, ct)" using call(2) by simp
  ultimately show ?thesis using call(1) by blast
qed

end
