(* ===== verification/Decrypt_Work.thy ===== *)
theory Decrypt_Work
  imports Delivery
begin

text \<open>
  What one call of \<^verbatim>\<open>decrypt\<close> can cost, whatever message it is given: the clock readings count
  the message keys derived into the store of skipped keys, the random bytes the new key pairs.
\<close>

definition spends :: "nat \<Rightarrow> nat \<Rightarrow> World \<Rightarrow> ('a, 'e) result \<times> 's \<times> World \<Rightarrow> bool" where
  "spends k j w r \<longleftrightarrow> (case r of (_, _, w') \<Rightarrow> ticks w' \<le> ticks w + k \<and> rand_pos w' \<le> rand_pos w + j)"

lemma spends_simps [simp]:
  "spends k j w (x, s, w') \<longleftrightarrow> ticks w' \<le> ticks w + k \<and> rand_pos w' \<le> rand_pos w + j"
  by (simp add: spends_def)

lemma spends_bind:
  assumes "spends k j w r" and "\<And>a s w'. spends k' j' w' (f a s w')"
  shows "spends (k + k') (j + j') w (bind_st r f)"
proof -
  obtain x s w' where r: "r = (x, s, w')" by (cases r)
  show ?thesis
  proof (cases x)
    case (Ok a)
    obtain y s2 w2 where "f a s w' = (y, s2, w2)" by (cases "f a s w'")
    then show ?thesis using assms(1) assms(2) [of w' a s] by (simp add: r Ok)
  qed (use assms(1) in \<open>simp_all add: r\<close>)
qed

lemma skip_loop_cost:
  "snd (skip_loop c hk target current ck m w) = w\<lparr>ticks := ticks w + (unat target - unat current)\<rparr>"
proof (induction current ck m w rule: skip_loop_induct [where target = target and c = c and hk = hk])
  case (finish current ck m w)
  then show ?case by (simp add: skip_loop_done word_less_nat_alt)
next
  case (step current ck m w next_ck m' w')
  have "unat current < unat target" using step(1) by (simp add: word_less_nat_alt)
  then show ?case
    using step(3,4) by (simp add: skip_loop_step [OF step(1,2)] store_skipped_world [OF step(2)])
qed

lemma skip_message_keys_cost:
  "ticks (snd (skip_message_keys c w m ck hk from_n target)) \<le> ticks w + 1000 \<and>
   rand_pos (snd (skip_message_keys c w m ck hk from_n target)) = rand_pos w"
proof (cases "from_n \<le> target \<and> target - from_n \<le> MAX_SKIP")
  case True
  then have "unat target - unat from_n \<le> 1000"
    by (auto simp: MAX_SKIP_def word_le_nat_alt unat_sub_if' split: if_splits)
  with True show ?thesis by (simp add: skip_message_keys_def skip_loop_cost)
qed (auto simp: skip_message_keys_def Let_def not_le)

lemma store_chain_gap_cost: "spends 1000 0 w (store_chain_gap c target st w)"
proof (cases "ck_r st = None \<or> hk_r st = None")
  case False
  then obtain ck hk where keys: "ck_r st = Some ck" "hk_r st = Some hk" by auto
  obtain r w' where run: "skip_message_keys c w (mkskipped st) ck hk (nr st) target = (r, w')" by fastforce
  have "ticks w' \<le> ticks w + 1000" "rand_pos w' = rand_pos w"
    using skip_message_keys_cost [of c w "mkskipped st" ck hk "nr st" target] by (simp_all add: run)
  then show ?thesis by (cases r) (simp_all add: store_chain_gap_def keys run)
qed (auto simp: store_chain_gap_def split: option.split)

lemma perform_dh_ratchet_cost: "spends 0 32 w (perform_dh_ratchet c pub st w)"
  by (auto simp: perform_dh_ratchet_def Let_def os_rng_fill_def split: result.split)

lemma advance_receiving_cost: "spends 0 0 w (advance_receiving c st w)"
  by (auto simp: advance_receiving_def Let_def split: option.split)

lemma track_received_cost: "spends 0 0 w (track_received i p st w)"
  by (simp add: track_received_def)

lemma commit_cost: "spends 2000 32 w (commit_state_changes c h dh_ratchet st w)"
proof -
  have "spends (1000 + 0) (0 + 32) w (bind_st (store_chain_gap c (hdr_pn h) st w) (\<lambda>_. perform_dh_ratchet c (dh_pub h)))"
    by (intro spends_bind store_chain_gap_cost perform_dh_ratchet_cost)
  then have "spends (1000 + (1000 + 0)) (32 + (0 + 0)) w (commit_state_changes c h dh_ratchet st w)"
    unfolding commit_state_changes_def
    by (intro spends_bind store_chain_gap_cost advance_receiving_cost) simp
  then show ?thesis by simp
qed

lemma decrypt_with_ratchet_cost: "spends 2000 32 w (decrypt_with_ratchet c w st eh ct ad)"
proof -
  have commit: "spends (2000 + 0) (32 + 0) w' (bind_st (commit_state_changes c h b s w') (\<lambda>_. track_received i p))" for h b s i p w'
    by (intro spends_bind commit_cost track_received_cost)
  have "spends (0 + 2000) (0 + 32) w' (bind_st (x, s, w')
      (\<lambda>p s w. bind_st (commit_state_changes c h b s w) (\<lambda>_. track_received i p)))" for x s h b i and w' :: World
    by (rule spends_bind) (use commit in simp_all)
  then have body: "spends 2000 32 w' (if i |\<in>| received_messages s then (Err DuplicateMessage, s, w')
      else bind_st (x, s, w') (\<lambda>p s w. bind_st (commit_state_changes c h b s w) (\<lambda>_. track_received i p)))"
    for x s h b i and w' :: World by simp
  have "spends (0 + 2000) (0 + 32) w (decrypt_with_ratchet c w st eh ct ad)"
    unfolding decrypt_with_ratchet_def
    by (rule spends_bind) (auto simp: Let_def body simp del: if_split split: prod.split)
  then show ?thesis by simp
qed

section \<open>Properties\<close>

text \<open>C25: However large the counters of its header, no message makes a call of decrypt derive more than
  2000 skipped keys or draw more than 32 random bytes, and the chain is stepped at most 1000
  times before the message is authenticated.\<close>

theorem decrypt_work_bounded:
  "spends 2000 32 w (decrypt c w st eh ct ad) \<and>
   (compute_message_key c st h dh_ratchet = Ok mk \<longrightarrow>
      (\<exists>ck k. (if dh_ratchet
               then \<exists>root nhk. kdf_rk_he c (rk st) (x25519_dh c (fst (dh_pair st)) (dh_pub h)) = Ok (root, ck, nhk)
               else ck_r st = Some ck) \<and>
         k \<le> 1000 \<and> mk = snd (kdf_ck c (((\<lambda>x. fst (kdf_ck c x)) ^^ k) ck))))"
proof
  show "spends 2000 32 w (decrypt c w st eh ct ad)"
    using decrypt_with_ratchet_cost
    by (auto simp: decrypt_def Let_def spends_def split: result.split option.split prod.split)
next
  have "unat (hdr_n h) - unat n \<le> 1000" if "\<not> n + MAX_SKIP < hdr_n h" for n :: u32
  proof -
    have "unat (hdr_n h) \<le> unat (n + MAX_SKIP)" using that by (simp add: not_less word_le_nat_alt)
    also have "\<dots> \<le> unat n + 1000" by (simp add: MAX_SKIP_def unat_word_ariths)
    finally show ?thesis by simp
  qed
  then show "compute_message_key c st h dh_ratchet = Ok mk \<longrightarrow>
      (\<exists>ck k. (if dh_ratchet
               then \<exists>root nhk. kdf_rk_he c (rk st) (x25519_dh c (fst (dh_pair st)) (dh_pub h)) = Ok (root, ck, nhk)
               else ck_r st = Some ck) \<and>
         k \<le> 1000 \<and> mk = snd (kdf_ck c (((\<lambda>x. fst (kdf_ck c x)) ^^ k) ck)))"
    by (cases dh_ratchet)
      (auto simp: compute_message_key_def advance_chain_eq chain_key_def split: if_splits prod.splits)
qed

theorem decrypt_work_bounded_witness:
  "\<exists>k. k \<le> (1000 :: nat) \<and>
     compute_message_key reference_crypto (demo_state 0 {||}) \<lparr> dh_pub = replicate 32 1, hdr_pn = 0, hdr_n = 2 \<rparr> False =
       Ok (snd (kdf_ck reference_crypto (((\<lambda>x. fst (kdf_ck reference_crypto x)) ^^ k) (replicate 32 10))))"
proof -
  let ?h = "\<lparr> dh_pub = replicate 32 1, hdr_pn = 0, hdr_n = 2 \<rparr>"
  obtain mk where mk: "compute_message_key reference_crypto (demo_state 0 {||}) ?h False = Ok mk"
    by (simp add: compute_message_key_def demo_state_def MAX_SKIP_def)
  from decrypt_work_bounded [of demo_world reference_crypto "demo_state 0 {||}" "[]" "[]" "[]" ?h False mk] mk
  show ?thesis by (auto simp: demo_state_def)
qed

end
