(* ===== verification/Progress.thy ===== *)
theory Progress
  imports Conversation
begin

text \<open>
  Conversations do not get stuck: one of the two parties can always send, whatever was lost,
  and a party that received a message can answer it. Only a message counter at its maximum
  stops a party.
\<close>

definition counters_left :: "RatchetState \<Rightarrow> bool" where
  "counters_left st \<longleftrightarrow> Suc (unat (ns st)) < 2 ^ 32 \<and> Suc (unat (header_nonce_counter st)) < 2 ^ 64"

lemma can_send:
  assumes "crypto_ok c" and "ratchet_inv st" and "ck_s st \<noteq> None" and "length ad \<le> MAX_AD_SIZE" and "counters_left st"
  obtains eh ct st' where "encrypt c st p ad = (Ok (eh, ct), st')"
proof -
  obtain ck where "ck_s st = Some ck" using assms(3) by blast
  from encrypt_succeeds [OF assms(1,2) this assms(4), of p] assms(5) that
  show thesis by (auto simp: counters_left_def)
qed

lemma leader_can_send: "lead c x y \<Longrightarrow> ck_s x \<noteq> None"
  by (auto simp: lead_def)

text \<open>Counters restart or stay when a message is received.\<close>

lemma counters_left_received:
  assumes "decrypt c w st eh ct ad = (r, st', w')" and "counters_left st"
  shows "counters_left st'"
  using decrypt_counters [OF assms(1)] assms(2) by (auto simp: counters_left_def)

text \<open>The receiver of a message has a sending chain afterwards: it had one, or a DH ratchet gave it one.\<close>

lemma received_can_answer:
  assumes ok: "crypto_ok c" and link: "linked c a b" and enc: "encrypt c a p ad = (Ok (eh, ct), a')"
    and guard: "deliverable c a b eh"
  obtains b' w' where "decrypt c w b eh ct ad = (Ok p, b', w')" "linked c a' b'" "ck_s b' \<noteq> None"
proof -
  from link consider "lead c b a" | "lead c a b" by (auto simp: linked_def)
  then show thesis
  proof cases
    case 1
    then obtain b' w' where "decrypt c w b eh ct ad = (Ok p, b', w')" "lead c b' a'"
      by (rule delivered_in_chain [OF ok _ enc guard])
    then show thesis using that [of b' w'] leader_can_send [of c b' a'] by (simp add: linked_def)
  next
    case 2
    then obtain b' w' where "decrypt c w b eh ct ad = (Ok p, b', w')" "lead c b' a'"
      by (rule delivered_with_ratchet [OF ok _ enc guard])
    then show thesis using that [of b' w'] leader_can_send [of c b' a'] by (simp add: linked_def)
  qed
qed

section \<open>Properties\<close>

text \<open>C2: Conversations make progress while the counters of the parties are not used up: after any
  history one of the two parties can encrypt (with associated data of at most 64 KiB), and when a message within the limits of its receiver
  (deliverable) is delivered, its receiver can encrypt an answer at once. The answer decrypts at
  the sender to its plaintext if it is within the limits there in turn; after a loss of more than
  1000 messages of the chain the answering party sent before, it is not, and nothing is claimed
  for it.\<close>

theorem conversation_live:
  assumes "crypto_ok c" and "conversation c a b" and "length ad \<le> MAX_AD_SIZE"
    and "counters_left a" and "counters_left b"
  shows "(is_ok (fst (encrypt c a p ad)) \<or> is_ok (fst (encrypt c b p ad))) \<and>
    (\<forall>eh ct a' w. encrypt c a p ad = (Ok (eh, ct), a') \<and> deliverable c a b eh \<longrightarrow>
       (\<exists>b' w' eh' ct' b''. decrypt c w b eh ct ad = (Ok p, b', w') \<and>
          encrypt c b' q ad = (Ok (eh', ct'), b'') \<and>
          (deliverable c b' a' eh' \<longrightarrow> (\<exists>a'' w''. decrypt c w' a' eh' ct' ad = (Ok q, a'', w'')))))"
proof
  have link: "linked c a b" by (rule conversation_linked [OF assms(2,1)])
  note inv = linked_inv [OF link]
  from link consider "ck_s a \<noteq> None" | "ck_s b \<noteq> None"
    unfolding linked_def using leader_can_send by blast
  then show "is_ok (fst (encrypt c a p ad)) \<or> is_ok (fst (encrypt c b p ad))"
  proof cases
    case 1
    from inv have "ratchet_inv a" ..
    from can_send [OF assms(1) this 1 assms(3,4), of p] show ?thesis by (metis fst_conv is_ok.simps(1))
  next
    case 2
    from inv have "ratchet_inv b" ..
    from can_send [OF assms(1) this 2 assms(3,5), of p] show ?thesis by (metis fst_conv is_ok.simps(1))
  qed
  show "\<forall>eh ct a' w. encrypt c a p ad = (Ok (eh, ct), a') \<and> deliverable c a b eh \<longrightarrow>
       (\<exists>b' w' eh' ct' b''. decrypt c w b eh ct ad = (Ok p, b', w') \<and>
          encrypt c b' q ad = (Ok (eh', ct'), b'') \<and>
          (deliverable c b' a' eh' \<longrightarrow> (\<exists>a'' w''. decrypt c w' a' eh' ct' ad = (Ok q, a'', w''))))"
  proof (intro allI impI, elim conjE)
    fix eh ct a' w
    assume enc: "encrypt c a p ad = (Ok (eh, ct), a')" and guard: "deliverable c a b eh"
    obtain b' w' where dec: "decrypt c w b eh ct ad = (Ok p, b', w')" and link': "linked c a' b'" and ck: "ck_s b' \<noteq> None"
      by (rule received_can_answer [OF assms(1) link enc guard])
    have "ratchet_inv b'" using linked_inv [OF link'] ..
    then obtain eh' ct' b'' where enc': "encrypt c b' q ad = (Ok (eh', ct'), b'')"
      using can_send [OF assms(1) _ ck assms(3) counters_left_received [OF dec assms(5)]] by blast
    have "deliverable c b' a' eh' \<Longrightarrow> \<exists>a'' w''. decrypt c w' a' eh' ct' ad = (Ok q, a'', w'')"
      using linked_delivered [OF assms(1) linked_sym [OF link'] enc'] by blast
    with dec enc' show "\<exists>b' w' eh' ct' b''. decrypt c w b eh ct ad = (Ok p, b', w') \<and>
          encrypt c b' q ad = (Ok (eh', ct'), b'') \<and>
          (deliverable c b' a' eh' \<longrightarrow> (\<exists>a'' w''. decrypt c w' a' eh' ct' ad = (Ok q, a'', w'')))" by blast
  qed
qed

theorem conversation_live_witness:
  "\<exists>a w b eh ct a' b' w' eh' ct' b''.
     init_sender_state reference_crypto demo_world (replicate 32 7) (replicate 32 5) = (Ok a, w) \<and>
     init_receiver_state reference_crypto (replicate 32 7) (replicate 32 5, replicate 32 5) = Ok b \<and>
     encrypt reference_crypto a [1, 2] [3] = (Ok (eh, ct), a') \<and>
     decrypt reference_crypto w b eh ct [3] = (Ok [1, 2], b', w') \<and>
     encrypt reference_crypto b' [4] [3] = (Ok (eh', ct'), b'')"
proof -
  obtain a w b eh ct a' where
    a: "init_sender_state reference_crypto demo_world (replicate 32 7) (replicate 32 5) = (Ok a, w)"
    and b: "init_receiver_state reference_crypto (replicate 32 7) (replicate 32 5, replicate 32 5) = Ok b"
    and conv: "conversation reference_crypto a b" and enc: "encrypt reference_crypto a [1, 2] [3] = (Ok (eh, ct), a')"
    and guard: "deliverable reference_crypto a b eh"
    by (rule demo_conversation)
  have "counters_left a" "counters_left b" "length [3 :: u8] \<le> MAX_AD_SIZE"
    using a b by (auto simp: counters_left_def init_sender_state_def init_receiver_state_def MAX_AD_SIZE_def Let_def split: prod.splits)
  from conversation_live [OF reference_crypto_ok conv this(3,1,2), of "[1, 2]" "[4]"] a b enc guard
  show ?thesis by blast
qed

end
