(* ===== verification/Tampering.thy ===== *)
theory Tampering
  imports Conversation
begin

text \<open>
  What an altered message does to a conversation: nothing. Decryption derives the key of the
  message the header announces without touching the state, and the MAC decides.
\<close>

section \<open>The MAC of a ciphertext\<close>

definition authentic :: "crypto \<Rightarrow> bytes \<Rightarrow> bytes \<Rightarrow> bytes \<Rightarrow> bool" where
  "authentic c mk ct ad \<longleftrightarrow>
     48 \<le> length ct \<and>
     (case expand_message_key c mk of
        Ok (_, auth_key, _) \<Rightarrow> drop (length ct - 32) ct = hmac_sha256 c auth_key (ad @ take (length ct - 32) ct)
      | _ \<Rightarrow> False)"

lemma not_authentic:
  assumes "hkdf_total c" and "\<not> authentic c mk ct ad"
  shows "decrypt_aead c mk ct ad = Err DecryptionFailed"
proof -
  obtain e k i where "expand_message_key c mk = Ok (e, k, i)" using expand_message_key_total [OF assms(1)] by blast
  then show ?thesis using assms(2) by (auto simp: decrypt_aead_def authentic_def Let_def)
qed

section \<open>The message a header announces\<close>

text \<open>
  Whatever arrives with the header of the next message, the receiver finds nothing in its store
  and derives the key of that message from its own state.
\<close>

lemma announced:
  assumes ok: "crypto_ok c" and link: "linked c a b" and enc: "encrypt c a p ad = (Ok (eh, ct), a')"
    and guard: "deliverable c a b eh" and ck: "ck_s a = Some ck"
  obtains dh where "\<forall>ct k q. \<not> entry_opens c (mkskipped b) eh ct (concat_ad ad eh) k q"
    "decrypt_header c b eh = Ok (next_header a, dh)"
    "(dh_pub (next_header a), hdr_n (next_header a)) |\<notin>| received_messages b"
    "compute_message_key c b (next_header a) dh = Ok (message_key c 0 ck)"
proof -
  from link consider "lead c b a" | "lead c a b" by (auto simp: linked_def)
  then show thesis
  proof cases
    case 1
    show thesis
      by (rule next_in_chain [OF ok 1 enc guard])
        (rule that [of False], use ck in \<open>simp_all add: decrypt_header_def compute_message_key_chain message_key_shift\<close>)
  next
    case 2
    show thesis
      by (rule next_by_ratchet [OF ok 2 enc guard])
        (rule that [of True], use ck in \<open>auto simp: decrypt_header_def Let_def compute_message_key_ratchet message_key_shift
           split: option.split result.split\<close>)
  qed
qed

text \<open>So a forged ciphertext is refused by its MAC, and the session is as before.\<close>

lemma forged_refused:
  assumes ok: "crypto_ok c" and link: "linked c a b" and enc: "encrypt c a p ad = (Ok (eh, ct), a')"
    and guard: "deliverable c a b eh" and ck: "ck_s a = Some ck"
    and forged: "\<not> authentic c (message_key c 0 ck) ct' (concat_ad ad eh)"
  shows "decrypt c w b eh ct' ad = (Err DecryptionFailed, b, w)"
proof -
  note rc = ratchet_crypto_ok [OF ok]
  obtain dh where store: "\<forall>ct k q. \<not> entry_opens c (mkskipped b) eh ct (concat_ad ad eh) k q"
    and hdr: "decrypt_header c b eh = Ok (next_header a, dh)"
    and new: "(dh_pub (next_header a), hdr_n (next_header a)) |\<notin>| received_messages b"
    and key: "compute_message_key c b (next_header a) dh = Ok (message_key c 0 ck)"
    by (rule announced [OF ok link enc guard ck])
  have "length ad \<le> MAX_AD_SIZE" using enc by (rule encrypt_OkD)
  then show ?thesis
    using try_skipped_miss [OF ratchet_cryptoD(2) [OF rc] store [rule_format]] hdr new key
      not_authentic [OF ratchet_cryptoD(2) [OF rc] forged]
    by (simp add: decrypt_def decrypt_with_ratchet_def Let_def)
qed

section \<open>Properties\<close>

text \<open>C5: Tampering does no harm: a message within the limits of its receiver (deliverable) whose
  ciphertext was altered, so that its MAC does not match, is refused as a failed decryption and
  changes neither the session nor the environment, also when it would have caused a DH ratchet;
  the genuine message still decrypts afterwards.\<close>

theorem tampering_harmless:
  assumes "crypto_ok c" and "conversation c a b" and "encrypt c a p ad = (Ok (eh, ct), a')"
    and "deliverable c a b eh" and "ck_s a = Some ck"
    and "\<not> authentic c (message_key c 0 ck) ct' (concat_ad ad eh)"
    and "decrypt c w b eh ct' ad = (r, b1, w1)"
  shows "r = Err DecryptionFailed \<and> b1 = b \<and> w1 = w \<and>
    (\<exists>b2 w2. decrypt c w1 b1 eh ct ad = (Ok p, b2, w2))"
proof -
  have link: "linked c a b" by (rule conversation_linked [OF assms(2,1)])
  have "r = Err DecryptionFailed" "b1 = b" "w1 = w"
    using forged_refused [OF assms(1) link assms(3-6), of w] assms(7) by simp_all
  moreover have "\<exists>b2 w2. decrypt c w b eh ct ad = (Ok p, b2, w2)"
    using linked_delivered [OF assms(1) link assms(3,4)] by blast
  ultimately show ?thesis by simp
qed

theorem tampering_harmless_witness:
  "\<exists>a b eh ct a' b2 w2. encrypt reference_crypto a [1, 2] [3] = (Ok (eh, ct), a') \<and>
     decrypt reference_crypto demo_world b eh (replicate 10 0) [3] = (Err DecryptionFailed, b, demo_world) \<and>
     decrypt reference_crypto demo_world b eh ct [3] = (Ok [1, 2], b2, w2)"
proof -
  obtain a b eh ct a' where conv: "conversation reference_crypto a b"
    and enc: "encrypt reference_crypto a [1, 2] [3] = (Ok (eh, ct), a')" and guard: "deliverable reference_crypto a b eh"
    by (rule demo_conversation)
  obtain ck where ck: "ck_s a = Some ck" using enc by (rule encrypt_OkD)
  obtain r b1 w1 where dec: "decrypt reference_crypto demo_world b eh (replicate 10 0) [3] = (r, b1, w1)"
    by (metis prod_cases3)
  have "\<not> authentic reference_crypto (message_key reference_crypto 0 ck) (replicate 10 0) (concat_ad [3] eh)"
    by (simp add: authentic_def)
  from tampering_harmless [OF reference_crypto_ok conv enc guard ck this dec] enc dec show ?thesis by blast
qed

end
