(* ===== verification/Unit_Tests.thy ===== *)
theory Unit_Tests
  imports Chain_Delivery Progress Tampering X3dh
begin

text \<open>
  The unit tests at the end of \<^verbatim>\<open>src/ratchet.rs\<close> and \<^verbatim>\<open>src/x3dh.rs\<close>, translated as functions of
  the primitives and the environment: a test returns \<open>Ok ()\<close> when it passes, and a failed
  \<^verbatim>\<open>unwrap\<close>, \<^verbatim>\<open>expect\<close> or \<^verbatim>\<open>assert!\<close> is a panic. Run by \<^verbatim>\<open>cargo\<close> they sample one random
  execution; here they are shown to pass for all lawful primitives and all randomness.
\<close>

section \<open>Panics of a test\<close>

primrec unwrap :: "('a, 'e) result \<Rightarrow> ('a, 'f) result" where
  "unwrap (Ok a) = Ok a"
| "unwrap (Err e) = Panic"
| "unwrap Panic = Panic"

definition assert_that :: "bool \<Rightarrow> (unit, 'e) result" where
  "assert_that b = (if b then Ok () else Panic)"

type_synonym test = "(unit, unit) result"

section \<open>The tests of the ratchet\<close>

text \<open>The lines every test of \<^verbatim>\<open>ratchet.rs\<close> starts with: a key pair and the two sessions.\<close>

definition ratchet_pair :: "crypto \<Rightarrow> World \<Rightarrow> bytes \<Rightarrow> (RatchetState \<times> RatchetState, unit) result \<times> World" where
  "ratchet_pair c w sk =
     (let (receiver_dh_private, w1) = os_rng_fill 32 w;
          receiver_dh_public = x25519_base c receiver_dh_private;
          (s, w2) = init_sender_state c w1 sk receiver_dh_public
      in (and_then (unwrap s) (\<lambda>sender.
          and_then (unwrap (init_receiver_state c sk (receiver_dh_private, receiver_dh_public))) (\<lambda>receiver.
            Ok (sender, receiver))), w2))"

definition test_ratchet_basic_flow :: "crypto \<Rightarrow> World \<Rightarrow> test" where
  "test_ratchet_basic_flow c w0 =
     (let (pair, w) = ratchet_pair c w0 (replicate 32 0x55)
      in and_then pair (\<lambda>(sender, receiver).
         let msg1 = ascii ''Hello Receiver!'';
             ad1 = ascii ''Metadata'';
             (r1, sender1) = encrypt c sender msg1 ad1
         in and_then (unwrap r1) (\<lambda>(enc_header1, cipher1).
         let (d1, receiver1, w1) = decrypt c w receiver enc_header1 cipher1 ad1
         in and_then (unwrap d1) (\<lambda>decrypted1.
            and_then (assert_that (decrypted1 = msg1)) (\<lambda>_.
         let msg2 = ascii ''Hello Sender!'';
             (r2, receiver2) = encrypt c receiver1 msg2 []
         in and_then (unwrap r2) (\<lambda>(enc_header2, cipher2).
         let (d2, sender2, w2) = decrypt c w1 sender1 enc_header2 cipher2 []
         in and_then (unwrap d2) (\<lambda>decrypted2. assert_that (decrypted2 = msg2))))))))"

definition test_out_of_order_messages :: "crypto \<Rightarrow> World \<Rightarrow> test" where
  "test_out_of_order_messages c w0 =
     (let (pair, w) = ratchet_pair c w0 (replicate 32 0x66)
      in and_then pair (\<lambda>(sender, receiver).
         let (r1, sender1) = encrypt c sender (ascii ''Message 1'') [] in and_then (unwrap r1) (\<lambda>(h1, c1).
         let (r2, sender2) = encrypt c sender1 (ascii ''Message 2'') [] in and_then (unwrap r2) (\<lambda>(h2, c2).
         let (r3, sender3) = encrypt c sender2 (ascii ''Message 3'') [] in and_then (unwrap r3) (\<lambda>(h3, c3).
         let (d1, receiver1, w1) = decrypt c w receiver h1 c1 [] in and_then (unwrap d1) (\<lambda>p1.
         and_then (assert_that (p1 = ascii ''Message 1'')) (\<lambda>_.
         let (d3, receiver2, w2) = decrypt c w1 receiver1 h3 c3 [] in and_then (unwrap d3) (\<lambda>p3.
         and_then (assert_that (p3 = ascii ''Message 3'')) (\<lambda>_.
         let (d2, receiver3, w3) = decrypt c w2 receiver2 h2 c2 [] in and_then (unwrap d2) (\<lambda>p2.
         assert_that (p2 = ascii ''Message 2'')))))))))))"

definition test_max_skip_exceeded :: "crypto \<Rightarrow> World \<Rightarrow> test" where
  "test_max_skip_exceeded c w0 =
     (let (pair, w) = ratchet_pair c w0 (replicate 32 0x88)
      in and_then pair (\<lambda>(sender, receiver).
         let (r1, sender1) = encrypt c sender (ascii ''Message 1'') [] in and_then (unwrap r1) (\<lambda>(h1, c1).
         let (d1, receiver1, w1) = decrypt c w receiver h1 c1 [] in and_then (unwrap d1) (\<lambda>_.
         let (skipped, sender2) = send_all c sender1 (replicate (unat (MAX_SKIP + 2)) (ascii ''Skip me'', []))
         in and_then (unwrap skipped) (\<lambda>_.
         let (rf, sender3) = encrypt c sender2 (ascii ''Final'') [] in and_then (unwrap rf) (\<lambda>(h_final, c_final).
         let (err, receiver2, w2) = decrypt c w1 receiver1 h_final c_final []
         in assert_that (err = Err OldMessageKeysLimitReached)))))))"

definition flip_first :: "bytes \<Rightarrow> bytes" where
  "flip_first cipher = (if cipher \<noteq> [] then cipher[0 := cipher ! 0 XOR 0xFF] else cipher)"

definition test_tampered_ciphertext :: "crypto \<Rightarrow> World \<Rightarrow> test" where
  "test_tampered_ciphertext c w0 =
     (let (pair, w) = ratchet_pair c w0 (replicate 32 0x77)
      in and_then pair (\<lambda>(sender, receiver).
         let (r1, sender1) = encrypt c sender (ascii ''Tampered'') [] in and_then (unwrap r1) (\<lambda>(enc_header, cipher).
         let (err, receiver1, w1) = decrypt c w receiver enc_header (flip_first cipher) []
         in assert_that (err = Err DecryptionFailed))))"

definition test_serialization_roundtrip :: "crypto \<Rightarrow> json_codec \<Rightarrow> World \<Rightarrow> test" where
  "test_serialization_roundtrip c j w0 =
     (let (pair, w) = ratchet_pair c w0 (replicate 32 0x99)
      in and_then pair (\<lambda>(sender, receiver).
         let (r1, sender1) = encrypt c sender (ascii ''Msg1'') [] in and_then (unwrap r1) (\<lambda>(h1, c1).
         let (d1, receiver1, w1) = decrypt c w receiver h1 c1 [] in and_then (unwrap d1) (\<lambda>_.
         and_then (expect (state_to_json j w1 sender1)) (\<lambda>json.
         and_then (expect (state_from_json j json)) (\<lambda>restored_sender.
         let (r2, sender2) = encrypt c restored_sender (ascii ''Msg2'') [] in and_then (unwrap r2) (\<lambda>(h2, c2).
         let (d2, receiver2, w2) = decrypt c w1 receiver1 h2 c2 [] in and_then (unwrap d2) (\<lambda>p2.
         and_then (assert_that (p2 = ascii ''Msg2'')) (\<lambda>_.
         let (r3, sender3) = encrypt c sender2 (ascii ''Msg3'') [] in and_then (unwrap r3) (\<lambda>(h3, c3).
         let (r4, sender4) = encrypt c sender3 (ascii ''Msg4'') [] in and_then (unwrap r4) (\<lambda>(h4, c4).
         let (d4, receiver3, w3) = decrypt c w2 receiver2 h4 c4 [] in and_then (unwrap d4) (\<lambda>p4.
         and_then (assert_that (p4 = ascii ''Msg4'')) (\<lambda>_.
         and_then (expect (state_to_json j w3 receiver3)) (\<lambda>rec_json.
         and_then (expect (state_from_json j rec_json)) (\<lambda>restored_receiver.
         let (d3, receiver4, w4) = decrypt c w3 restored_receiver h3 c3 [] in and_then (unwrap d3) (\<lambda>p3.
         assert_that (p3 = ascii ''Msg3'')))))))))))))))))"

section \<open>The tests of the key agreement\<close>

definition test_x3dh_native_api :: "crypto \<Rightarrow> ('p, 's) curve \<Rightarrow> World \<Rightarrow> test" where
  "test_x3dh_native_api c e w0 =
     (let (bob_identity, w1) = gen_keypair c w0;
          bob_identity_public = public bob_identity;
          (bob_spk, w2) = gen_keypair c w1;
          bob_spk_public = public bob_spk;
          (sg, w3) = vxeddsa_sign c e w2 (secret bob_identity) bob_spk_public
      in and_then (unwrap sg) (\<lambda>sig_output.
         let bndl = \<lparr> identity_key = bob_identity_public,
                      signed_prekey = \<lparr> spk_id = 1, spk_public_key = bob_spk_public, spk_signature = signature sig_output \<rparr>,
                      one_time_prekey = None \<rparr>;
             (alice_identity, w4) = gen_keypair c w3;
             alice_identity_public = public alice_identity;
             (alice, w5) = x3dh_initiator c e w4 (secret alice_identity) bndl
         in and_then (unwrap alice) (\<lambda>alice_result.
            and_then (unwrap (x3dh_responder c e (secret bob_identity) (secret bob_spk) None alice_identity_public
                                (ephemeral_public alice_result))) (\<lambda>bob_result.
            assert_that (shared_secret alice_result = bob_result)))))"

definition test_x3dh_native_with_opk :: "crypto \<Rightarrow> ('p, 's) curve \<Rightarrow> World \<Rightarrow> test" where
  "test_x3dh_native_with_opk c e w0 =
     (let (bob_identity, w1) = gen_keypair c w0;
          bob_identity_public = public bob_identity;
          (bob_spk, w2) = gen_keypair c w1;
          bob_spk_public = public bob_spk;
          (bob_opk, w3) = gen_keypair c w2;
          bob_opk_public = public bob_opk;
          (sg, w4) = vxeddsa_sign c e w3 (secret bob_identity) bob_spk_public
      in and_then (unwrap sg) (\<lambda>sig_output.
         let bndl = \<lparr> identity_key = bob_identity_public,
                      signed_prekey = \<lparr> spk_id = 1, spk_public_key = bob_spk_public, spk_signature = signature sig_output \<rparr>,
                      one_time_prekey = Some \<lparr> opk_id = 1, opk_public_key = bob_opk_public \<rparr> \<rparr>;
             (alice_identity, w5) = gen_keypair c w4;
             alice_identity_public = public alice_identity;
             (alice, w6) = x3dh_initiator c e w5 (secret alice_identity) bndl
         in and_then (unwrap alice) (\<lambda>alice_result.
            and_then (unwrap (x3dh_responder c e (secret bob_identity) (secret bob_spk) (Some (secret bob_opk))
                                alice_identity_public (ephemeral_public alice_result))) (\<lambda>bob_result.
            assert_that (shared_secret alice_result = bob_result)))))"

section \<open>What the tests rest on\<close>

lemma unwrap_eq_Ok [simp]: "unwrap r = Ok a \<longleftrightarrow> r = Ok a"
  by (cases r) simp_all

lemma assert_that_True [simp]: "assert_that True = Ok ()"
  by (simp add: assert_that_def)

text \<open>Two sessions just initialised, and two that have exchanged their first message.\<close>

definition untouched :: "RatchetState \<Rightarrow> bool" where
  "untouched st \<longleftrightarrow> ck_r st = None \<and> hk_r st = None \<and> mkskipped st = [] \<and> received_messages st = {||} \<and>
     header_nonce_counter st < 2 \<and> ns st < 2"

definition met :: "crypto \<Rightarrow> RatchetState \<Rightarrow> RatchetState \<Rightarrow> bool" where
  "met c a b \<longleftrightarrow> lead c b a \<and> untouched a \<and> ck_s a \<noteq> None \<and> ns a = 1 \<and> hk_r b = hk_s a \<and> nr b = 1 \<and> mkskipped b = [] \<and>
     fcard (received_messages b) = 1 \<and> ns b = 0 \<and> header_nonce_counter b = 0"

lemma pair_starts:
  assumes ok: "crypto_ok c" and sk: "is_array 32 sk"
  obtains a b w where "ratchet_pair c w0 sk = (Ok (a, b), w)" "lead c a b" "untouched a" "untouched b"
    "ns a = 0" "ns b = 0" "header_nonce_counter a = 0" "header_nonce_counter b = 0"
proof -
  obtain priv w1 where rng: "os_rng_fill 32 w0 = (priv, w1)" and priv: "is_array 32 priv"
    by (metis length_os_rng_fill prod.collapse)
  have pub: "is_array 32 (x25519_base c priv)" using x25519_sizedD(1) [OF crypto_okD(4) [OF ok] priv] .
  note rc = ratchet_crypto_ok [OF ok]
  obtain a w where a: "init_sender_state c w1 sk (x25519_base c priv) = (Ok a, w)"
    using init_sender_ok [OF rc sk pub] by blast
  obtain b where b: "init_receiver_state c sk (priv, x25519_base c priv) = Ok b"
    using init_receiver_ok [OF rc sk priv pub] by blast
  have "ratchet_pair c w0 sk = (Ok (a, b), w)" by (simp add: ratchet_pair_def rng a b)
  moreover have "untouched a" "ns a = 0" "header_nonce_counter a = 0"
    using a by (auto simp: init_sender_state_def untouched_def Let_def split: prod.splits)
  moreover have "untouched b" "ns b = 0" "header_nonce_counter b = 0"
    using b by (auto simp: init_receiver_state_def untouched_def)
  ultimately show thesis using init_lead [OF ok sk priv a b] that by blast
qed

lemma start_deliverable: "lead c a b \<Longrightarrow> untouched b \<Longrightarrow> ns a = 0 \<Longrightarrow> deliverable c a b eh"
  using leadD(7) [of c a b]
  by (simp add: deliverable_def held_keys_def within_limits_def untouched_def)

lemma first_message:
  assumes ok: "crypto_ok c" and l: "lead c a b" and fresh: "untouched a" "untouched b" "ns a = 0" "ns b = 0"
      "header_nonce_counter a = 0" "header_nonce_counter b = 0" and ad: "length ad \<le> MAX_AD_SIZE"
  obtains eh ct a1 b1 w1 where "encrypt c a p ad = (Ok (eh, ct), a1)" "decrypt c w b eh ct ad = (Ok p, b1, w1)" "met c a1 b1"
proof -
  obtain ck where ck: "ck_s a = Some ck" using leader_can_send [OF l] by blast
  let ?a1 = "a\<lparr>ck_s := Some (chain_key c 1 ck), ns := 1, header_nonce_counter := 1\<rparr>"
  obtain eh ct where enc: "encrypt c a p ad = (Ok (eh, ct), ?a1)"
    using encrypt_succeeds [OF ok leadD(1) [OF l] ck ad, of p] fresh by auto
  note guard = start_deliverable [OF l fresh(2,3), of eh]
  obtain b1 w1 where dec: "decrypt c w b eh ct ad = (Ok p, b1, w1)" and l1: "lead c b1 ?a1"
      and b1: "nr b1 = 1" "hk_r b1 = hk_s ?a1" "fcard (received_messages b1) = 1" "mkskipped b1 = []"
    by (rule delivered_with_ratchet [OF ok l enc guard, of w]) (use fresh in \<open>auto simp: untouched_def\<close>)
  have "met c ?a1 b1"
    using l1 b1 fresh decrypt_counters [OF dec] by (simp add: met_def untouched_def word_less_nat_alt)
  with enc dec show thesis by (rule that)
qed

lemma answered:
  assumes ok: "crypto_ok c" and m: "met c a b" and ad: "length ad \<le> MAX_AD_SIZE"
  obtains eh ct b' a' w' where "encrypt c b p ad = (Ok (eh, ct), b')" "decrypt c w a eh ct ad = (Ok p, a', w')"
proof -
  have l: "lead c b a" using m by (simp add: met_def)
  have left: "counters_left b" using m by (simp add: met_def counters_left_def)
  obtain eh ct b' where enc: "encrypt c b p ad = (Ok (eh, ct), b')"
    by (rule can_send [OF ok leadD(1) [OF l] leader_can_send [OF l] ad left])
  have "deliverable c b a eh"
    using m leadD(7) [OF l]
    by (simp add: deliverable_def held_keys_def within_limits_def untouched_def met_def)
  then obtain a' w' where "decrypt c w a eh ct ad = (Ok p, a', w')"
    using linked_delivered [OF ok _ enc] l by (metis linked_def)
  with enc show thesis by (rule that)
qed

text \<open>The messages that follow the first one, as the receiver catches up with them.\<close>

lemma met_chain:
  assumes ok: "crypto_ok c" and m: "met c a b" and len: "length ms \<le> 3" and send: "send_all c a ms = (Ok sealed, a')"
  obtains hk ck pub where
    "catching c hk ck 1 (length ms) pub {} 1 {} 0 b" "catch_limits 1 (length ms) {} 1"
    "\<forall>i < length ms. chain_msg c hk ck 1 pub i (ms ! i) (sealed ! i) \<and> no_foreign c hk {} (fst (sealed ! i))"
proof -
  have l: "lead c b a" and eqs: "hk_s a = hk_r b" "nr b = ns a" and b: "nr b = 1" "mkskipped b = []" "fcard (received_messages b) = 1"
    using m by (simp_all add: met_def)
  obtain hk where "hk_r b = Some hk" using leadD(10) [OF l] m by (auto simp: follows_def met_def)
  then have some: "hk_r b \<noteq> None" by simp
  have lim: "batch_limits b (length ms)"
    using b len by (simp add: batch_limits_def MAX_SKIPPED_KEYS_def MAX_RECEIVED_TRACKING_def)
  have apart: "sealed_apart c b sealed"
    using b(2) \<open>hk_r b = Some hk\<close> by (simp add: sealed_apart_def held_keys_def)
  show thesis
    by (rule lead_catching [OF ok l some eqs lim send apart]) (rule that, auto simp: b)
qed

lemma met_sends:
  assumes ok: "crypto_ok c" and m: "met c a b" and "\<forall>m \<in> set ms. snd m = []" and "length ms \<le> 2000"
  obtains sealed a' where "send_all c a ms = (Ok sealed, a')"
proof -
  have l: "lead c b a" and a: "ck_s a \<noteq> None" "ns a = 1" "unat (header_nonce_counter a) < 2"
    using m by (auto simp: met_def untouched_def word_less_nat_alt)
  have "\<exists>sealed a'. send_all c a ms = (Ok sealed, a')"
    by (rule send_all_total [OF ok leadD(2) [OF l] a(1)]) (use assms(3,4) a in \<open>auto simp: MAX_AD_SIZE_def\<close>)
  with that show thesis by blast
qed

section \<open>The tests pass\<close>

lemma short_text: "length (ascii s) \<le> MAX_AD_SIZE \<longleftrightarrow> length s \<le> 65536"
  by (simp add: ascii_def MAX_AD_SIZE_def)

lemma empty_ad: "length ([] :: bytes) \<le> MAX_AD_SIZE"
  by (simp add: MAX_AD_SIZE_def)

lemma basic_flow_passes: "crypto_ok c \<Longrightarrow> test_ratchet_basic_flow c w0 = Ok ()"
proof -
  assume ok: "crypto_ok c"
  have sk: "is_array 32 (replicate 32 (0x55 :: u8))" by simp
  obtain a b w where pair: "ratchet_pair c w0 (replicate 32 0x55) = (Ok (a, b), w)" and start: "lead c a b"
      "untouched a" "untouched b" "ns a = 0" "ns b = 0" "header_nonce_counter a = 0" "header_nonce_counter b = 0"
    by (rule pair_starts [OF ok sk])
  have ad: "length (ascii ''Metadata'') \<le> MAX_AD_SIZE" by (simp add: short_text)
  obtain eh ct a1 b1 w1 where one: "encrypt c a (ascii ''Hello Receiver!'') (ascii ''Metadata'') = (Ok (eh, ct), a1)"
      "decrypt c w b eh ct (ascii ''Metadata'') = (Ok (ascii ''Hello Receiver!''), b1, w1)" and met: "met c a1 b1"
    by (rule first_message [OF ok start ad])
  obtain eh' ct' b2 a2 w2 where two: "encrypt c b1 (ascii ''Hello Sender!'') [] = (Ok (eh', ct'), b2)"
      "decrypt c w1 a1 eh' ct' [] = (Ok (ascii ''Hello Sender!''), a2, w2)"
    by (rule answered [OF ok met empty_ad])
  show ?thesis by (simp add: test_ratchet_basic_flow_def pair one two)
qed

lemma out_of_order_passes: "crypto_ok c \<Longrightarrow> test_out_of_order_messages c w0 = Ok ()"
proof -
  assume ok: "crypto_ok c"
  note rc = ratchet_crypto_ok [OF ok]
  have sk: "is_array 32 (replicate 32 (0x66 :: u8))" by simp
  obtain a b w where pair: "ratchet_pair c w0 (replicate 32 0x66) = (Ok (a, b), w)" and start: "lead c a b"
      "untouched a" "untouched b" "ns a = 0" "ns b = 0" "header_nonce_counter a = 0" "header_nonce_counter b = 0"
    by (rule pair_starts [OF ok sk])
  obtain h1 c1 a1 b1 w1 where one: "encrypt c a (ascii ''Message 1'') [] = (Ok (h1, c1), a1)"
      "decrypt c w b h1 c1 [] = (Ok (ascii ''Message 1''), b1, w1)" and met: "met c a1 b1"
    by (rule first_message [OF ok start empty_ad])
  let ?ms = "[(ascii ''Message 2'', []), (ascii ''Message 3'', [])] :: (bytes \<times> bytes) list"
  have "\<forall>m \<in> set ?ms. snd m = []" "length ?ms \<le> 2000" "length ?ms \<le> 3" by simp_all
  from met_sends [OF ok met this(1,2)] obtain sealed a' where send: "send_all c a1 ?ms = (Ok sealed, a')" .
  obtain h2 c2 a2 rest where two: "encrypt c a1 (ascii ''Message 2'') [] = (Ok (h2, c2), a2)"
      "send_all c a2 [(ascii ''Message 3'', [])] = (Ok rest, a')" "sealed = (h2, c2) # rest"
    using send by (rule send_all_ConsE)
  obtain h3 c3 a3 rest' where three: "encrypt c a2 (ascii ''Message 3'') [] = (Ok (h3, c3), a3)"
      "rest = (h3, c3) # rest'"
    using two(2) by (rule send_all_ConsE)
  obtain hk ck pub where st: "catching c hk ck 1 (length ?ms) pub {} 1 {} 0 b1" and lim: "catch_limits 1 (length ?ms) {} 1"
      and msgs: "\<forall>i < length ?ms. chain_msg c hk ck 1 pub i (?ms ! i) (sealed ! i) \<and> no_foreign c hk {} (fst (sealed ! i))"
    by (rule met_chain [OF ok met \<open>length ?ms \<le> 3\<close> send])
  note m = msgs [rule_format, of 0] msgs [rule_format, of 1]
  obtain b2 w2 k2 where d3: "decrypt c w1 b1 h3 c3 [] = (Ok (ascii ''Message 3''), b2, w2)"
      and st2: "catching c hk ck 1 (length ?ms) pub {} 1 {1} k2 b2"
    by (rule catching_step [OF rc lim, where i = 1 and got = "{}" and m = "?ms ! 1" and s = "sealed ! 1"])
      (use m st in \<open>simp_all add: two(3) three(2)\<close>)
  obtain b3 w3 where d2: "decrypt c w2 b2 h2 c2 [] = (Ok (ascii ''Message 2''), b3, w3)"
    by (rule catching_step [OF rc lim, where i = 0 and got = "{1}" and m = "?ms ! 0" and s = "sealed ! 0"])
      (use m st2 in \<open>simp_all add: two(3) three(2)\<close>)
  show ?thesis by (simp add: test_out_of_order_messages_def pair one two(1) three(1) d3 d2)
qed

text \<open>A message too far ahead of the receiving chain is refused, whatever was skipped.\<close>

lemma too_far_ahead:
  assumes ok: "crypto_ok c" and m: "met c a b" and inv: "ratchet_inv a'" and same: "hk_s a' = hk_s a" "dh_pair a' = dh_pair a"
    and far: "unat (ns a') > 1001" and enc: "encrypt c a' p ad = (Ok (eh, ct), a'')"
  shows "fst (decrypt c w b eh ct ad) = Err OldMessageKeysLimitReached"
proof -
  note rc = ratchet_crypto_ok [OF ok]
  have l: "lead c b a" and b: "hk_r b = hk_s a" "nr b = 1" "mkskipped b = []" "ns a = 1" "ck_s a \<noteq> None"
    using m by (simp_all add: met_def)
  obtain hk where hk: "hk_s a' = Some hk" and ad: "length ad \<le> MAX_AD_SIZE"
      and hdr: "decrypt_header_with_key c hk eh = Ok (next_header a')"
    by (rule encrypt_opens [OF ok inv enc]) blast
  have "(k, n) |\<in>| received_messages b \<Longrightarrow> n < 1" for k n
    using leadD(10) [OF l] b(4,5) by (auto simp: follows_def)
  then have new: "(snd (dh_pair a'), ns a') |\<notin>| received_messages b"
    using far by (auto simp: word_less_nat_alt)
  have "nr b + MAX_SKIP < ns a'" using far b(2) by (simp add: MAX_SKIP_def word_less_nat_alt)
  then have key: "compute_message_key c b (next_header a') False = Err OldMessageKeysLimitReached"
    by (simp add: compute_message_key_def)
  have "decrypt_header c b eh = Ok (next_header a', False)"
    using hk hdr b(1) same(1) by (simp add: decrypt_header_def)
  moreover have "try_skipped_message_keys c w [] eh ct (concat_ad ad eh) = Ok ([], None)"
    using try_skipped_miss [OF ratchet_cryptoD(2) [OF rc], where m = "[]"] by simp
  moreover have upd: "b\<lparr>mkskipped := []\<rparr> = b" using b(3) by simp
  ultimately show ?thesis
    using ad new key b(3) by (simp add: decrypt_def decrypt_with_ratchet_def Let_def upd)
qed

lemma max_skip_passes: "crypto_ok c \<Longrightarrow> test_max_skip_exceeded c w0 = Ok ()"
proof -
  assume ok: "crypto_ok c"
  have sk: "is_array 32 (replicate 32 (0x88 :: u8))" by simp
  obtain a b w where pair: "ratchet_pair c w0 (replicate 32 0x88) = (Ok (a, b), w)" and start: "lead c a b"
      "untouched a" "untouched b" "ns a = 0" "ns b = 0" "header_nonce_counter a = 0" "header_nonce_counter b = 0"
    by (rule pair_starts [OF ok sk])
  obtain h1 c1 a1 b1 w1 where one: "encrypt c a (ascii ''Message 1'') [] = (Ok (h1, c1), a1)"
      "decrypt c w b h1 c1 [] = (Ok (ascii ''Message 1''), b1, w1)" and met: "met c a1 b1"
    by (rule first_message [OF ok start empty_ad])
  define ms :: "(bytes \<times> bytes) list" where "ms = replicate (unat (MAX_SKIP + 2)) (ascii ''Skip me'', [])"
  have len: "length ms = 1002" by (simp add: ms_def MAX_SKIP_def)
  have "\<forall>m \<in> set ms. snd m = []" by (auto simp: ms_def)
  then obtain sealed a2 where send: "send_all c a1 ms = (Ok sealed, a2)"
    by (rule met_sends [OF ok met]) (simp add: len)
  have a1: "ratchet_inv a1" "ns a1 = 1" "ck_s a1 \<noteq> None" "unat (header_nonce_counter a1) < 2"
    using met by (auto simp: met_def untouched_def word_less_nat_alt dest: leadD(2))
  note a2 = send_all_state [OF ok a1(1) send, unfolded len]
  have "counters_left a2" using a2 a1 by (simp add: counters_left_def)
  then obtain hf cf a3 where final: "encrypt c a2 (ascii ''Final'') [] = (Ok (hf, cf), a3)"
    using can_send [OF ok _ _ empty_ad] a2 a1(3) by blast
  have "fst (decrypt c w1 b1 hf cf []) = Err OldMessageKeysLimitReached"
    by (rule too_far_ahead [OF ok met _ _ _ _ final]) (use a2 a1 in simp_all)
  then obtain b2 w2 where "decrypt c w1 b1 hf cf [] = (Err OldMessageKeysLimitReached, b2, w2)"
    by (metis prod.collapse)
  then show ?thesis
    by (simp add: test_max_skip_exceeded_def pair one send [unfolded ms_def] final)
qed

lemma same_session_empty: "same_session st st' \<Longrightarrow> mkskipped st = [] \<Longrightarrow> st' = st"
  by (elim same_sessionE) simp

lemma catching_restored:
  assumes "same_session st st'" and "catching c hk ck n0 cnt pub old r0 got k st"
  shows "catching c hk ck n0 cnt pub old r0 got k st'"
proof -
  obtain m where st': "st' = st\<lparr>mkskipped := m\<rparr>" and m: "map_of m = map_of (mkskipped st)"
    using assms(1) by (rule same_sessionE)
  have inv: "ratchet_inv st" "ratchet_inv st'"
    using same_session_inv [OF assms(1) catchingD(1) [OF assms(2)]] catchingD(1) [OF assms(2)] by simp_all
  have "catching c hk ck n0 cnt pub old r0 got k st' \<longleftrightarrow> catching c hk ck n0 cnt pub old r0 got k st"
    unfolding catching_def using inv by (simp add: st' m)
  with assms(2) show ?thesis by simp
qed

text \<open>Three messages after the first one, as the sender seals them and the receiver waits for them.\<close>

lemma three_more:
  assumes ok: "crypto_ok c" and met: "met c a b"
  obtains h2 c2 a2 h3 c3 a3 h4 c4 a4 hk ck pub where
    "encrypt c a p2 [] = (Ok (h2, c2), a2)" "encrypt c a2 p3 [] = (Ok (h3, c3), a3)" "encrypt c a3 p4 [] = (Ok (h4, c4), a4)"
    "catching c hk ck 1 3 pub {} 1 {} 0 b" "catch_limits 1 3 {} 1"
    "chain_msg c hk ck 1 pub 0 (p2, []) (h2, c2)" "chain_msg c hk ck 1 pub 1 (p3, []) (h3, c3)"
    "chain_msg c hk ck 1 pub 2 (p4, []) (h4, c4)"
proof -
  let ?ms = "[(p2, []), (p3, []), (p4, [])] :: (bytes \<times> bytes) list"
  have "\<forall>m \<in> set ?ms. snd m = []" "length ?ms \<le> 2000" and len: "length ?ms \<le> 3" and three_ms: "length ?ms = 3" by simp_all
  from met_sends [OF ok met this(1,2)] obtain sealed a' where send: "send_all c a ?ms = (Ok sealed, a')" .
  obtain h2 c2 a2 r2 where two: "encrypt c a p2 [] = (Ok (h2, c2), a2)"
      "send_all c a2 (tl ?ms) = (Ok r2, a')" "sealed = (h2, c2) # r2"
    using send unfolding list.sel by (rule send_all_ConsE)
  obtain h3 c3 a3 r3 where three: "encrypt c a2 p3 [] = (Ok (h3, c3), a3)"
      "send_all c a3 (tl (tl ?ms)) = (Ok r3, a')" "r2 = (h3, c3) # r3"
    using two(2) unfolding list.sel by (rule send_all_ConsE)
  obtain h4 c4 a4 r4 where four: "encrypt c a3 p4 [] = (Ok (h4, c4), a4)" "r3 = (h4, c4) # r4"
    using three(2) unfolding list.sel by (rule send_all_ConsE)
  obtain hk ck pub where st: "catching c hk ck 1 (length ?ms) pub {} 1 {} 0 b" and lim: "catch_limits 1 (length ?ms) {} 1"
      and msgs: "\<forall>i < length ?ms. chain_msg c hk ck 1 pub i (?ms ! i) (sealed ! i) \<and> no_foreign c hk {} (fst (sealed ! i))"
    by (rule met_chain [OF ok met len send])
  have "chain_msg c hk ck 1 pub 0 (p2, []) (h2, c2)" "chain_msg c hk ck 1 pub 1 (p3, []) (h3, c3)"
      "chain_msg c hk ck 1 pub 2 (p4, []) (h4, c4)"
    using msgs [rule_format, of 0] msgs [rule_format, of 1] msgs [rule_format, of 2]
    by (simp_all add: two(3) three(3) four(2))
  from that [OF two(1) three(1) four(1) st [unfolded three_ms] lim [unfolded three_ms] this] show thesis .
qed

lemma no_foreign_empty [simp]: "no_foreign c hk {} eh"
  by (simp add: no_foreign_def)

lemma serialization_passes:
  assumes ok: "crypto_ok c" and j: "json_faithful j"
    and written: "\<nexists>w st. ratchet_inv st \<and> state_to_json j w st = None"
  shows "test_serialization_roundtrip c j w0 = Ok ()"
proof -
  note rc = ratchet_crypto_ok [OF ok]
  have total: "state_to_json j w st \<noteq> None" if "ratchet_inv st" for w st
    using written that unfolding not_ex de_Morgan_conj by (metis (no_types))
  have sk: "is_array 32 (replicate 32 (0x99 :: u8))" by simp
  obtain a b w where pair: "ratchet_pair c w0 (replicate 32 0x99) = (Ok (a, b), w)" and start: "lead c a b"
      "untouched a" "untouched b" "ns a = 0" "ns b = 0" "header_nonce_counter a = 0" "header_nonce_counter b = 0"
    by (rule pair_starts [OF ok sk])
  obtain h1 c1 a1 b1 w1 where one: "encrypt c a (ascii ''Msg1'') [] = (Ok (h1, c1), a1)"
      "decrypt c w b h1 c1 [] = (Ok (ascii ''Msg1''), b1, w1)" and met: "met c a1 b1"
    by (rule first_message [OF ok start empty_ad])
  have a1: "ratchet_inv a1" "mkskipped a1 = []" using met by (auto simp: met_def untouched_def dest: leadD(2))
  obtain json where json: "state_to_json j w1 a1 = Some json" using total [OF a1(1)] by blast
  obtain a1' where "state_from_json j json = Some a1'" "same_session a1 a1'"
    by (rule reread_session [OF j a1(1) json])
  then have restored: "state_from_json j json = Some a1" using same_session_empty a1(2) by blast
  obtain h2 c2 a2 h3 c3 a3 h4 c4 a4 hk ck pub where more: "encrypt c a1 (ascii ''Msg2'') [] = (Ok (h2, c2), a2)"
      "encrypt c a2 (ascii ''Msg3'') [] = (Ok (h3, c3), a3)" "encrypt c a3 (ascii ''Msg4'') [] = (Ok (h4, c4), a4)"
    and st: "catching c hk ck 1 3 pub {} 1 {} 0 b1" and lim: "catch_limits 1 3 {} 1"
    and m: "chain_msg c hk ck 1 pub 0 (ascii ''Msg2'', []) (h2, c2)" "chain_msg c hk ck 1 pub 1 (ascii ''Msg3'', []) (h3, c3)"
      "chain_msg c hk ck 1 pub 2 (ascii ''Msg4'', []) (h4, c4)"
    by (rule three_more [OF ok met])
  obtain b2 w2 k2 where d2: "decrypt c w1 b1 h2 c2 [] = (Ok (ascii ''Msg2''), b2, w2)"
      and st2: "catching c hk ck 1 3 pub {} 1 {0} k2 b2"
    by (rule catching_step [OF rc lim, where i = 0 and got = "{}" and m = "(ascii ''Msg2'', [])" and s = "(h2, c2)" and w = w1]) (use m st in simp_all)
  obtain b3 w3 k3 where d4: "decrypt c w2 b2 h4 c4 [] = (Ok (ascii ''Msg4''), b3, w3)"
      and st3: "catching c hk ck 1 3 pub {} 1 {2, 0} k3 b3"
    by (rule catching_step [OF rc lim, where i = 2 and got = "{0}" and m = "(ascii ''Msg4'', [])" and s = "(h4, c4)" and w = w2]) (use m st2 in simp_all)
  obtain rec_json where rec_json: "state_to_json j w3 b3 = Some rec_json" using total [OF catchingD(1) [OF st3]] by blast
  obtain b3' where restored': "state_from_json j rec_json = Some b3'" and same: "same_session b3 b3'"
    by (rule reread_session [OF j catchingD(1) [OF st3] rec_json])
  obtain b4 w4 where d3: "decrypt c w3 b3' h3 c3 [] = (Ok (ascii ''Msg3''), b4, w4)"
    by (rule catching_step [OF rc lim, where i = 1 and got = "{2, 0}" and m = "(ascii ''Msg3'', [])" and s = "(h3, c3)" and w = w3])
      (use m catching_restored [OF same st3] in simp_all)
  show ?thesis
    by (simp add: test_serialization_roundtrip_def pair one json restored more d2 d4 rec_json restored' d3)
qed

lemma tampered_passes:
  assumes ok: "crypto_ok c" and pair: "ratchet_pair c w0 (replicate 32 0x77) = (Ok (a, b), w)"
    and enc: "encrypt c a (ascii ''Tampered'') [] = (Ok (eh, ct), a')" and ck: "ck_s a = Some ck"
    and forged: "\<not> authentic c (message_key c 0 ck) (flip_first ct) (concat_ad [] eh)"
  shows "test_tampered_ciphertext c w0 = Ok ()"
proof -
  have sk: "is_array 32 (replicate 32 (0x77 :: u8))" by simp
  have start: "lead c a b" "untouched b" "ns a = 0"
    by (rule pair_starts [OF ok sk, of w0], use pair in simp)+
  have "linked c a b" using start(1) by (simp add: linked_def)
  then have "decrypt c w b eh (flip_first ct) [] = (Err DecryptionFailed, b, w)"
    using forged_refused [OF ok _ enc start_deliverable [OF start] ck forged] by blast
  then show ?thesis by (simp add: test_tampered_ciphertext_def pair enc)
qed

text \<open>The key agreement tests, given that the signature was made (its nonce is not zero) on a key
  that does not hash to the identity.\<close>

lemma gen_keypair_total:
  obtains kp w' where "gen_keypair c w = (kp, w')" "public kp = gen_pubkey c (secret kp)" "is_array 32 (secret kp)"
  using gen_keypair_public [of c w] by (cases "gen_keypair c w") auto

lemma x3dh_native_passes:
  assumes ok: "crypto_ok c" and curve: "curve_ok e" and bi: "birational c e"
    and keys: "gen_keypair c w0 = (bob, w1)" "gen_keypair c w1 = (spk, w2)"
    and sign: "vxeddsa_sign c e w2 (secret bob) (public spk) = (Ok out, w3)"
    and base: "vrf_base c e (compress e (snd (calculate_key_pair e (secret bob)))) (public spk) \<noteq> identity e"
  shows "test_x3dh_native_api c e w0 = Ok ()"
proof -
  obtain alice w4 where alice: "gen_keypair c w3 = (alice, w4)" "public alice = gen_pubkey c (secret alice)" "is_array 32 (secret alice)"
    by (rule gen_keypair_total)
  have pub: "public bob = gen_pubkey c (secret bob)" "is_array 32 (secret bob)"
      "public spk = gen_pubkey c (secret spk)" "is_array 32 (secret spk)"
    using gen_keypair_public [OF keys(1)] gen_keypair_public [OF keys(2)] by simp_all
  let ?b = "\<lparr> identity_key = gen_pubkey c (secret bob),
             signed_prekey = \<lparr> spk_id = 1, spk_public_key = gen_pubkey c (secret spk), spk_signature = signature out \<rparr>,
             one_time_prekey = None \<rparr>"
  obtain r w5 where "x3dh_initiator c e w4 (secret alice) ?b = (Ok r, w5)"
      "x3dh_responder c e (secret bob) (secret spk) None (gen_pubkey c (secret alice)) (ephemeral_public r) = Ok (shared_secret r)"
    using genuine_agreement [OF ok curve bi alice(3) pub(2,4) _ sign [unfolded pub(3)] base [unfolded pub(3)],
        where opk = None and bndl = ?b and i = 1 and w = w4] by auto
  then show ?thesis
    using keys sign alice pub by (simp add: test_x3dh_native_api_def)
qed

lemma x3dh_opk_passes:
  assumes ok: "crypto_ok c" and curve: "curve_ok e" and bi: "birational c e"
    and keys: "gen_keypair c w0 = (bob, w1)" "gen_keypair c w1 = (spk, w2)" "gen_keypair c w2 = (opk, w3)"
    and sign: "vxeddsa_sign c e w3 (secret bob) (public spk) = (Ok out, w4)"
    and base: "vrf_base c e (compress e (snd (calculate_key_pair e (secret bob)))) (public spk) \<noteq> identity e"
  shows "test_x3dh_native_with_opk c e w0 = Ok ()"
proof -
  obtain alice w5 where alice: "gen_keypair c w4 = (alice, w5)" "public alice = gen_pubkey c (secret alice)" "is_array 32 (secret alice)"
    by (rule gen_keypair_total)
  have pub: "public bob = gen_pubkey c (secret bob)" "is_array 32 (secret bob)"
      "public spk = gen_pubkey c (secret spk)" "is_array 32 (secret spk)"
      "public opk = gen_pubkey c (secret opk)" "is_array 32 (secret opk)"
    using gen_keypair_public [OF keys(1)] gen_keypair_public [OF keys(2)] gen_keypair_public [OF keys(3)] by simp_all
  let ?b = "\<lparr> identity_key = gen_pubkey c (secret bob),
             signed_prekey = \<lparr> spk_id = 1, spk_public_key = gen_pubkey c (secret spk), spk_signature = signature out \<rparr>,
             one_time_prekey = Some \<lparr> opk_id = 1, opk_public_key = gen_pubkey c (secret opk) \<rparr> \<rparr>"
  obtain r w6 where "x3dh_initiator c e w5 (secret alice) ?b = (Ok r, w6)"
      "x3dh_responder c e (secret bob) (secret spk) (Some (secret opk)) (gen_pubkey c (secret alice)) (ephemeral_public r) = Ok (shared_secret r)"
    using genuine_agreement [OF ok curve bi alice(3) pub(2,4) _ sign [unfolded pub(3)] base [unfolded pub(3)],
        where opk = "Some (secret opk)" and bndl = ?b and i = 1 and j = 1 and w = w5] pub(6) by auto
  then show ?thesis
    using keys sign alice pub by (simp add: test_x3dh_native_with_opk_def)
qed

section \<open>Properties\<close>

text \<open>C35: The repository's own unit tests pass whatever randomness they draw: a basic exchange in both
  directions, delivery out of order, the refusal beyond the skip limit, and a session that
  continues after it was stored as JSON (unless a session cannot be written); the tampering test
  passes when the flipped ciphertext does not by chance carry a valid MAC, and the two key
  agreement tests when the signature is made on a prekey that does not hash to the identity.\<close>

theorem unit_tests_pass:
  assumes "crypto_ok c" and "json_faithful j" and "curve_ok e" and "birational c e"
  shows "test_ratchet_basic_flow c w0 = Ok () \<and> test_out_of_order_messages c w0 = Ok () \<and>
    test_max_skip_exceeded c w0 = Ok () \<and>
    (test_serialization_roundtrip c j w0 = Ok () \<or> (\<exists>w st. ratchet_inv st \<and> state_to_json j w st = None)) \<and>
    (\<forall>a b w eh ct a' ck. ratchet_pair c w0 (replicate 32 0x77) = (Ok (a, b), w) \<and>
       encrypt c a (ascii ''Tampered'') [] = (Ok (eh, ct), a') \<and> ck_s a = Some ck \<and>
       \<not> authentic c (message_key c 0 ck) (flip_first ct) (concat_ad [] eh) \<longrightarrow> test_tampered_ciphertext c w0 = Ok ()) \<and>
    (\<forall>bob w1 spk w2 opk w3 out w4. gen_keypair c w0 = (bob, w1) \<and> gen_keypair c w1 = (spk, w2) \<and>
       vrf_base c e (compress e (snd (calculate_key_pair e (secret bob)))) (public spk) \<noteq> identity e \<longrightarrow>
       (vxeddsa_sign c e w2 (secret bob) (public spk) = (Ok out, w4) \<longrightarrow> test_x3dh_native_api c e w0 = Ok ()) \<and>
       (gen_keypair c w2 = (opk, w3) \<and> vxeddsa_sign c e w3 (secret bob) (public spk) = (Ok out, w4) \<longrightarrow>
          test_x3dh_native_with_opk c e w0 = Ok ()))"
proof (intro conjI allI impI; (elim conjE)?)
  show "test_ratchet_basic_flow c w0 = Ok ()" by (rule basic_flow_passes [OF assms(1)])
  show "test_out_of_order_messages c w0 = Ok ()" by (rule out_of_order_passes [OF assms(1)])
  show "test_max_skip_exceeded c w0 = Ok ()" by (rule max_skip_passes [OF assms(1)])
  show "test_serialization_roundtrip c j w0 = Ok () \<or> (\<exists>w st. ratchet_inv st \<and> state_to_json j w st = None)"
    using serialization_passes [OF assms(1,2)] by blast
qed (blast intro: tampered_passes x3dh_native_passes x3dh_opk_passes assms)+

theorem unit_tests_pass_witness:
  "test_out_of_order_messages signing_crypto demo_world = Ok () \<and> test_max_skip_exceeded signing_crypto demo_world = Ok () \<and>
   test_x3dh_native_api signing_crypto binary_curve demo_world = Ok ()"
proof -
  let ?j = "\<lparr> json_write = \<lambda>_ _. None, json_read = \<lambda>_. None \<rparr>"
  have "json_faithful ?j" by (simp add: json_faithful_def)
  note tests = unit_tests_pass [OF signing_crypto_ok this binary_curve_ok binary_birational, of demo_world]
  obtain bob w1 spk w2 where keys: "gen_keypair signing_crypto demo_world = (bob, w1)" "gen_keypair signing_crypto w1 = (spk, w2)"
    by (metis prod.collapse)
  obtain out w4 where sign: "vxeddsa_sign signing_crypto binary_curve w2 (secret bob) (public spk) = (Ok out, w4)"
    using binary_signs by blast
  have "vrf_base signing_crypto binary_curve (compress binary_curve (snd (calculate_key_pair binary_curve (secret bob)))) (public spk)
      \<noteq> identity binary_curve"
    by (simp add: vrf_base_def run_simps)
  then have "test_x3dh_native_api signing_crypto binary_curve demo_world = Ok ()"
    using tests [THEN conjunct2, THEN conjunct2, THEN conjunct2, THEN conjunct2, THEN conjunct2] keys sign by blast
  moreover have "test_out_of_order_messages signing_crypto demo_world = Ok ()"
    by (rule tests [THEN conjunct2, THEN conjunct1])
  moreover have "test_max_skip_exceeded signing_crypto demo_world = Ok ()"
    by (rule tests [THEN conjunct2, THEN conjunct2, THEN conjunct1])
  ultimately show ?thesis by blast
qed

end
