(* ===== verification/Replay.thy ===== *)
theory Replay
  imports Tampering
begin

text \<open>
  What an accepted message does to the two memories of the session, and that the same message is
  refused when it comes again at once. For repetitions that come later see the theory
  \<open>Mailbox\<close>.
\<close>

section \<open>The store after the commit\<close>

text \<open>Entries stored while a message is accepted never open that message again: those of the old
  chain have a header key that does not open its header, those of its own chain a smaller number.\<close>

definition gap_entries :: "bytes option \<Rightarrow> u32 \<Rightarrow> SkippedKeyMap \<Rightarrow> SkippedKeyMap \<Rightarrow> bool" where
  "gap_entries hkr target m m' \<longleftrightarrow>
     (\<forall>k s. map_of m' k = Some s \<longrightarrow> map_of m k = Some s \<or> (\<exists>hk n. hkr = Some hk \<and> k = (hk, n) \<and> n < target))"

lemma gap_entriesD:
  "gap_entries hkr target m m' \<Longrightarrow> map_of m' k = Some s \<Longrightarrow>
     map_of m k = Some s \<or> (\<exists>hk n. hkr = Some hk \<and> k = (hk, n) \<and> n < target)"
  unfolding gap_entries_def by blast

lemma store_chain_gap_entries:
  assumes "store_chain_gap c target st w = (Ok u, st', w')"
  shows "\<exists>m. st' = st\<lparr>mkskipped := m\<rparr> \<and> gap_entries (hk_r st) target (mkskipped st) m"
proof (cases "(ck_r st, hk_r st)" rule: prod.exhaust)
  case (Pair ckr hkr)
  show ?thesis
  proof (cases "\<exists>ck hk. ckr = Some ck \<and> hkr = Some hk")
    case True
    then obtain ck hk m where keys: "ck_r st = Some ck" "hk_r st = Some hk"
        and skip: "skip_message_keys c w (mkskipped st) ck hk (nr st) target = (Ok m, w')" and st': "st' = st\<lparr>mkskipped := m\<rparr>"
      using assms Pair by (auto simp: store_chain_gap_def split: prod.splits result.splits)
    have "gap_entries (hk_r st) target (mkskipped st) m"
      unfolding gap_entries_def keys(2)
      using skip_loop_sound [OF skip_message_keys_OkD(1) [OF skip]] by blast
    with st' show ?thesis by blast
  next
    case False
    then have "st' = st" using assms Pair by (auto simp: store_chain_gap_def split: option.splits)
    then show ?thesis by (intro exI [of _ "mkskipped st"]) (simp add: gap_entries_def)
  qed
qed

lemma perform_dh_ratchet_fields:
  "perform_dh_ratchet c pub st w = (Ok u, st', w') \<Longrightarrow>
     hk_r st' = Some (nhk_r st) \<and> mkskipped st' = mkskipped st \<and> received_messages st' = {||}"
  by (auto simp: perform_dh_ratchet_def Let_def split: result.splits prod.splits)

lemma advance_receiving_fields:
  "advance_receiving c st w = (Ok u, st', w') \<Longrightarrow>
     hk_r st' = hk_r st \<and> mkskipped st' = mkskipped st \<and> received_messages st' = received_messages st"
  by (auto simp: advance_receiving_def Let_def split: option.splits)

lemma after_gap:
  assumes "bind_st (store_chain_gap c target st w) (\<lambda>_. g) = (Ok b, st', w')"
  obtains m w1 where "gap_entries (hk_r st) target (mkskipped st) m" "g (st\<lparr>mkskipped := m\<rparr>) w1 = (Ok b, st', w')"
proof (rule bind_st_OkE [OF assms])
  fix u st1 w1 assume gap: "store_chain_gap c target st w = (Ok u, st1, w1)" and rest: "g st1 w1 = (Ok b, st', w')"
  from store_chain_gap_entries [OF gap] rest that show thesis by blast
qed

text \<open>After the commit the header key of the message is the receiving key, and no new entry opens it.\<close>

lemma commit_entries:
  assumes hdr: "decrypt_header c st eh = Ok (h, r)" and run: "commit_state_changes c h r st w = (Ok u, st', w')"
  obtains hk where "hk_r st' = Some hk" "decrypt_header_with_key c hk eh = Ok h"
    "received_messages st' = (if r then {||} else received_messages st)"
    "\<forall>k s. map_of (mkskipped st') k = Some s \<longrightarrow> map_of (mkskipped st) k = Some s \<or>
       \<not> is_ok (decrypt_header_with_key c (fst k) eh) \<or> fst k = hk \<and> snd k < hdr_n h"
proof -
  obtain v st1 w1 where first: "(if r then bind_st (store_chain_gap c (hdr_pn h) st w) (\<lambda>_. perform_dh_ratchet c (dh_pub h))
              else (Ok (), st, w)) = (Ok v, st1, w1)"
    and rest: "bind_st (store_chain_gap c (hdr_n h) st1 w1) (\<lambda>_. advance_receiving c) = (Ok u, st', w')"
    using run unfolding commit_state_changes_def by (rule bind_st_OkE)
  obtain m w2 where gap: "gap_entries (hk_r st1) (hdr_n h) (mkskipped st1) m"
    and adv: "advance_receiving c (st1\<lparr>mkskipped := m\<rparr>) w2 = (Ok u, st', w')"
    by (rule after_gap [OF rest])
  note st' = advance_receiving_fields [OF adv, simplified]
  show thesis
  proof (cases r)
    case True
    obtain m1 w3 where gap1: "gap_entries (hk_r st) (hdr_pn h) (mkskipped st) m1"
      and ratchet: "perform_dh_ratchet c (dh_pub h) (st\<lparr>mkskipped := m1\<rparr>) w3 = (Ok v, st1, w1)"
      using True first by (auto elim: after_gap)
    note st1 = perform_dh_ratchet_fields [OF ratchet, simplified]
    have old: "\<not> is_ok (decrypt_header_with_key c hk eh)" if "hk_r st = Some hk" for hk
      using hdr True that by (auto simp: decrypt_header_def Let_def split: result.splits)
    have new: "decrypt_header_with_key c (nhk_r st) eh = Ok h"
      using hdr True by (auto simp: decrypt_header_def Let_def split: result.splits option.splits)
    show thesis
    proof (rule that)
      show "hk_r st' = Some (nhk_r st)" "received_messages st' = (if r then {||} else received_messages st)"
        using st' st1 True by simp_all
      show "decrypt_header_with_key c (nhk_r st) eh = Ok h" by (rule new)
      show "\<forall>k s. map_of (mkskipped st') k = Some s \<longrightarrow> map_of (mkskipped st) k = Some s \<or>
          \<not> is_ok (decrypt_header_with_key c (fst k) eh) \<or> fst k = nhk_r st \<and> snd k < hdr_n h"
        using gap_entriesD [OF gap] gap_entriesD [OF gap1] old st' st1 by fastforce
    qed
  next
    case False
    then have st1: "st1 = st" using first by simp
    obtain hk where "hk_r st = Some hk" "decrypt_header_with_key c hk eh = Ok h"
      using hdr False by (auto simp: decrypt_header_def Let_def split: result.splits option.splits)
    then show thesis
      using that [of hk] gap_entriesD [OF gap] st' st1 False by fastforce
  qed
qed

text \<open>The two ways a message is accepted.\<close>

lemma accepted_by_ratchet:
  assumes dec: "decrypt_with_ratchet c w st eh ct ad = (Ok p, st', w')"
  obtains h r q where "decrypt_header c st eh = Ok (h, r)" "(dh_pub h, hdr_n h) |\<notin>| received_messages st"
    "bind_st (commit_state_changes c h r st w) (\<lambda>_. track_received (dh_pub h, hdr_n h) q) = (Ok p, st', w')"
proof (cases "decrypt_header c st eh")
  case (Ok hr)
  obtain h r where hr: "hr = (h, r)" by (cases hr)
  have new: "(dh_pub h, hdr_n h) |\<notin>| received_messages st"
    using dec Ok hr by (auto simp: decrypt_with_ratchet_def Let_def split: if_splits)
  show thesis
  proof (cases "and_then (compute_message_key c st h r) (\<lambda>mk. decrypt_aead c mk ct ad)")
    case Ok': (Ok q)
    show thesis
      by (rule that [of h r q]) (use dec Ok Ok' hr new in \<open>simp_all add: decrypt_with_ratchet_def Let_def del: and_then_eq_Ok\<close>)
  qed (use dec Ok hr new in \<open>simp_all add: decrypt_with_ratchet_def Let_def\<close>)
qed (use dec in \<open>simp_all add: decrypt_with_ratchet_def\<close>)


lemma accepted_cases:
  assumes c: "ratchet_crypto c" and dec: "decrypt c w st eh ct ad = (Ok p, st', w')"
  obtains (store) k where "entry_opens c (mkskipped st) eh ct (concat_ad ad eh) k p"
      "st' = st\<lparr>mkskipped := AList.delete k (mkskipped st)\<rparr>" "w' = w"
  | (ratchet) h r st1 where "\<forall>k q. \<not> entry_opens c (mkskipped st) eh ct (concat_ad ad eh) k q"
      "decrypt_header c st eh = Ok (h, r)" "(dh_pub h, hdr_n h) |\<notin>| received_messages st"
      "commit_state_changes c h r st w = (Ok (), st1, w')"
      "st' = st1\<lparr>received_messages := finsert (dh_pub h, hdr_n h) (received_messages st1)\<rparr>"
proof -
  let ?ad = "concat_ad ad eh"
  have ad: "length ad \<le> MAX_AD_SIZE" using dec by (auto simp: decrypt_def split: if_splits)
  from try_skipped_cases [OF ratchet_cryptoD(2) [OF c], of w "mkskipped st" eh ct ?ad]
  show thesis
  proof (elim disjE exE conjE)
    fix k q assume "try_skipped_message_keys c w (mkskipped st) eh ct ?ad = Ok (AList.delete k (mkskipped st), Some q)"
      and opens: "entry_opens c (mkskipped st) eh ct ?ad k q"
    then show thesis using dec ad store by (simp add: decrypt_def Let_def)
  next
    assume "try_skipped_message_keys c w (mkskipped st) eh ct ?ad = Ok (mkskipped st, None)"
      and none: "\<forall>k q. \<not> entry_opens c (mkskipped st) eh ct ?ad k q"
    then have "decrypt_with_ratchet c w st eh ct ?ad = (Ok p, st', w')"
      using dec ad by (simp add: decrypt_def Let_def)
    then obtain h r q where hdr: "decrypt_header c st eh = Ok (h, r)" and new: "(dh_pub h, hdr_n h) |\<notin>| received_messages st"
      and run: "bind_st (commit_state_changes c h r st w) (\<lambda>_. track_received (dh_pub h, hdr_n h) q) = (Ok p, st', w')"
      by (rule accepted_by_ratchet)
    from run obtain st1 where "commit_state_changes c h r st w = (Ok (), st1, w')"
        "st' = st1\<lparr>received_messages := finsert (dh_pub h, hdr_n h) (received_messages st1)\<rparr>"
      by (elim bind_st_OkE) (auto simp: track_received_def split: if_splits)
    then show thesis using ratchet none hdr new by blast
  qed
qed

section \<open>Properties\<close>

text \<open>C16: A message is accepted in one of two ways. Either a stored key opens it: then exactly that key is
  removed, and nothing else changes. Or the receiving chain opens it: then it is recorded, and the
  same message coming again at once is refused as a duplicate and changes nothing, also after a
  gap or a DH ratchet, whatever the session and whoever sent the message.\<close>

theorem replayed_at_once_refused:
  assumes "ratchet_crypto c" and "decrypt c w st eh ct ad = (Ok p, st', w')"
  shows "(received_messages st' = received_messages st \<longrightarrow>
       (\<exists>k. entry_opens c (mkskipped st) eh ct (concat_ad ad eh) k p \<and>
            st' = st\<lparr>mkskipped := AList.delete k (mkskipped st)\<rparr> \<and> w' = w)) \<and>
    (received_messages st' \<noteq> received_messages st \<longrightarrow>
       (\<exists>h r. decrypt_header c st eh = Ok (h, r) \<and> (dh_pub h, hdr_n h) |\<in>| received_messages st') \<and>
       (\<forall>w2. decrypt c w2 st' eh ct ad = (Err DuplicateMessage, st', w2)))"
  using assms
proof (cases rule: accepted_cases)
  case (store k)
  moreover have "received_messages st' = received_messages st" by (simp add: store(2))
  ultimately show ?thesis by blast
next
  case (ratchet h r st1)
  obtain hk where hk: "hk_r st1 = Some hk" "decrypt_header_with_key c hk eh = Ok h"
    and rcv: "received_messages st1 = (if r then {||} else received_messages st)"
    and entries: "\<forall>k s. map_of (mkskipped st1) k = Some s \<longrightarrow> map_of (mkskipped st) k = Some s \<or>
       \<not> is_ok (decrypt_header_with_key c (fst k) eh) \<or> fst k = hk \<and> snd k < hdr_n h"
    by (rule commit_entries [OF ratchet(2,4)])
  have "length ad \<le> MAX_AD_SIZE" using assms(2) by (auto simp: decrypt_def split: if_splits)
  moreover have "\<not> entry_opens c (mkskipped st') eh ct (concat_ad ad eh) k q" for k q
  proof
    assume "entry_opens c (mkskipped st') eh ct (concat_ad ad eh) k q"
    then obtain s h2 where s: "map_of (mkskipped st1) k = Some s" and h2: "decrypt_header_with_key c (fst k) eh = Ok h2"
        "hdr_n h2 = snd k" and opens: "decrypt_aead c (skipped_mk s) ct (concat_ad ad eh) = Ok q"
      using ratchet(5) by (auto elim: entry_opensE)
    have "map_of (mkskipped st) k \<noteq> Some s" using ratchet(1) h2 opens entry_opensI by (metis prod.collapse)
    with entries [rule_format, OF s] h2(1) have "fst k = hk" "snd k < hdr_n h" by auto
    with h2 hk(2) show False by simp
  qed
  ultimately have "decrypt c w2 st' eh ct ad = (Err DuplicateMessage, st', w2)" for w2
    by (intro replay_refused [OF assms(1) _ _ hk(2)]) (simp_all add: ratchet(5) hk(1))
  moreover have rec: "(dh_pub h, hdr_n h) |\<in>| received_messages st'" by (simp add: ratchet(5))
  moreover have "received_messages st' \<noteq> received_messages st" using ratchet(3) rec by metis
  ultimately show ?thesis using ratchet(2) by blast
qed

theorem replayed_at_once_refused_witness:
  "\<exists>b eh ct b' w'. decrypt reference_crypto demo_world b eh ct [3] = (Ok [1, 2], b', w') \<and>
     decrypt reference_crypto w' b' eh ct [3] = (Err DuplicateMessage, b', w')"
proof -
  obtain a b eh ct a' where run: "conversation reference_crypto a b"
    "encrypt reference_crypto a [1, 2] [3] = (Ok (eh, ct), a')" "deliverable reference_crypto a b eh"
    by (rule demo_conversation)
  note link = conversation_linked [OF run(1) reference_crypto_ok]
  obtain b' w' where dec: "decrypt reference_crypto demo_world b eh ct [3] = (Ok [1, 2], b', w')"
    using linked_delivered [OF reference_crypto_ok link run(2,3)] by blast
  obtain ck where ck: "ck_s a = Some ck" using run(2) by (rule encrypt_OkD)
  have "\<not> entry_opens reference_crypto (mkskipped b) eh ct (concat_ad [3] eh) k q" for k q
    by (rule announced [OF reference_crypto_ok link run(2,3) ck]) blast
  then have "received_messages b' \<noteq> received_messages b"
    using replayed_at_once_refused [OF ratchet_crypto_ok [OF reference_crypto_ok] dec] by blast
  then have "decrypt reference_crypto w' b' eh ct [3] = (Err DuplicateMessage, b', w')"
    using replayed_at_once_refused [OF ratchet_crypto_ok [OF reference_crypto_ok] dec] by blast
  with dec show ?thesis by blast
qed

end
