(* ===== verification/Mailbox.thy ===== *)
theory Mailbox
  imports Chain_Delivery Progress Replay
begin

text \<open>
  The receiving chain against an abstract specification: a mailbox that knows nothing of keys,
  only which numbers it has stored, which it has recorded and how many keys it has taken. Messages
  of a chain may come in any order, and any number of times; the mailbox says which are accepted.
\<close>

section \<open>The mailbox\<close>

datatype verdict = Accepted | Repeated | Unreadable

record mailbox =
  mb_taken :: nat
  mb_stored :: "nat set"
  mb_seen :: "nat set"

definition empty_mailbox :: mailbox where
  "empty_mailbox = \<lparr> mb_taken = 0, mb_stored = {}, mb_seen = {} \<rparr>"

text \<open>A message whose key is stored uses it up. A recorded message is a duplicate. Any other is read
  from the chain if it is not behind it: the numbers in between are stored, and the chain moves by
  one, whatever the gap.\<close>

definition mailbox_step :: "mailbox \<Rightarrow> nat \<Rightarrow> verdict \<times> mailbox" where
  "mailbox_step mb i =
     (if i \<in> mb_stored mb then (Accepted, mb\<lparr>mb_stored := mb_stored mb - {i}\<rparr>)
      else if i \<in> mb_seen mb then (Repeated, mb)
      else if i < mb_taken mb then (Unreadable, mb)
      else (Accepted, mb\<lparr>mb_taken := mb_taken mb + 1, mb_stored := mb_stored mb \<union> {mb_taken mb..<i},
                         mb_seen := insert i (mb_seen mb)\<rparr>))"

fun verdicts :: "mailbox \<Rightarrow> nat list \<Rightarrow> verdict list" where
  "verdicts mb [] = []"
| "verdicts mb (i # idx) = (let (v, mb') = mailbox_step mb i in v # verdicts mb' idx)"

definition mailbox_ok :: "nat \<Rightarrow> mailbox \<Rightarrow> bool" where
  "mailbox_ok cnt mb \<longleftrightarrow> mb_seen mb \<subseteq> {..<cnt} \<and> mb_taken mb = card (mb_seen mb)"

lemma mailbox_simps [simp]:
  "mb_taken empty_mailbox = 0" "mb_stored empty_mailbox = {}" "mb_seen empty_mailbox = {}" "mailbox_ok cnt empty_mailbox"
  by (simp_all add: empty_mailbox_def mailbox_ok_def)

lemma mailbox_okD:
  assumes "mailbox_ok cnt mb"
  shows "mb_seen mb \<subseteq> {..<cnt}" "finite (mb_seen mb)" "mb_taken mb = card (mb_seen mb)" "mb_taken mb \<le> cnt"
  using assms card_mono [of "{..<cnt}" "mb_seen mb"] finite_subset [of "mb_seen mb" "{..<cnt}"]
  by (auto simp: mailbox_ok_def)

lemma mailbox_step_ok: "mailbox_ok cnt mb \<Longrightarrow> i < cnt \<Longrightarrow> mailbox_ok cnt (snd (mailbox_step mb i))"
  by (frule mailbox_okD(2)) (simp add: mailbox_step_def mailbox_ok_def card_insert_if)

text \<open>Without repetitions every message is accepted: what is behind the chain and not recorded is stored.\<close>

definition nothing_lost :: "nat set \<Rightarrow> mailbox \<Rightarrow> bool" where
  "nothing_lost got mb \<longleftrightarrow> mb_seen mb \<subseteq> got \<and> (\<forall>j < mb_taken mb. j \<in> got \<or> j \<in> mb_stored mb)"

lemma distinct_verdicts:
  "nothing_lost got mb \<Longrightarrow> distinct idx \<Longrightarrow> set idx \<inter> got = {} \<Longrightarrow> verdicts mb idx = map (\<lambda>_. Accepted) idx"
proof (induction idx arbitrary: got mb)
  case (Cons i idx)
  have "fst (mailbox_step mb i) = Accepted" and "nothing_lost (insert i got) (snd (mailbox_step mb i))"
    using Cons.prems by (auto simp: mailbox_step_def nothing_lost_def less_Suc_eq)
  with Cons.IH [of "insert i got" "snd (mailbox_step mb i)"] Cons.prems show ?case
    by (auto simp: case_prod_unfold Let_def)
qed simp

section \<open>The session as a mailbox\<close>

definition mirrors :: "crypto \<Rightarrow> bytes \<Rightarrow> bytes \<Rightarrow> nat \<Rightarrow> nat \<Rightarrow> bytes \<Rightarrow> (bytes \<times> u32) set \<Rightarrow> nat \<Rightarrow> mailbox \<Rightarrow> RatchetState \<Rightarrow> bool" where
  "mirrors c hk ck n0 cnt pub old r0 mb st \<longleftrightarrow>
     mailbox_ok cnt mb \<and>
     catching c hk ck n0 cnt pub old r0 ({i. i < mb_taken mb \<and> i \<notin> mb_stored mb} \<union> mb_seen mb) (mb_taken mb) st \<and>
     (\<forall>n. n0 \<le> unat n \<and> unat n < n0 + cnt \<longrightarrow>
        (map_of (mkskipped st) (hk, n) = None \<longleftrightarrow> unat n - n0 \<notin> mb_stored mb)) \<and>
     (\<forall>n. n0 \<le> unat n \<longrightarrow> ((pub, n) |\<in>| received_messages st \<longleftrightarrow> unat n - n0 \<in> mb_seen mb))"

text \<open>That a message does not open under the key of a later number.\<close>

definition keys_apart :: "crypto \<Rightarrow> bytes \<Rightarrow> nat \<Rightarrow> nat \<Rightarrow> bytes \<times> bytes \<Rightarrow> bytes \<times> bytes \<Rightarrow> bool" where
  "keys_apart c ck cnt i m s \<longleftrightarrow>
     (\<forall>k \<le> cnt. i < k \<longrightarrow> \<not> authentic c (message_key c k ck) (snd s) (concat_ad (snd m) (fst s)))"

primrec verdict_result :: "bytes \<Rightarrow> verdict \<Rightarrow> (bytes, RatchetError) result" where
  "verdict_result p Accepted = Ok p"
| "verdict_result p Repeated = Err DuplicateMessage"
| "verdict_result p Unreadable = Err DecryptionFailed"

lemma mirrors_stored:
  assumes c: "ratchet_crypto c" and st: "mirrors c hk ck n0 cnt pub old r0 mb st"
    and msg: "chain_msg c hk ck n0 pub i (p, ad) (eh, ct)" "no_foreign c hk old eh"
    and i: "i < cnt" "i \<in> mb_stored mb" and n: "unat (n :: u32) = n0 + i"
  shows "\<exists>st' w'. decrypt c w st eh ct ad = (Ok p, st', w') \<and>
    mirrors c hk ck n0 cnt pub old r0 (mb\<lparr>mb_stored := mb_stored mb - {i}\<rparr>) st'"
proof -
  have catch: "catching c hk ck n0 cnt pub old r0 ({i. i < mb_taken mb \<and> i \<notin> mb_stored mb} \<union> mb_seen mb) (mb_taken mb) st"
    and ok: "mailbox_ok cnt mb" using st by (simp_all add: mirrors_def)
  have "map_of (mkskipped st) (hk, n) \<noteq> None" using st i n by (simp add: mirrors_def)
  note entry = catching_entry [OF catch msg this n]
  let ?st' = "st\<lparr>mkskipped := AList.delete (hk, n) (mkskipped st)\<rparr>"
  have dec: "decrypt c w st eh ct ad = (Ok p, ?st', w)"
    by (rule decrypt_from_store [OF c entry(1,2)]) (rule entry(3))
  have inv: "ratchet_inv ?st'"
    using st_safeD decrypt_safe [OF c catchingD(1) [OF catch], of w eh ct ad] dec by metis
  let ?mb = "mb\<lparr>mb_stored := mb_stored mb - {i}\<rparr>"
  have same: "j = n" if "unat j = n0 + i" for j using that n by (simp add: word_unat_eq_iff)
  have lookup: "map_of (AList.delete (hk, n) (mkskipped st)) x = (if x = (hk, n) then None else map_of (mkskipped st) x)" for x
    by (simp add: delete_conv')
  have domain: "dom (map_of (AList.delete (hk, n) (mkskipped st))) \<subseteq> old \<union> {hk} \<times> {n. n0 \<le> unat n \<and> unat n < n0 + cnt}"
    by (rule order_trans [OF _ catchingD(6) [OF catch]]) (auto simp: lookup split: if_splits)
  have kept: "map_of (mkskipped st) (hk, j) \<noteq> None \<and> j \<noteq> n"
    if "n0 \<le> unat j" "unat j < n0 + mb_taken mb" "unat j - n0 < mb_taken mb \<longrightarrow> unat j - n0 \<in> mb_stored mb \<and> unat j - n0 \<noteq> i" for j
    using that st mailbox_okD(4) [OF ok] n by (auto simp: mirrors_def)
  have "card ({i. i < mb_taken mb \<and> i \<notin> mb_stored mb} \<union> mb_seen mb) \<le>
      card ({i. i < mb_taken ?mb \<and> i \<notin> mb_stored ?mb} \<union> mb_seen ?mb)"
    using mailbox_okD(2) [OF ok] by (intro card_mono) auto
  then have "fcard (received_messages st) \<le> r0 + card ({i. i < mb_taken ?mb \<and> i \<notin> mb_stored ?mb} \<union> mb_seen ?mb)"
    using catchingD(10) [OF catch] by linarith
  then have "catching c hk ck n0 cnt pub old r0 ({i. i < mb_taken ?mb \<and> i \<notin> mb_stored ?mb} \<union> mb_seen ?mb) (mb_taken ?mb) ?st'"
    unfolding catching_def using inv catchingD(2-5) [OF catch] catchingD(7,9) [OF catch] kept
    by (simp add: lookup domain n) blast
  moreover have "map_of (mkskipped ?st') (hk, j) = None \<longleftrightarrow> unat j - n0 \<notin> mb_stored ?mb"
    if "n0 \<le> unat j" "unat j < n0 + cnt" for j
  proof (cases "j = n")
    case False
    then have "unat j - n0 \<noteq> i" using same [of j] that(1) by auto
    then show ?thesis using st that False by (simp add: lookup mirrors_def)
  qed (use n in \<open>simp add: lookup\<close>)
  moreover have "mailbox_ok cnt ?mb" using ok by (simp add: mailbox_ok_def)
  moreover have "(pub, j) |\<in>| received_messages ?st' \<longleftrightarrow> unat j - n0 \<in> mb_seen ?mb" if "n0 \<le> unat j" for j
    using st that by (simp add: mirrors_def)
  ultimately have "mirrors c hk ck n0 cnt pub old r0 ?mb ?st'" unfolding mirrors_def by blast
  with dec show ?thesis by blast
qed

lemma mirrors_repeated:
  assumes c: "ratchet_crypto c" and st: "mirrors c hk ck n0 cnt pub old r0 mb st"
    and msg: "chain_msg c hk ck n0 pub i (p, ad) (eh, ct)" "no_foreign c hk old eh"
    and i: "i < cnt" "i \<notin> mb_stored mb"
  obtains h where "length ad \<le> MAX_AD_SIZE" "hk_r st = Some hk" "decrypt_header_with_key c hk eh = Ok h"
    "unat (hdr_n h) = n0 + i" "dh_pub h = pub" "\<forall>k q. \<not> entry_opens c (mkskipped st) eh ct (concat_ad ad eh) k q"
    "(dh_pub h, hdr_n h) |\<in>| received_messages st \<longleftrightarrow> i \<in> mb_seen mb"
proof -
  have catch: "catching c hk ck n0 cnt pub old r0 ({i. i < mb_taken mb \<and> i \<notin> mb_stored mb} \<union> mb_seen mb) (mb_taken mb) st"
    using st by (simp add: mirrors_def)
  obtain h where h: "decrypt_header_with_key c hk eh = Ok h" "dh_pub h = pub" "unat (hdr_n h) = n0 + i"
      and ad: "length ad \<le> MAX_AD_SIZE"
    using msg(1) by (auto simp: chain_msg_def)
  have "map_of (mkskipped st) (hk, hdr_n h) = None" using st i h(3) by (simp add: mirrors_def)
  then have "\<not> entry_opens c (mkskipped st) eh ct (concat_ad ad eh) k q" for k q
    using catching_opens_only [OF catch msg(2) h(1)] by (metis entry_opensE option.distinct(1))
  moreover have "(dh_pub h, hdr_n h) |\<in>| received_messages st \<longleftrightarrow> i \<in> mb_seen mb"
    using st h by (simp add: mirrors_def)
  ultimately show thesis using that ad catchingD(2) [OF catch] h by blast
qed

lemma mirrors_unreadable:
  assumes c: "ratchet_crypto c" and st: "mirrors c hk ck n0 cnt pub old r0 mb st" and lim: "catch_limits n0 cnt old r0"
    and msg: "chain_msg c hk ck n0 pub i (p, ad) (eh, ct)" "no_foreign c hk old eh"
    and apart: "keys_apart c ck cnt i (p, ad) (eh, ct)"
    and i: "i < cnt" "i \<notin> mb_stored mb" "i \<notin> mb_seen mb" "i < mb_taken mb"
  shows "decrypt c w st eh ct ad = (Err DecryptionFailed, st, w)"
proof -
  obtain h where h: "length ad \<le> MAX_AD_SIZE" "hk_r st = Some hk" "decrypt_header_with_key c hk eh = Ok h"
    "unat (hdr_n h) = n0 + i" "dh_pub h = pub" "\<forall>k q. \<not> entry_opens c (mkskipped st) eh ct (concat_ad ad eh) k q"
    "(dh_pub h, hdr_n h) |\<in>| received_messages st \<longleftrightarrow> i \<in> mb_seen mb"
    by (rule mirrors_repeated [OF c st msg i(1,2)])
  have catch: "catching c hk ck n0 cnt pub old r0 ({i. i < mb_taken mb \<and> i \<notin> mb_stored mb} \<union> mb_seen mb) (mb_taken mb) st"
    and ok: "mailbox_ok cnt mb" using st by (simp_all add: mirrors_def)
  note d = catchingD [OF catch] and taken = mailbox_okD(4) [OF ok]
  have n: "unat (hdr_n h) \<le> unat (nr st)" "unat (nr st) + 1000 < 2 ^ 32"
    using h(4) i(4) d(5) taken lim by (simp_all add: catch_limits_def)
  then have key: "compute_message_key c st h False = Ok (message_key c (mb_taken mb) ck)"
    using compute_message_key_chain [OF d(3) n(2), of h] by (simp add: message_key_shift)
  have refused: "decrypt_aead c (message_key c (mb_taken mb) ck) ct (concat_ad ad eh) = Err DecryptionFailed"
    using not_authentic [OF ratchet_cryptoD(2) [OF c]] apart i(4) taken by (simp add: keys_apart_def)
  have "decrypt_header c st eh = Ok (h, False)" by (simp add: decrypt_header_def h(2,3))
  then show ?thesis
    using h(1,7) i(3) key refused try_skipped_miss [OF ratchet_cryptoD(2) [OF c] h(6) [rule_format], of w]
    by (simp add: decrypt_def decrypt_with_ratchet_def Let_def)
qed

lemma mirrors_ahead:
  assumes c: "ratchet_crypto c" and st: "mirrors c hk ck n0 cnt pub old r0 mb st" and lim: "catch_limits n0 cnt old r0"
    and msg: "chain_msg c hk ck n0 pub i (p, ad) (eh, ct)" "no_foreign c hk old eh"
    and i: "i < cnt" "i \<notin> mb_stored mb" "i \<notin> mb_seen mb" "\<not> i < mb_taken mb"
  shows "\<exists>st' w'. decrypt c w st eh ct ad = (Ok p, st', w') \<and>
    mirrors c hk ck n0 cnt pub old r0 (snd (mailbox_step mb i)) st'"
proof -
  let ?got = "{i. i < mb_taken mb \<and> i \<notin> mb_stored mb} \<union> mb_seen mb"
  let ?mb = "snd (mailbox_step mb i)"
  have catch: "catching c hk ck n0 cnt pub old r0 ?got (mb_taken mb) st" and ok: "mailbox_ok cnt mb"
    using st by (simp_all add: mirrors_def)
  have mb: "mb_taken ?mb = Suc (mb_taken mb)" "mb_stored ?mb = mb_stored mb \<union> {mb_taken mb..<i}" "mb_seen ?mb = insert i (mb_seen mb)"
    using i by (simp_all add: mailbox_step_def)
  have got': "{j. j < mb_taken ?mb \<and> j \<notin> mb_stored ?mb} \<union> mb_seen ?mb = insert i ?got"
    using i(4) by (auto simp: mb less_Suc_eq)
  have new: "i \<notin> ?got" and got: "?got \<subseteq> {..<cnt}" using i mailbox_okD(1,4) [OF ok] by auto
  have missing: "map_of (mkskipped st) (hk, n) = None" if "unat n = n0 + i" for n
    using st i that by (simp add: mirrors_def)
  have "n0 + i < 2 ^ 32" using lim i(1) by (simp add: catch_limits_def)
  then obtain n :: u32 where n: "unat n = n0 + i" by (rule unat_u32)
  obtain m t where dec: "decrypt c w st eh ct ad =
       (Ok p, st\<lparr>mkskipped := m, ck_r := Some (chain_key c 1 (chain_key c (mb_taken mb) ck)), nr := nr st + 1,
                received_messages := finsert (pub, n) (received_messages st)\<rparr>, w\<lparr>ticks := t\<rparr>)"
    and skip: "skip_loop c hk n (nr st) (chain_key c (mb_taken mb) ck) (mkskipped st) w = (Ok m, w\<lparr>ticks := t\<rparr>)"
    by (rule catching_decrypts [OF c catch lim i(1) new got msg n missing [OF n]]) (use i in auto)
  obtain st' w' where dec': "decrypt c w st eh ct ad = (Ok p, st', w')"
      and st': "catching c hk ck n0 cnt pub old r0 (insert i ?got) (Suc (mb_taken mb)) st'"
    using catching_ahead [OF c catch lim i(1) new got msg missing, of w] by blast
  have eqs: "mkskipped st' = m" "received_messages st' = finsert (pub, n) (received_messages st)"
    using dec dec' by auto
  have le: "mb_taken mb \<le> i" using i(4) by simp
  note store = catching_skip [OF catch lim skip n i(1) le]
  have "map_of m (hk, j) = None \<longleftrightarrow> unat j - n0 \<notin> mb_stored ?mb" if "n0 \<le> unat j" "unat j < n0 + cnt" for j
  proof (cases "n0 + mb_taken mb \<le> unat j \<and> unat j < n0 + i")
    case True
    then show ?thesis using store(3) [of j] that by (auto simp: mb)
  next
    case False
    then have "map_of m (hk, j) = map_of (mkskipped st) (hk, j)" by (intro store(4)) auto
    moreover have "unat j - n0 \<notin> {mb_taken mb..<i}" using False that by auto
    ultimately show ?thesis using st that by (simp add: mirrors_def mb)
  qed
  moreover have "(pub, j) |\<in>| received_messages st' \<longleftrightarrow> unat j - n0 \<in> mb_seen ?mb" if "n0 \<le> unat j" for j
    using st that n by (auto simp: mirrors_def mb eqs word_unat_eq_iff)
  ultimately have "mirrors c hk ck n0 cnt pub old r0 ?mb st'"
    using st' mailbox_step_ok [OF ok i(1)] unfolding mirrors_def got' unfolding mb(1) eqs(1) by blast
  with dec' show ?thesis by blast
qed

text \<open>The simulation: one call of \<^verbatim>\<open>decrypt\<close> is one step of the mailbox.\<close>

lemma mirrors_step:
  assumes c: "ratchet_crypto c" and st: "mirrors c hk ck n0 cnt pub old r0 mb st" and lim: "catch_limits n0 cnt old r0"
    and msg: "chain_msg c hk ck n0 pub i m s" "no_foreign c hk old (fst s)" and i: "i < cnt"
    and apart: "fst (mailbox_step mb i) = Unreadable \<Longrightarrow> keys_apart c ck cnt i m s"
  shows "\<exists>st' w'. decrypt c w st (fst s) (snd s) (snd m) = (verdict_result (fst m) (fst (mailbox_step mb i)), st', w') \<and>
    mirrors c hk ck n0 cnt pub old r0 (snd (mailbox_step mb i)) st'"
proof -
  obtain p ad eh ct where eqs: "m = (p, ad)" "s = (eh, ct)" by fastforce
  have msg': "chain_msg c hk ck n0 pub i (p, ad) (eh, ct)" "no_foreign c hk old eh"
    using msg by (simp_all add: eqs)
  consider (stored) "i \<in> mb_stored mb" | (repeated) "i \<notin> mb_stored mb" "i \<in> mb_seen mb"
    | (unreadable) "i \<notin> mb_stored mb" "i \<notin> mb_seen mb" "i < mb_taken mb"
    | (ahead) "i \<notin> mb_stored mb" "i \<notin> mb_seen mb" "\<not> i < mb_taken mb" by blast
  then show ?thesis
  proof cases
    case stored
    have "n0 + i < 2 ^ 32" using lim i by (simp add: catch_limits_def)
    then obtain n :: u32 where "unat n = n0 + i" by (rule unat_u32)
    with mirrors_stored [OF c st msg' i stored, of n w] stored show ?thesis by (simp add: mailbox_step_def eqs)
  next
    case repeated
    obtain h where h: "length ad \<le> MAX_AD_SIZE" "hk_r st = Some hk" "decrypt_header_with_key c hk eh = Ok h"
      "\<forall>k q. \<not> entry_opens c (mkskipped st) eh ct (concat_ad ad eh) k q" "(dh_pub h, hdr_n h) |\<in>| received_messages st"
      by (rule mirrors_repeated [OF c st msg' i repeated(1)]) (use repeated(2) in blast)
    have "decrypt c w st eh ct ad = (Err DuplicateMessage, st, w)"
      by (rule replay_refused [OF c h(1-3,5)]) (use h(4) in blast)
    with repeated st show ?thesis by (auto simp: mailbox_step_def eqs)
  next
    case unreadable
    then have "keys_apart c ck cnt i (p, ad) (eh, ct)" using apart by (simp add: mailbox_step_def eqs)
    with mirrors_unreadable [OF c st lim msg' _ i unreadable] st unreadable show ?thesis
      by (auto simp: mailbox_step_def eqs)
  next
    case ahead
    with mirrors_ahead [OF c st lim msg' i ahead, of w] show ?thesis by (auto simp: mailbox_step_def eqs)
  qed
qed

lemma mirrors_receive:
  assumes c: "ratchet_crypto c" and lim: "catch_limits n0 cnt old r0"
    and msgs: "\<And>i. i < cnt \<Longrightarrow> chain_msg c hk ck n0 pub i (ms ! i) (sealed ! i) \<and>
       no_foreign c hk old (fst (sealed ! i))"
    and st: "mirrors c hk ck n0 cnt pub old r0 mb st" and "set idx \<subseteq> {..<cnt}"
    and "Unreadable \<in> set (verdicts mb idx) \<longrightarrow> (\<forall>i < cnt. keys_apart c ck cnt i (ms ! i) (sealed ! i))"
  shows "receive_all c w st (map (\<lambda>i. (snd (ms ! i), sealed ! i)) idx) =
    map2 (\<lambda>i. verdict_result (fst (ms ! i))) idx (verdicts mb idx)"
  using st assms(5,6)
proof (induction idx arbitrary: mb st w)
  case (Cons i idx)
  have i: "i < cnt" using Cons.prems by simp
  have apart: "fst (mailbox_step mb i) = Unreadable \<Longrightarrow> keys_apart c ck cnt i (ms ! i) (sealed ! i)"
    and rest: "Unreadable \<in> set (verdicts (snd (mailbox_step mb i)) idx) \<longrightarrow>
      (\<forall>i < cnt. keys_apart c ck cnt i (ms ! i) (sealed ! i))"
    using Cons.prems(3) i by (auto simp: case_prod_unfold Let_def)
  obtain st' w' where dec: "decrypt c w st (fst (sealed ! i)) (snd (sealed ! i)) (snd (ms ! i)) =
      (verdict_result (fst (ms ! i)) (fst (mailbox_step mb i)), st', w')"
    and st': "mirrors c hk ck n0 cnt pub old r0 (snd (mailbox_step mb i)) st'"
    using mirrors_step [OF c Cons.prems(1) lim _ _ i apart] msgs [OF i] by blast
  show ?case
    using Cons.IH [OF st' _ rest] Cons.prems(2) dec by (cases "sealed ! i") (simp add: case_prod_unfold Let_def)
qed simp

lemma catching_mirrors:
  assumes "catching c hk ck n0 cnt pub old r0 {} 0 st" and "\<forall>n. n0 \<le> unat n \<longrightarrow> map_of (mkskipped st) (hk, n) = None"
  shows "mirrors c hk ck n0 cnt pub old r0 empty_mailbox st"
  using assms catchingD(9) [OF assms(1)] by (auto simp: mirrors_def)

section \<open>A chain that starts with a DH ratchet\<close>

text \<open>The first message of a new chain to arrive, whichever it is, is the first step of an empty mailbox.\<close>

lemma ratchet_store:
  assumes gap: "store_chain_gap c target b w = (Ok (), b\<lparr>mkskipped := m\<rparr>, w')" and c: "ratchet_crypto c" and inv: "ratchet_inv b"
    and room: "length (mkskipped b) + (unat target - unat (nr b)) \<le> MAX_SKIPPED_KEYS"
  shows "distinct_keys m" and "length m \<le> length (mkskipped b) + (unat target - unat (nr b))"
proof -
  have same: "m' = m" if "b\<lparr>mkskipped := m'\<rparr> = b\<lparr>mkskipped := m\<rparr>" for m'
    using arg_cong [OF that, of mkskipped] by simp
  from store_chain_gap_cases [OF c inv, of target w] have "wf_skipped m"
  proof (elim disjE exE conjE)
    fix m1 t assume "store_chain_gap c target b w = (Ok (), b\<lparr>mkskipped := m1\<rparr>, w\<lparr>ticks := t\<rparr>)" and wf: "wf_skipped m1"
    then have "b\<lparr>mkskipped := m1\<rparr> = b\<lparr>mkskipped := m\<rparr>" using gap by (metis prod.inject)
    then show ?thesis using same wf by metis
  qed (use gap in simp_all)
  then show "distinct_keys m" by (rule wf_skippedD)
  have dist: "distinct_keys (mkskipped b)" using wf_stateD(11) [OF ratchet_invD(1) [OF inv]] by (rule wf_skippedD)
  show "length m \<le> length (mkskipped b) + (unat target - unat (nr b))"
  proof (cases "ck_r b")
    case None
    then have "b\<lparr>mkskipped := mkskipped b\<rparr> = b\<lparr>mkskipped := m\<rparr>" using gap by (simp add: store_chain_gap_def)
    then show ?thesis using same [of "mkskipped b"] by simp
  next
    case (Some ck)
    then obtain hk where "hk_r b = Some hk" using ratchet_invD(5) [OF inv] by auto
    then obtain v where "skip_loop c hk target (nr b) ck (mkskipped b) w = (Ok m, v)"
      by (rule store_chain_gap_skips [OF gap _ Some])
    then show ?thesis using skip_loop_complete room dist by blast
  qed
qed

lemma ratchet_mirrors:
  assumes ok: "crypto_ok c" and l: "lead c a b" and enc: "encrypt c a p ad = (Ok (eh, ct), a')" and guard: "deliverable c a b eh"
    and i: "unat (ns a) < cnt"
    and room: "length (mkskipped b) + (unat (pn a) - unat (nr b)) + cnt \<le> MAX_SKIPPED_KEYS"
  obtains b' w' ck old where "decrypt c w b eh ct ad = (Ok p, b', w')" "lead c b' a'"
    "ck_s a = Some (chain_key c (unat (ns a)) ck)"
    "kdf_rk_he c (rk b) (x25519_dh c (fst (dh_pair b)) (snd (dh_pair a))) = Ok (rk a, ck, nhk_s a)"
    "mirrors c (nhk_r b) ck 0 cnt (snd (dh_pair a)) old 0 (snd (mailbox_step empty_mailbox (unat (ns a)))) b'"
    "finite old" "card old \<le> length (mkskipped b) + (unat (pn a) - unat (nr b))" "fst ` old \<subseteq> set (held_keys b)"
proof (rule decrypts_by_ratchet [OF ok l enc guard, of w])
  let ?hk = "nhk_r b" and ?n = "ns a" and ?i = "unat (ns a)"
  fix b' w' ck m m' dh_s rk2 cks2 nhks t w1 w2
  assume dec: "decrypt c w b eh ct ad = (Ok p, b', w')" and l': "lead c b' a'"
    and b': "b' = b\<lparr>pn := ns b, ns := 0, nr := 1, hk_s := Some (nhk_s b), hk_r := Some ?hk,
            dh_remote := Some (snd (dh_pair a)), rk := rk2, ck_r := Some (chain_key c 1 ck),
            nhk_r := nhk_s a, ck_s := Some cks2, nhk_s := nhks,
            dh_pair := (dh_s, x25519_base c dh_s), mkskipped := m',
            received_messages := {|(snd (dh_pair a), ?n)|}\<rparr>"
    and gap: "store_chain_gap c (pn a) b w = (Ok (), b\<lparr>mkskipped := m\<rparr>, w\<lparr>ticks := t\<rparr>)"
    and skip: "skip_loop c ?hk ?n 0 ck m w1 = (Ok m', w2)"
    and ck: "ck_s a = Some (chain_key c ?i ck)"
      "kdf_rk_he c (rk b) (x25519_dh c (fst (dh_pair b)) (snd (dh_pair a))) = Ok (rk a, ck, nhk_s a)"
  let ?old = "dom (map_of m)" and ?mb = "snd (mailbox_step empty_mailbox ?i)"
  have fresh: "?hk \<notin> set (held_keys b)" using guard by (simp add: deliverable_def)
  have held: "h \<in> set (held_keys b)" if "map_of m (h, n) \<noteq> None" for h n
    using store_chain_gap_new [OF gap that] held_keysI [of b] by blast
  have unheld: "map_of m (?hk, n) = None" for n using held fresh by blast
  have inv: "ratchet_inv b" "ratchet_inv b'" using leadD(2) [OF l] leadD(1) [OF l'] .
  have "length (mkskipped b) + (unat (pn a) - unat (nr b)) \<le> MAX_SKIPPED_KEYS" using room by simp
  note store = ratchet_store [OF gap ratchet_crypto_ok [OF ok] inv(1) this]
  have card: "card ?old = length m" using hm.len_card [OF store(1)] by simp
  have "length m + (unat ?n - unat (0 :: u32)) \<le> MAX_SKIPPED_KEYS" using store(2) room i by simp
  note full = skip_loop_complete [OF skip this store(1)]
  have mb: "mb_taken ?mb = 1" "mb_stored ?mb = {..<?i}" "mb_seen ?mb = {?i}"
    by (auto simp: mailbox_step_def)
  have got: "{j. j < mb_taken ?mb \<and> j \<notin> mb_stored ?mb} \<union> mb_seen ?mb = {?i}" unfolding mb by auto
  have stored: "map_of m' (?hk, j) = None \<longleftrightarrow> unat j \<notin> {..<?i}" for j
  proof (cases "j < ?n")
    case True
    then show ?thesis using full by (auto simp: word_less_nat_alt)
  next
    case False
    then have "\<forall>n. 0 \<le> n \<and> n < ?n \<longrightarrow> (?hk, j) \<noteq> (?hk, n)" by auto
    then have "map_of m' (?hk, j) = None" using full unheld by metis
    with False show ?thesis by (simp add: word_less_nat_alt)
  qed
  have key: "skipped_mk s = message_key c (unat j) ck" if "map_of m' (?hk, j) = Some s" for j s
    using skip_loop_sound [OF skip that] unheld by auto
  have domain: "dom (map_of m') \<subseteq> ?old \<union> {?hk} \<times> {n. 0 \<le> unat n \<and> unat n < 0 + cnt}"
  proof
    fix x assume "x \<in> dom (map_of m')"
    then obtain s where "map_of m' x = Some s" by auto
    from skip_loop_sound [OF skip this] show "x \<in> ?old \<union> {?hk} \<times> {n. 0 \<le> unat n \<and> unat n < 0 + cnt}"
      using i by (auto simp: word_less_nat_alt)
  qed
  have "catching c ?hk ck 0 cnt (snd (dh_pair a)) ?old 0 {?i} 1 b'"
    unfolding catching_def using inv(2) domain key stored i
    by (simp add: b' fcard_finsert_if fcard_fempty)
  moreover have "mailbox_ok cnt ?mb" using i by (simp add: mailbox_ok_def mb)
  ultimately have "mirrors c ?hk ck 0 cnt (snd (dh_pair a)) ?old 0 ?mb b'"
    unfolding mirrors_def got unfolding mb using stored by (simp add: b' word_unat_eq_iff)
  then show thesis
    by (rule that [OF dec l' ck]) (use store(2) card held in \<open>force simp: finite_dom_map_of\<close>)+
qed

text \<open>The state in which the \<open>i\<close>-th message of a batch was encrypted.\<close>

lemma send_all_split:
  assumes "send_all c a ms = (Ok sealed, a')" and "i < length ms"
  obtains ai ai' where "send_all c a (take i ms) = (Ok (take i sealed), ai)"
    "encrypt c ai (fst (ms ! i)) (snd (ms ! i)) = (Ok (sealed ! i), ai')"
proof -
  have "\<exists>ai ai'. send_all c a (take i ms) = (Ok (take i sealed), ai) \<and>
      encrypt c ai (fst (ms ! i)) (snd (ms ! i)) = (Ok (sealed ! i), ai')"
    using assms
  proof (induction ms arbitrary: a sealed i)
    case (Cons m ms)
    obtain p ad where m: "m = (p, ad)" by (cases m)
    obtain eh ct a1 rest where enc: "encrypt c a p ad = (Ok (eh, ct), a1)" and rest: "send_all c a1 ms = (Ok rest, a')"
        and sealed: "sealed = (eh, ct) # rest"
      using Cons.prems(1) unfolding m by (rule send_all_ConsE)
    show ?case
    proof (cases i)
      case 0
      with enc show ?thesis by (simp add: m sealed)
    next
      case (Suc k)
      with Cons.prems(2) Cons.IH [OF rest, of k] obtain ai ai' where
        "send_all c a1 (take k ms) = (Ok (take k rest), ai)" "encrypt c ai (fst (ms ! k)) (snd (ms ! k)) = (Ok (rest ! k), ai')"
        by auto
      with Suc enc show ?thesis by (auto simp: m sealed)
    qed
  qed simp
  with that show thesis by blast
qed

lemma send_all_linked: "crypto_ok c \<Longrightarrow> linked c a b \<Longrightarrow> send_all c a ms = (Ok sealed, a') \<Longrightarrow> linked c a' b"
proof (induction ms arbitrary: a sealed)
  case (Cons m ms)
  obtain p ad where m: "m = (p, ad)" by (cases m)
  from Cons.prems(3) obtain eh ct a1 rest where "encrypt c a p ad = (Ok (eh, ct), a1)" "send_all c a1 ms = (Ok rest, a')"
    unfolding m by (rule send_all_ConsE)
  with Cons show ?case by (blast intro: linked_send)
qed simp

text \<open>A receiver that has to ratchet first: whichever message of the new chain arrives first, from
  then on the session answers as the mailbox does.\<close>

lemma new_chain_mirrors:
  assumes ok: "crypto_ok c" and l: "lead c a b" and first: "ns a = 0" and send: "send_all c a ms = (Ok sealed, a')"
    and i: "i < length ms" and ai: "send_all c a (take i ms) = (Ok front, ai)" and guard: "deliverable c ai b (fst (sealed ! i))"
    and apart: "length (mkskipped b) + (unat (pn a) - unat (nr b)) > 0 \<longrightarrow>
       (\<forall>s \<in> set sealed. \<forall>hk \<in> set (held_keys b). \<not> is_ok (decrypt_header_with_key c hk (fst s)))"
    and room: "length (mkskipped b) + (unat (pn a) - unat (nr b)) + 2 * length ms \<le> MAX_SKIPPED_KEYS"
  obtains b' w' hk ck pub old where
    "decrypt c w b (fst (sealed ! i)) (snd (sealed ! i)) (snd (ms ! i)) = (Ok (fst (ms ! i)), b', w')" "ck_s a = Some ck"
    "mirrors c hk ck 0 (length ms) pub old 0 (snd (mailbox_step empty_mailbox i)) b'" "catch_limits 0 (length ms) old 0"
    "\<forall>j < length ms. chain_msg c hk ck 0 pub j (ms ! j) (sealed ! j) \<and> no_foreign c hk old (fst (sealed ! j))"
proof -
  let ?cnt = "length ms" and ?mb = "snd (mailbox_step empty_mailbox i)"
  note inv = leadD(1,2) [OF l]
  obtain ai' where enc': "encrypt c ai (fst (ms ! i)) (snd (ms ! i)) = (Ok (sealed ! i), ai')"
    using send_all_split [OF send i] ai by (metis prod.inject)
  then have enc: "encrypt c ai (fst (ms ! i)) (snd (ms ! i)) = (Ok (fst (sealed ! i), snd (sealed ! i)), ai')" by simp
  note st = send_all_state [OF ok inv(1) ai]
  have n: "unat (ns ai) = i" and same: "pn ai = pn a" "dh_pair ai = dh_pair a" "hk_s ai = hk_s a"
    using st first i by simp_all
  have "\<not> lead c b ai"
  proof
    assume "lead c b ai"
    then have "hk_r b = hk_s ai" using ratchet_invD(4) [of ai] st leadD(7) [OF l] leader_can_send [OF l]
      by (auto simp: lead_def follows_def)
    then have "nhk_r b \<in> set (held_keys b)" using same(3) leadD(7) [OF l] by (intro held_keysI(2)) simp
    with guard show False by (simp add: deliverable_def)
  qed
  then have li: "lead c ai b"
    using send_all_linked [OF ok _ ai, of b] l by (auto simp: linked_def)
  have room': "length (mkskipped b) + (unat (pn ai) - unat (nr b)) + ?cnt \<le> MAX_SKIPPED_KEYS" using room same by simp
  have ni: "unat (ns ai) < ?cnt" using n i by simp
  obtain b' w' ck old where dec: "decrypt c w b (fst (sealed ! i)) (snd (sealed ! i)) (snd (ms ! i)) = (Ok (fst (ms ! i)), b', w')"
    and kdf: "kdf_rk_he c (rk b) (x25519_dh c (fst (dh_pair b)) (snd (dh_pair a))) = Ok (rk ai, ck, nhk_s ai)"
    and mirrors: "mirrors c (nhk_r b) ck 0 ?cnt (snd (dh_pair a)) old 0 ?mb b'"
    and old: "finite old" "card old \<le> length (mkskipped b) + (unat (pn a) - unat (nr b))" "fst ` old \<subseteq> set (held_keys b)"
    by (rule ratchet_mirrors [OF ok li enc guard ni room', of w, unfolded same n])
  have ck: "ck_s a = Some ck" using l kdf first by (auto simp: lead_def)
  have hk: "hk_s a = Some (nhk_r b)" by (rule leadD(7) [OF l])
  note msgs = send_all_msgs [OF ok inv(1) ck hk send, unfolded first]
  have foreign: "no_foreign c (nhk_r b) old (fst (sealed ! j))" if "j < ?cnt" for j
  proof (cases "old = {}")
    case False
    then have "card old > 0" using old(1) by (simp add: card_gt_0_iff)
    then show ?thesis
      using apart old(2,3) msgs that unfolding no_foreign_def by (fastforce simp: image_subset_iff)
  qed (simp add: no_foreign_def)
  have lim: "catch_limits 0 ?cnt old 0"
    using old(1,2) room by (simp add: catch_limits_def MAX_SKIPPED_KEYS_def MAX_RECEIVED_TRACKING_def)
  show thesis
    by (rule that [OF dec ck mirrors lim]) (use msgs foreign in simp)
qed

lemma new_chain_refines_mailbox:
  assumes ok: "crypto_ok c" and "lead c a b" and "ns a = 0" and "send_all c a ms = (Ok sealed, a')"
    and i: "i < length ms" and "send_all c a (take i ms) = (Ok front, ai)" and "deliverable c ai b (fst (sealed ! i))"
    and "length (mkskipped b) + (unat (pn a) - unat (nr b)) > 0 \<longrightarrow>
       (\<forall>s \<in> set sealed. \<forall>hk \<in> set (held_keys b). \<not> is_ok (decrypt_header_with_key c hk (fst s)))"
    and "length (mkskipped b) + (unat (pn a) - unat (nr b)) + 2 * length ms \<le> MAX_SKIPPED_KEYS"
    and idx: "set idx \<subseteq> {..<length ms}"
    and late: "Unreadable \<in> set (verdicts empty_mailbox (i # idx)) \<longrightarrow>
       (\<forall>ck. ck_s a = Some ck \<longrightarrow> (\<forall>i < length ms. keys_apart c ck (length ms) i (ms ! i) (sealed ! i)))"
  shows "receive_all c w b (map (\<lambda>i. (snd (ms ! i), sealed ! i)) (i # idx)) =
      map2 (\<lambda>i. verdict_result (fst (ms ! i))) (i # idx) (verdicts empty_mailbox (i # idx))"
proof (rule new_chain_mirrors [OF assms(1-9), of w])
  let ?mb = "snd (mailbox_step empty_mailbox i)"
  fix b' w' hk ck pub old
  assume dec: "decrypt c w b (fst (sealed ! i)) (snd (sealed ! i)) (snd (ms ! i)) = (Ok (fst (ms ! i)), b', w')"
    and ck: "ck_s a = Some ck" and mirrors: "mirrors c hk ck 0 (length ms) pub old 0 ?mb b'" and lim: "catch_limits 0 (length ms) old 0"
    and msgs: "\<forall>j < length ms. chain_msg c hk ck 0 pub j (ms ! j) (sealed ! j) \<and> no_foreign c hk old (fst (sealed ! j))"
  have accepted: "fst (mailbox_step empty_mailbox i) = Accepted" by (simp add: mailbox_step_def)
  have "receive_all c w' b' (map (\<lambda>i. (snd (ms ! i), sealed ! i)) idx) =
      map2 (\<lambda>i. verdict_result (fst (ms ! i))) idx (verdicts ?mb idx)"
    by (rule mirrors_receive [OF ratchet_crypto_ok [OF ok] lim _ mirrors idx])
      (use msgs late ck in \<open>simp_all add: case_prod_unfold Let_def\<close>)
  with dec accepted show ?thesis by (cases "sealed ! i") (simp add: case_prod_unfold Let_def)
qed

text \<open>Behind the chain a message is refused whatever its ciphertext: should it open under the chain key,
  the commit fails.\<close>

lemma mirrors_behind:
  assumes c: "ratchet_crypto c" and st: "mirrors c hk ck n0 cnt pub old r0 mb st" and lim: "catch_limits n0 cnt old r0"
    and msg: "chain_msg c hk ck n0 pub i (p, ad) (eh, ct)" "no_foreign c hk old eh"
    and i: "i < cnt" "i \<notin> mb_stored mb" "i < mb_taken mb"
  obtains e st' w' where "decrypt c w st eh ct ad = (Err e, st', w')"
proof -
  obtain h where h: "length ad \<le> MAX_AD_SIZE" "hk_r st = Some hk" "decrypt_header_with_key c hk eh = Ok h"
    "unat (hdr_n h) = n0 + i" "dh_pub h = pub" "\<forall>k q. \<not> entry_opens c (mkskipped st) eh ct (concat_ad ad eh) k q"
    by (rule mirrors_repeated [OF c st msg i(1,2)]) blast
  have catch: "catching c hk ck n0 cnt pub old r0 ({i. i < mb_taken mb \<and> i \<notin> mb_stored mb} \<union> mb_seen mb) (mb_taken mb) st"
    using st by (simp add: mirrors_def)
  note d = catchingD [OF catch]
  have behind: "hdr_n h < nr st" using h(4) i(3) d(5) by (simp add: word_less_nat_alt)
  have hdr: "decrypt_header c st eh = Ok (h, False)" by (simp add: decrypt_header_def h(2,3))
  obtain r st' w' where dec: "decrypt c w st eh ct ad = (r, st', w')" by (metis prod_cases3)
  have "\<not> is_ok r"
  proof
    assume "is_ok r"
    then obtain q where "decrypt c w st eh ct ad = (Ok q, st', w')" using dec by (cases r) auto
    then show False
    proof (cases rule: accepted_cases [OF c, consumes 1, case_names store ratchet])
      case (store k)
      then show False using h(6) by blast
    next
      case (ratchet h' r' st1)
      then have "bind_st (store_chain_gap c (hdr_n h) st w) (\<lambda>_. advance_receiving c) = (Ok (), st1, w')"
        using hdr by (simp add: commit_state_changes_def)
      then obtain u st2 w2 where "store_chain_gap c (hdr_n h) st w = (Ok u, st2, w2)" by (rule bind_st_OkE)
      then obtain m where "skip_message_keys c w (mkskipped st) (chain_key c (mb_taken mb) ck) hk (nr st) (hdr_n h) = (Ok m, w2)"
        using h(2) d(3)
        by (auto simp: store_chain_gap_def split: prod.splits result.splits)
      then show False using behind skip_message_keys_OkD(2) by fastforce
    qed
  qed
  moreover have "r \<noteq> Panic" using st_safeD decrypt_safe [OF c d(1), of w eh ct ad] dec by metis
  ultimately show thesis using that dec by (cases r) auto
qed

section \<open>Properties\<close>

text \<open>C7: The receiving chain refines the mailbox. A receiver in step with the sender is given messages
  of a batch in any order, each any number of times: decrypt answers what the mailbox says,
  the plaintext, DuplicateMessage or DecryptionFailed (unless a message opens under the
  key of a later one). The batch is within the limits of the receiver: batch_limits leaves room
  for it in the counters, in the store of skipped keys (so it has at most 1000 messages) and in the
  memory of received messages, and no key of another chain opens its headers. Without repetitions
  everything is accepted. With them, some messages are accepted twice: one that was read from the
  store before the chain has moved past it, and one whose number a later gap stores again.\<close>

theorem receiving_refines_mailbox:
  assumes "crypto_ok c" and "conversation c a b" and "in_step a b" and "batch_limits b (length ms)"
    and "send_all c a ms = (Ok sealed, a')" and "sealed_apart c b sealed" and "set idx \<subseteq> {..<length ms}"
    and "Unreadable \<in> set (verdicts empty_mailbox idx) \<longrightarrow>
       (\<forall>ck. ck_r b = Some ck \<longrightarrow> (\<forall>i < length ms. keys_apart c ck (length ms) i (ms ! i) (sealed ! i)))"
  shows "receive_all c w b (map (\<lambda>i. (snd (ms ! i), sealed ! i)) idx) =
      map2 (\<lambda>i. verdict_result (fst (ms ! i))) idx (verdicts empty_mailbox idx) \<and>
    (distinct idx \<longrightarrow> verdicts empty_mailbox idx = map (\<lambda>_. Accepted) idx) \<and>
    verdicts empty_mailbox [2, 1, 1] = [Accepted, Accepted, Accepted] \<and>
    verdicts empty_mailbox [1, 2, 1] = [Accepted, Accepted, Accepted] \<and>
    verdicts empty_mailbox [0, 0, 2, 1, 1, 2] = [Accepted, Repeated, Accepted, Accepted, Unreadable, Repeated]"
proof (intro conjI impI)
  show "receive_all c w b (map (\<lambda>i. (snd (ms ! i), sealed ! i)) idx) =
      map2 (\<lambda>i. verdict_result (fst (ms ! i))) idx (verdicts empty_mailbox idx)"
  proof (rule in_step_catching [OF assms(1-6)])
    fix hk ck pub
    let ?n0 = "unat (nr b)" and ?old = "dom (map_of (mkskipped b))" and ?r0 = "fcard (received_messages b)"
    assume st: "catching c hk ck ?n0 (length ms) pub ?old ?r0 {} 0 b" and lim: "catch_limits ?n0 (length ms) ?old ?r0"
      and msgs: "\<And>i. i < length ms \<Longrightarrow> chain_msg c hk ck ?n0 pub i (ms ! i) (sealed ! i) \<and> no_foreign c hk ?old (fst (sealed ! i))"
      and none: "\<And>n. ?n0 \<le> unat n \<Longrightarrow> map_of (mkskipped b) (hk, n) = None"
    have "ck_r b = Some ck" using catchingD(3) [OF st] by simp
    then show ?thesis
      by (intro mirrors_receive [OF ratchet_crypto_ok [OF assms(1)] lim msgs catching_mirrors [OF st] assms(7)])
        (use none assms(8) in auto)
  qed
  show "verdicts empty_mailbox idx = map (\<lambda>_. Accepted) idx" if "distinct idx"
    by (rule distinct_verdicts [of "{}"]) (simp_all add: nothing_lost_def that)
qed (simp_all add: mailbox_step_def)

theorem receiving_refines_mailbox_witness:
  "\<exists>a b sealed a'. send_all reference_crypto a [([1], []), ([2], []), ([3], [])] = (Ok sealed, a') \<and>
     receive_all reference_crypto demo_world b [([], sealed ! 2), ([], sealed ! 1), ([], sealed ! 1), ([], sealed ! 2)] =
       [Ok [3], Ok [2], Ok [2], Err DuplicateMessage]"
proof -
  let ?ms = "[([1], []), ([2], []), ([3], [])] :: (bytes \<times> bytes) list"
  obtain a b sealed a' where run: "conversation reference_crypto a b" "in_step a b" "batch_limits b 3"
    "send_all reference_crypto a ?ms = (Ok sealed, a')" "sealed_apart reference_crypto b sealed"
    by (rule demo_in_step [of ?ms]) auto
  have "batch_limits b (length ?ms)" using run(3) by (simp add: numeral_3_eq_3)
  from receiving_refines_mailbox [OF reference_crypto_ok run(1,2) this run(4,5), of "[2, 1, 1, 2]" demo_world]
  have "receive_all reference_crypto demo_world b [([], sealed ! 2), ([], sealed ! 1), ([], sealed ! 1), ([], sealed ! 2)] =
       [Ok [3], Ok [2], Ok [2], Err DuplicateMessage]"
    by (simp add: mailbox_step_def numeral_2_eq_2)
  with run(4) show ?thesis by blast
qed

end
