(* ===== verification/Integration_Tests.thy ===== *)
theory Integration_Tests
  imports Unit_Tests Mailbox Ratchet_C_Safe
begin

text \<open>
  The integration tests under \<^verbatim>\<open>src/tests\<close>, translated as the unit tests are: a message that
  crosses a conversation of several turns, the protocol from the prekey bundle to a duplicate that
  is refused, the key agreement, a signature, and a C caller with its pointers. They are shown to
  pass for all lawful primitives and all randomness, unless keys collide by chance.
\<close>

section \<open>A message and its answer\<close>

text \<open>The lines the tests repeat for every message that arrives in order: encrypt, decrypt at the
  other side, \<^verbatim>\<open>expect\<close> both and \<^verbatim>\<open>assert_eq!\<close> on the plaintext.\<close>

definition exchange :: "crypto \<Rightarrow> World \<Rightarrow> RatchetState \<Rightarrow> RatchetState \<Rightarrow> bytes \<Rightarrow> bytes \<Rightarrow>
    (RatchetState \<times> RatchetState \<times> World, unit) result" where
  "exchange c w sender receiver msg ad =
     (let (r, sender') = encrypt c sender msg ad
      in and_then (unwrap r) (\<lambda>(head, cipher).
         let (d, receiver', w') = decrypt c w receiver head cipher ad
         in and_then (unwrap d) (\<lambda>decrypted.
            and_then (assert_that (decrypted = msg)) (\<lambda>_. Ok (sender', receiver', w')))))"

section \<open>The tests of the session\<close>

definition integration_two_messages :: "crypto \<Rightarrow> World \<Rightarrow> (RatchetState \<times> RatchetState \<times> World, unit) result" where
  "integration_two_messages c w0 =
     (let (pair, w) = ratchet_pair c w0 (replicate 32 0x55)
      in and_then pair (\<lambda>(sender, receiver).
         and_then (exchange c w sender receiver (ascii ''Hello Receiver!'') (ascii ''Metadata'')) (\<lambda>(sender, receiver, w).
         and_then (exchange c w receiver sender (ascii ''Hello Sender!'') (ascii ''More Metadata'')) (\<lambda>(receiver, sender, w).
         Ok (sender, receiver, w)))))"

definition test_ratchet_integration_basic_flow :: "crypto \<Rightarrow> World \<Rightarrow> test" where
  "test_ratchet_integration_basic_flow c w0 =
     and_then (integration_two_messages c w0) (\<lambda>(sender, receiver, w).
     and_then (exchange c w sender receiver (ascii ''How are you?'') []) (\<lambda>_. Ok ()))"

definition test_ratchet_integration_out_of_order :: "crypto \<Rightarrow> World \<Rightarrow> test" where
  "test_ratchet_integration_out_of_order c w0 =
     (let (pair, w) = ratchet_pair c w0 (replicate 32 0x66)
      in and_then pair (\<lambda>(sender, receiver).
         let (r1, sender1) = encrypt c sender (ascii ''M1'') [] in and_then (unwrap r1) (\<lambda>(h1, c1).
         let (r2, sender2) = encrypt c sender1 (ascii ''M2'') [] in and_then (unwrap r2) (\<lambda>(h2, c2).
         let (r3, sender3) = encrypt c sender2 (ascii ''M3'') [] in and_then (unwrap r3) (\<lambda>(h3, c3).
         let (r, receiver1, w1) = decrypt c w receiver h2 c2 [] in and_then (unwrap r) (\<lambda>d2.
         and_then (assert_that (d2 = ascii ''M2'')) (\<lambda>_.
         let (r, receiver2, w2) = decrypt c w1 receiver1 h3 c3 [] in and_then (unwrap r) (\<lambda>d3.
         and_then (assert_that (d3 = ascii ''M3'')) (\<lambda>_.
         let (r, receiver3, w3) = decrypt c w2 receiver2 h1 c1 [] in and_then (unwrap r) (\<lambda>d1.
         assert_that (d1 = ascii ''M1'')))))))))))"

section \<open>The protocol from the prekey bundle to a duplicate\<close>

definition is_err :: "('a, 'e) result \<Rightarrow> bool" where
  "is_err r = (case r of Err _ \<Rightarrow> True | _ \<Rightarrow> False)"

record SignalInitialMessage =
  sender_identity_key :: bytes
  sender_ephemeral_key :: bytes
  prekey_id :: u32
  onetime_prekey_id :: "u32 option"
  im_header :: bytes
  im_ciphertext :: bytes

text \<open>Parts 1 to 3: Bob's keys, signature and bundle; Alice's check of the signature, her agreement and
  first message; Bob's agreement and session, and the message read.\<close>

definition e2e_initial_message :: "crypto \<Rightarrow> ('p, 's) curve \<Rightarrow> World \<Rightarrow> (RatchetState \<times> RatchetState \<times> bytes \<times> World, unit) result" where
  "e2e_initial_message c e w0 =
     (let (bob_identity, w1) = gen_keypair c w0;
          (bob_spk, w2) = gen_keypair c w1;
          bob_spk_id = 1;
          (sg, w3) = vxeddsa_sign c e w2 (secret bob_identity) (public bob_spk)
      in and_then (unwrap sg) (\<lambda>sig_output.
      let (bob_opk, w4) = gen_keypair c w3;
          bob_opk_id = 1;
          bndl = \<lparr> identity_key = public bob_identity,
                   signed_prekey = \<lparr> spk_id = bob_spk_id, spk_public_key = public bob_spk, spk_signature = signature sig_output \<rparr>,
                   one_time_prekey = Some \<lparr> opk_id = bob_opk_id, opk_public_key = public bob_opk \<rparr> \<rparr>;
          (alice_identity, w5) = gen_keypair c w4;
          verified = vxeddsa_verify c e (identity_key bndl) (spk_public_key (signed_prekey bndl)) (spk_signature (signed_prekey bndl))
      in and_then (and_then verified expect) (\<lambda>_.
      let (alice, w6) = x3dh_initiator c e w5 (secret alice_identity) bndl
      in and_then (unwrap alice) (\<lambda>alice_result.
         and_then (unwrap (decode_public_key (public bob_spk))) (\<lambda>bob_spk_bytes.
      let (a, w7) = init_sender_state c w6 (shared_secret alice_result) bob_spk_bytes
      in and_then (unwrap a) (\<lambda>alice_ratchet.
         and_then (unwrap (decode_public_key (public alice_identity))) (\<lambda>alice_identity_bytes.
         and_then (unwrap (decode_public_key (public bob_identity))) (\<lambda>bob_identity_bytes.
      let session_ad = alice_identity_bytes @ bob_identity_bytes @ ascii ''v1'';
          msg_plaintext = ascii ''Hello Bob! This is an initial message.'';
          (m, alice_ratchet1) = encrypt c alice_ratchet msg_plaintext session_ad
      in and_then (unwrap m) (\<lambda>(enc_header, ciphertext).
      let initial_message = \<lparr> sender_identity_key = public alice_identity,
                              sender_ephemeral_key = ephemeral_public alice_result,
                              prekey_id = bob_spk_id, onetime_prekey_id = Some bob_opk_id,
                              im_header = enc_header, im_ciphertext = ciphertext \<rparr>
      in and_then (assert_that (prekey_id initial_message = bob_spk_id)) (\<lambda>_.
         and_then (assert_that (onetime_prekey_id initial_message = Some bob_opk_id)) (\<lambda>_.
         and_then (unwrap (x3dh_responder c e (secret bob_identity) (secret bob_spk) (Some (secret bob_opk))
                             (sender_identity_key initial_message) (sender_ephemeral_key initial_message))) (\<lambda>bob_sk.
         and_then (assert_that (shared_secret alice_result = bob_sk)) (\<lambda>_.
         and_then (unwrap (init_receiver_state c bob_sk (secret bob_spk, bob_spk_bytes))) (\<lambda>bob_ratchet.
      let (d, bob_ratchet1, w8) = decrypt c w7 bob_ratchet (im_header initial_message) (im_ciphertext initial_message) session_ad
      in and_then (unwrap d) (\<lambda>decrypted_plaintext.
         and_then (assert_that (decrypted_plaintext = msg_plaintext)) (\<lambda>_.
         Ok (alice_ratchet1, bob_ratchet1, session_ad, w8)))))))))))))))))"

text \<open>Part 4: Bob's reply, and Alice's second message.\<close>

definition e2e_reply :: "crypto \<Rightarrow> ('p, 's) curve \<Rightarrow> World \<Rightarrow> (RatchetState \<times> RatchetState \<times> bytes \<times> World, unit) result" where
  "e2e_reply c e w0 =
     and_then (e2e_initial_message c e w0) (\<lambda>(alice, bob, session_ad, w).
     and_then (exchange c w bob alice (ascii ''Hi Alice! Channel established.'') session_ad) (\<lambda>(bob, alice, w).
     Ok (alice, bob, session_ad, w)))"

definition e2e_second_message :: "crypto \<Rightarrow> ('p, 's) curve \<Rightarrow> World \<Rightarrow> (RatchetState \<times> RatchetState \<times> bytes \<times> World, unit) result" where
  "e2e_second_message c e w0 =
     and_then (e2e_reply c e w0) (\<lambda>(alice, bob, session_ad, w).
     and_then (exchange c w alice bob (ascii ''Great! How are you?'') session_ad) (\<lambda>(alice, bob, w).
     Ok (alice, bob, session_ad, w)))"

text \<open>The rest: two messages of Bob's, the later one read first, and the earlier one sent again.\<close>

definition test_e2e_signal_initial_message_flow :: "crypto \<Rightarrow> ('p, 's) curve \<Rightarrow> World \<Rightarrow> test" where
  "test_e2e_signal_initial_message_flow c e w0 =
     and_then (e2e_second_message c e w0) (\<lambda>(alice, bob, session_ad, w).
     let bob_msg2 = ascii ''I'm doing well!'';
         bob_msg3 = ascii ''Thanks for asking.'';
         (r2, bob1) = encrypt c bob bob_msg2 session_ad in and_then (unwrap r2) (\<lambda>(bob2_header, bob2_cipher).
     let (r3, bob2) = encrypt c bob1 bob_msg3 session_ad in and_then (unwrap r3) (\<lambda>(bob3_header, bob3_cipher).
     let (d3, alice1, w1) = decrypt c w alice bob3_header bob3_cipher session_ad in and_then (unwrap d3) (\<lambda>bob3_decrypted.
     and_then (assert_that (bob3_decrypted = bob_msg3)) (\<lambda>_.
     let (d2, alice2, w2) = decrypt c w1 alice1 bob2_header bob2_cipher session_ad in and_then (unwrap d2) (\<lambda>bob2_decrypted.
     and_then (assert_that (bob2_decrypted = bob_msg2)) (\<lambda>_.
     let (duplicate_result, alice3, w3) = decrypt c w2 alice2 bob2_header bob2_cipher session_ad
     in assert_that (is_err duplicate_result))))))))"

section \<open>A C caller\<close>

text \<open>
  The variables of the test as blocks of memory: at 0 to 4 \<^verbatim>\<open>sk\<close>, \<^verbatim>\<open>bob_priv_bytes\<close>,
  \<^verbatim>\<open>bob_pub_bytes\<close>, \<^verbatim>\<open>msg\<close> and \<^verbatim>\<open>ad\<close>, at 5 and 6 the two result structs. A failed
  assertion aborts.
\<close>

definition c_assert :: "bool \<Rightarrow> (unit, 'm) c_call" where
  "c_assert b m = (if b then Returned () m else Aborted)"

definition read_struct :: "(c_memory \<Rightarrow> nat \<rightharpoonup> 'r) \<Rightarrow> nat \<Rightarrow> ('r, c_memory) c_call" where
  "read_struct outs a m = (case outs m a of None \<Rightarrow> Undefined | Some r \<Rightarrow> Returned r m)"

definition ffi_test_memory :: "bytes \<Rightarrow> bytes \<Rightarrow> World \<Rightarrow> c_memory" where
  "ffi_test_memory bob_priv_bytes bob_public w =
     \<lparr> next_addr = 7,
       caller_blocks = [0 \<mapsto> replicate 32 0x99, 1 \<mapsto> bob_priv_bytes, 2 \<mapsto> 0x05 # bob_public,
                        3 \<mapsto> ascii ''Hello FFI'', 4 \<mapsto> ascii ''AD''],
       boxes = Map.empty, vecs = Map.empty, c_strings = Map.empty,
       encrypt_outs = [5 \<mapsto> \<lparr> er_header = Null, er_header_len = 0, er_ciphertext = Null, er_ciphertext_len = 0, er_status = -1 \<rparr>],
       decrypt_outs = [6 \<mapsto> \<lparr> dr_plaintext = Null, dr_plaintext_len = 0, dr_status = -1 \<rparr>],
       c_world = w \<rparr>"

definition test_ffi_ratchet_flow :: "crypto \<Rightarrow> World \<Rightarrow> (unit, c_memory) c_result" where
  "test_ffi_ratchet_flow c w0 =
     (let (bob_secret, w1) = os_rng_fill 32 w0;
          bob_public = x25519_base c bob_secret;
          (alice_secret, w2) = os_rng_fill 32 w1;
          msg = ascii ''Hello FFI'';
          ad = ascii ''AD''
      in c_bind (ratchet_init_sender_ffi c (Addr 0) (Addr 2)) (\<lambda>sender_state.
         c_bind (c_assert (sender_state \<noteq> Null)) (\<lambda>_.
         c_bind (ratchet_init_receiver_ffi c (Addr 0) (Addr 1) (Addr 2)) (\<lambda>receiver_state.
         c_bind (c_assert (receiver_state \<noteq> Null)) (\<lambda>_.
         c_bind (ratchet_encrypt_ffi c sender_state (Addr 3) (length msg) (Addr 4) (length ad) (Addr 5)) (\<lambda>status.
         c_bind (c_assert (status = 0)) (\<lambda>_.
         c_bind (read_struct encrypt_outs 5) (\<lambda>enc_result.
         c_bind (c_assert (er_status enc_result = 0 \<and> er_header enc_result \<noteq> Null \<and> er_ciphertext enc_result \<noteq> Null)) (\<lambda>_.
         c_bind (ratchet_decrypt_ffi c receiver_state (er_header enc_result) (er_header_len enc_result)
                   (er_ciphertext enc_result) (er_ciphertext_len enc_result) (Addr 4) (length ad) (Addr 6)) (\<lambda>status.
         c_bind (c_assert (status = 0)) (\<lambda>_.
         c_bind (read_struct decrypt_outs 6) (\<lambda>dec_result.
         c_bind (c_assert (dr_status dec_result = 0)) (\<lambda>_.
         c_bind (from_raw_parts bytes_at (dr_plaintext dec_result) (dr_plaintext_len dec_result)) (\<lambda>plaintext_slice.
         c_bind (c_assert (plaintext_slice = msg)) (\<lambda>_.
         c_bind (ratchet_free_result_buffers (er_header enc_result) (er_header_len enc_result)
                   (er_ciphertext enc_result) (er_ciphertext_len enc_result)) (\<lambda>_.
         c_bind (ratchet_free_byte_buffer (dr_plaintext dec_result) (dr_plaintext_len dec_result)) (\<lambda>_.
         c_bind (ratchet_free_ffi sender_state) (\<lambda>_.
         ratchet_free_ffi receiver_state)))))))))))))))))
         (ffi_test_memory bob_secret bob_public w2))"

section \<open>The tests of the key agreement and of signatures\<close>

definition test_x3dh_success_with_opk :: "crypto \<Rightarrow> ('p, 's) curve \<Rightarrow> World \<Rightarrow> test" where
  "test_x3dh_success_with_opk c e w0 =
     (let (bob_identity, w1) = gen_keypair c w0;
          (bob_spk, w2) = gen_keypair c w1;
          (sg, w3) = vxeddsa_sign c e w2 (secret bob_identity) (public bob_spk)
      in and_then (unwrap sg) (\<lambda>sig_output.
         let (bob_opk, w4) = gen_keypair c w3;
             (alice_identity, w5) = gen_keypair c w4;
             bndl = \<lparr> identity_key = public bob_identity,
                      signed_prekey = \<lparr> spk_id = 1, spk_public_key = public bob_spk, spk_signature = signature sig_output \<rparr>,
                      one_time_prekey = Some \<lparr> opk_id = 1, opk_public_key = public bob_opk \<rparr> \<rparr>;
             (alice, w6) = x3dh_initiator c e w5 (secret alice_identity) bndl
         in and_then (unwrap alice) (\<lambda>alice_result.
            and_then (unwrap (x3dh_responder c e (secret bob_identity) (secret bob_spk) (Some (secret bob_opk))
                                (public alice_identity) (ephemeral_public alice_result))) (\<lambda>bob_sk.
            assert_that (shared_secret alice_result = bob_sk)))))"

definition test_x3dh_success_without_opk :: "crypto \<Rightarrow> ('p, 's) curve \<Rightarrow> World \<Rightarrow> test" where
  "test_x3dh_success_without_opk c e w0 =
     (let (bob_identity, w1) = gen_keypair c w0;
          (bob_spk, w2) = gen_keypair c w1;
          (sg, w3) = vxeddsa_sign c e w2 (secret bob_identity) (public bob_spk)
      in and_then (unwrap sg) (\<lambda>sig_output.
         let (alice_identity, w4) = gen_keypair c w3;
             bndl = \<lparr> identity_key = public bob_identity,
                      signed_prekey = \<lparr> spk_id = 1, spk_public_key = public bob_spk, spk_signature = signature sig_output \<rparr>,
                      one_time_prekey = None \<rparr>;
             (alice, w5) = x3dh_initiator c e w4 (secret alice_identity) bndl
         in and_then (unwrap alice) (\<lambda>alice_result.
            and_then (unwrap (x3dh_responder c e (secret bob_identity) (secret bob_spk) None
                                (public alice_identity) (ephemeral_public alice_result))) (\<lambda>bob_sk.
            assert_that (shared_secret alice_result = bob_sk)))))"

definition flip_at :: "nat \<Rightarrow> bytes \<Rightarrow> bytes" where
  "flip_at i b = b[i := b ! i XOR 0xFF]"

definition test_invalid_signature :: "crypto \<Rightarrow> ('p, 's) curve \<Rightarrow> World \<Rightarrow> test" where
  "test_invalid_signature c e w0 =
     (let (bob_identity, w1) = gen_keypair c w0;
          (bob_spk, w2) = gen_keypair c w1;
          (sg, w3) = vxeddsa_sign c e w2 (secret bob_identity) (public bob_spk)
      in and_then (unwrap sg) (\<lambda>sig_output.
         let spk_sig = flip_at 0 (signature sig_output);
             (alice_identity, w4) = gen_keypair c w3;
             bndl = \<lparr> identity_key = public bob_identity,
                      signed_prekey = \<lparr> spk_id = 1, spk_public_key = public bob_spk, spk_signature = spk_sig \<rparr>,
                      one_time_prekey = None \<rparr>;
             (outcome, w5) = x3dh_initiator c e w4 (secret alice_identity) bndl
         in assert_that (outcome = Err InvalidSignature)))"

definition test_sign_and_verify_success :: "crypto \<Rightarrow> ('p, 's) curve \<Rightarrow> World \<Rightarrow> test" where
  "test_sign_and_verify_success c e w0 =
     (let (seed_k, w1) = gen_secret w0;
          (msg_bytes, w2) = gen_secret w1;
          public_u = gen_pubkey c seed_k;
          (r, w3) = vxeddsa_sign c e w2 seed_k msg_bytes
      in and_then (unwrap r) (\<lambda>output.
         and_then (vxeddsa_verify c e public_u msg_bytes (signature output)) (\<lambda>v_verified_out.
         and_then (assert_that (v_verified_out \<noteq> None)) (\<lambda>_.
         and_then (expect v_verified_out) (\<lambda>v. assert_that (v = vrf output))))))"

definition test_verify_fails_on_wrong_message :: "crypto \<Rightarrow> ('p, 's) curve \<Rightarrow> World \<Rightarrow> test" where
  "test_verify_fails_on_wrong_message c e w0 =
     (let (seed_k, w1) = gen_secret w0;
          (msg_bytes, w2) = gen_secret w1;
          public_u = gen_pubkey c seed_k;
          (r, w3) = vxeddsa_sign c e w2 seed_k msg_bytes
      in and_then (unwrap r) (\<lambda>output.
         let wrong_msg = flip_at 0 msg_bytes
         in and_then (vxeddsa_verify c e public_u wrong_msg (signature output)) (\<lambda>v. assert_that (v = None))))"

definition test_verify_fails_on_wrong_key :: "crypto \<Rightarrow> ('p, 's) curve \<Rightarrow> World \<Rightarrow> test" where
  "test_verify_fails_on_wrong_key c e w0 =
     (let (seed_k, w1) = gen_secret w0;
          (msg_bytes, w2) = gen_secret w1;
          (r, w3) = vxeddsa_sign c e w2 seed_k msg_bytes
      in and_then (unwrap r) (\<lambda>output.
         let (wrong_seed, w4) = gen_secret w3;
             wrong_public_u = gen_pubkey c wrong_seed
         in and_then (vxeddsa_verify c e wrong_public_u msg_bytes (signature output)) (\<lambda>v. assert_that (v = None))))"

definition test_verify_fails_on_corrupted_signature :: "crypto \<Rightarrow> ('p, 's) curve \<Rightarrow> World \<Rightarrow> test" where
  "test_verify_fails_on_corrupted_signature c e w0 =
     (let (seed_k, w1) = gen_secret w0;
          (msg_bytes, w2) = gen_secret w1;
          public_u = gen_pubkey c seed_k;
          (r, w3) = vxeddsa_sign c e w2 seed_k msg_bytes
      in and_then (unwrap r) (\<lambda>output.
         let original_sig = signature output
         in and_then (vxeddsa_verify c e public_u msg_bytes (flip_at 0 original_sig)) (\<lambda>v. and_then (assert_that (v = None)) (\<lambda>_.
            and_then (vxeddsa_verify c e public_u msg_bytes (flip_at 35 original_sig)) (\<lambda>v. and_then (assert_that (v = None)) (\<lambda>_.
            and_then (vxeddsa_verify c e public_u msg_bytes (flip_at 90 original_sig)) (\<lambda>v. assert_that (v = None))))))))"

section \<open>Turns\<close>

text \<open>
  When a message arrives whose sender has ratcheted, the test relies on three chances: the new
  header key differs from the keys the receiver holds, none of those opens the header, and the
  sender's DH key with the number of the message is not on record already.
\<close>

definition fresh_keys :: "crypto \<Rightarrow> RatchetState \<Rightarrow> RatchetState \<Rightarrow> bytes \<Rightarrow> bytes \<Rightarrow> bool" where
  "fresh_keys c a b p ad \<longleftrightarrow>
     nhk_r b \<notin> set (held_keys b) \<and> (snd (dh_pair a), ns a) |\<notin>| received_messages b \<and>
     (\<forall>eh ct a'. encrypt c a p ad = (Ok (eh, ct), a') \<longrightarrow> (\<forall>hk \<in> set (held_keys b). \<not> is_ok (decrypt_header_with_key c hk eh)))"

lemma untouched_fresh: "untouched b \<Longrightarrow> fresh_keys c a b p ad"
  by (simp add: fresh_keys_def held_keys_def untouched_def)

text \<open>\<open>x\<close> is about to start a chain, and everything sent before has arrived.\<close>

definition my_turn :: "crypto \<Rightarrow> nat \<Rightarrow> RatchetState \<Rightarrow> RatchetState \<Rightarrow> bool" where
  "my_turn c n x y \<longleftrightarrow>
     lead c x y \<and> ns x = 0 \<and> nr x = ns y \<and> pn x = nr y \<and> unat (nr y) \<le> 1 \<and> unat (ns y) \<le> 1 \<and>
     mkskipped x = [] \<and> mkskipped y = [] \<and> unat (header_nonce_counter x) \<le> n \<and> unat (header_nonce_counter y) \<le> n"

lemma turn_deliverable:
  assumes "lead c a b" and "pn a = nr b" and "unat (ns a) \<le> 1000" and "fresh_keys c a b p ad"
    and "encrypt c a p ad = (Ok (eh, ct), a')"
  shows "deliverable c a b eh"
proof -
  have "hk_s a = Some (nhk_r b)" by (rule leadD(7) [OF assms(1)])
  moreover have "hk_r b \<noteq> Some (nhk_r b)" using assms(4) by (auto simp: fresh_keys_def dest: held_keysI(2))
  ultimately show ?thesis
    using assms(2-5) by (auto simp: deliverable_def within_limits_def fresh_keys_def)
qed

lemma nothing_skipped:
  assumes "store_chain_gap c (nr b) b w = (Ok (), b\<lparr>mkskipped := m\<rparr>, w')" and "mkskipped b = []"
  shows "m = []"
  using assms by (auto simp: store_chain_gap_def skip_message_keys_same split: option.splits dest: arg_cong [where f = mkskipped])

lemma turn:
  assumes ok: "crypto_ok c" and t: "my_turn c n x y" and n: "n \<le> 1000" and ad: "length ad \<le> MAX_AD_SIZE"
    and fresh: "fresh_keys c x y p ad"
  obtains x' y' w' where "exchange c w x y p ad = Ok (x', y', w')" "my_turn c (Suc n) y' x'"
    "untouched x \<Longrightarrow> header_nonce_counter x = 0 \<Longrightarrow> untouched x'"
proof -
  have l: "lead c x y" and x: "ns x = 0" "nr x = ns y" "pn x = nr y" "unat (nr y) \<le> 1" "unat (ns y) \<le> 1"
      "mkskipped x = []" "mkskipped y = []" "unat (header_nonce_counter x) \<le> n" "unat (header_nonce_counter y) \<le> n"
    using t by (simp_all add: my_turn_def)
  have nonce: "Suc (unat (header_nonce_counter x)) < 2 ^ 64" using x(8) n by simp
  obtain ck where ck: "ck_s x = Some ck" using leader_can_send [OF l] by blast
  let ?x = "x\<lparr>ck_s := Some (chain_key c 1 ck), ns := ns x + 1, header_nonce_counter := header_nonce_counter x + 1\<rparr>"
  obtain eh ct where enc: "encrypt c x p ad = (Ok (eh, ct), ?x)"
    using encrypt_succeeds [OF ok leadD(1) [OF l] ck ad _ nonce, of p] x(1) by auto
  have guard: "deliverable c x y eh" by (rule turn_deliverable [OF l x(3) _ fresh enc]) (simp add: x(1))
  have hnc: "unat (header_nonce_counter x + 1) \<le> Suc n" using x(8) unat_plus_simple [of "header_nonce_counter x" 1]
    by (metis Suc_eq_plus1 add_le_cancel_right le_trans unat_1 unat_add_lem word_le_nat_alt unat_word_ariths(1) mod_less_eq_dividend)
  show thesis
  proof (rule decrypts_by_ratchet [OF ok l enc guard, of w])
    fix y' w' ck m m' dh_s rk2 cks2 nhks t w1 w2
    assume dec: "decrypt c w y eh ct ad = (Ok p, y', w')" and l': "lead c y' ?x"
      and y': "y' = y\<lparr>pn := ns y, ns := 0, nr := 1, hk_s := Some (nhk_s y), hk_r := Some (nhk_r y),
            dh_remote := Some (snd (dh_pair x)), rk := rk2, ck_r := Some (chain_key c 1 ck),
            nhk_r := nhk_s x, ck_s := Some cks2, nhk_s := nhks,
            dh_pair := (dh_s, x25519_base c dh_s), mkskipped := m',
            received_messages := {|(snd (dh_pair x), ns x)|}\<rparr>"
      and old: "store_chain_gap c (pn x) y w = (Ok (), y\<lparr>mkskipped := m\<rparr>, w\<lparr>ticks := t\<rparr>)"
      and skip: "skip_loop c (nhk_r y) (ns x) 0 ck m w1 = (Ok m', w2)"
    have "m = []" by (rule nothing_skipped [OF old [unfolded x(3)] x(7)])
    then have "m' = []" using skip x(1) by (simp add: skip_loop_done)
    then have "my_turn c (Suc n) y' ?x"
      using l' x hnc by (simp add: my_turn_def y')
    moreover have "exchange c w x y p ad = Ok (?x, y', w')"
      using enc dec by (simp add: exchange_def)
    moreover have "untouched ?x" if "untouched x" "header_nonce_counter x = 0"
      using that x(1) by (simp add: untouched_def)
    ultimately show thesis using that by blast
  qed
qed

lemma init_turn:
  assumes ok: "crypto_ok c" and sk: "is_array 32 sk" and priv: "is_array 32 priv"
    and a: "init_sender_state c w sk (x25519_base c priv) = (Ok a, w')"
    and b: "init_receiver_state c sk (priv, x25519_base c priv) = Ok b"
  shows "my_turn c 0 a b" "untouched a" "untouched b" "header_nonce_counter a = 0"
proof -
  have new: "ns a = 0" "nr a = 0" "pn a = 0" "mkskipped a = []" "header_nonce_counter a = 0" "untouched a"
      "ns b = 0" "nr b = 0" "mkskipped b = []" "header_nonce_counter b = 0" "untouched b"
    using a b
    by (auto simp: init_sender_state_def init_receiver_state_def untouched_def Let_def split: prod.splits)
  then show "my_turn c 0 a b" using init_lead [OF ok sk priv a b] by (simp add: my_turn_def)
qed (use a b in \<open>auto simp: init_sender_state_def init_receiver_state_def untouched_def Let_def split: prod.splits\<close>)

lemma pair_turn:
  assumes ok: "crypto_ok c" and sk: "is_array 32 sk"
  obtains a b w where "ratchet_pair c w0 sk = (Ok (a, b), w)" "my_turn c 0 a b" "untouched a" "untouched b"
    "header_nonce_counter a = 0"
proof -
  obtain a b w where pair: "ratchet_pair c w0 sk = (Ok (a, b), w)" by (rule pair_starts [OF ok sk])
  obtain priv w1 where rng: "os_rng_fill 32 w0 = (priv, w1)" "is_array 32 priv" by (metis length_os_rng_fill prod.collapse)
  have "init_sender_state c w1 sk (x25519_base c priv) = (Ok a, w)"
      "init_receiver_state c sk (priv, x25519_base c priv) = Ok b"
    using pair rng(1) by (auto simp: ratchet_pair_def Let_def split: prod.splits)
  from init_turn [OF ok sk rng(2) this] pair that show thesis by blast
qed

lemma two_messages_pass:
  assumes ok: "crypto_ok c"
  obtains a b w where "integration_two_messages c w0 = Ok (a, b, w)" "my_turn c (Suc (Suc 0)) a b"
proof -
  have sk: "is_array 32 (replicate 32 (0x55 :: u8))" by simp
  obtain a b w where pair: "ratchet_pair c w0 (replicate 32 0x55) = (Ok (a, b), w)" "my_turn c 0 a b"
      and new: "untouched a" "untouched b" "header_nonce_counter a = 0"
    by (rule pair_turn [OF ok sk])
  have small: "(0 :: nat) \<le> 1000" "Suc 0 \<le> 1000"
      and ads: "length (ascii ''Metadata'') \<le> MAX_AD_SIZE" "length (ascii ''More Metadata'') \<le> MAX_AD_SIZE"
    by (simp_all add: short_text)
  obtain a1 b1 w1 where one: "exchange c w a b (ascii ''Hello Receiver!'') (ascii ''Metadata'') = Ok (a1, b1, w1)"
      "my_turn c (Suc 0) b1 a1" and untouched: "untouched a1"
    by (rule turn [OF ok pair(2) small(1) ads(1) untouched_fresh [OF new(2)], of w]) (use new in blast)
  obtain b2 a2 w2 where two: "exchange c w1 b1 a1 (ascii ''Hello Sender!'') (ascii ''More Metadata'') = Ok (b2, a2, w2)"
      "my_turn c (Suc (Suc 0)) a2 b2"
    by (rule turn [OF ok one(2) small(2) ads(2) untouched_fresh [OF untouched]])
  show thesis by (rule that [OF _ two(2)]) (simp add: integration_two_messages_def pair one two)
qed

lemma integration_basic_flow_passes:
  assumes ok: "crypto_ok c"
    and "\<forall>a b w. integration_two_messages c w0 = Ok (a, b, w) \<longrightarrow> fresh_keys c a b (ascii ''How are you?'') []"
  shows "test_ratchet_integration_basic_flow c w0 = Ok ()"
proof -
  obtain a b w where two: "integration_two_messages c w0 = Ok (a, b, w)" "my_turn c (Suc (Suc 0)) a b"
    by (rule two_messages_pass [OF ok])
  have fresh: "fresh_keys c a b (ascii ''How are you?'') []" using assms(2) two(1) by blast
  have small: "Suc (Suc 0) \<le> 1000" by simp
  obtain a' b' w' where "exchange c w a b (ascii ''How are you?'') [] = Ok (a', b', w')"
    by (rule turn [OF ok two(2) small empty_ad fresh])
  with two(1) show ?thesis by (simp add: test_ratchet_integration_basic_flow_def)
qed

text \<open>A fresh chain of messages with one associated data, read in an order the mailbox knows.\<close>

lemma turn_sends:
  assumes ok: "crypto_ok c" and t: "my_turn c n x y" and n: "n \<le> 1000" and len: "length ms \<le> 1000"
    and ad: "\<forall>m \<in> set ms. length (snd m) \<le> MAX_AD_SIZE"
  obtains sealed x' where "send_all c x ms = (Ok sealed, x')"
proof -
  have l: "lead c x y" "ns x = 0" "unat (header_nonce_counter x) \<le> n" using t by (simp_all add: my_turn_def)
  have "\<exists>sealed x'. send_all c x ms = (Ok sealed, x')"
    by (rule send_all_total [OF ok leadD(1) [OF l(1)] leader_can_send [OF l(1)]]) (use l n len ad in auto)
  with that show thesis by blast
qed

lemma new_chain_starts:
  assumes ok: "crypto_ok c" and t: "my_turn c n x y" and send: "send_all c x ms = (Ok sealed, x')" and len: "length ms \<le> 900"
    and i: "i < length ms" and ai: "send_all c x (take i ms) = (Ok front, xi)"
    and fresh: "fresh_keys c xi y (fst (ms ! i)) (snd (ms ! i))"
  obtains y' w' hk ck pub old where
    "decrypt c w y (fst (sealed ! i)) (snd (sealed ! i)) (snd (ms ! i)) = (Ok (fst (ms ! i)), y', w')"
    "mirrors c hk ck 0 (length ms) pub old 0 (snd (mailbox_step empty_mailbox i)) y'" "catch_limits 0 (length ms) old 0"
    "\<forall>j < length ms. chain_msg c hk ck 0 pub j (ms ! j) (sealed ! j) \<and> no_foreign c hk old (fst (sealed ! j))"
proof -
  have l: "lead c x y" and x: "ns x = 0" "pn x = nr y" "mkskipped y = []" using t by (simp_all add: my_turn_def)
  note st = send_all_state [OF ok leadD(1) [OF l] ai]
  have xi: "unat (ns xi) = i" "pn xi = pn x" using st x i by simp_all
  obtain xi' where enc: "encrypt c xi (fst (ms ! i)) (snd (ms ! i)) = (Ok (sealed ! i), xi')"
    using send_all_split [OF send i] ai by (metis prod.inject)
  have fresh': "nhk_r y \<notin> set (held_keys y)" "(snd (dh_pair xi), ns xi) |\<notin>| received_messages y"
      "\<forall>hk \<in> set (held_keys y). \<not> is_ok (decrypt_header_with_key c hk (fst (sealed ! i)))"
    using fresh enc by (auto simp: fresh_keys_def) (metis prod.collapse)+
  have "hk_s xi = Some (nhk_r y)" using st leadD(7) [OF l] by simp
  moreover have "hk_r y \<noteq> Some (nhk_r y)" using fresh'(1) by (auto dest: held_keysI(2))
  ultimately have guard: "deliverable c xi y (fst (sealed ! i))"
    using fresh' xi x i len by (auto simp: deliverable_def within_limits_def)
  show thesis
    by (rule new_chain_mirrors [OF ok l x(1) send i ai guard, of w], (simp add: x(2,3)), (use x(2,3) len in \<open>simp add: MAX_SKIPPED_KEYS_def\<close>))
      (rule that)
qed

text \<open>The next message the mailbox accepts.\<close>

lemma mirrors_accepts:
  assumes c: "ratchet_crypto c" and st: "mirrors c hk ck n0 cnt pub old r0 mb st" and lim: "catch_limits n0 cnt old r0"
    and msg: "chain_msg c hk ck n0 pub i (p, ad) (eh, ct) \<and> no_foreign c hk old eh" and i: "i < cnt"
    and step: "mailbox_step mb i = (Accepted, mb')"
  obtains st' w' where "decrypt c w st eh ct ad = (Ok p, st', w')" "mirrors c hk ck n0 cnt pub old r0 mb' st'"
  using mirrors_step [OF c st lim, of i "(p, ad)" "(eh, ct)" w] msg i step that by auto

lemma integration_out_of_order_passes:
  assumes ok: "crypto_ok c"
  shows "test_ratchet_integration_out_of_order c w0 = Ok ()"
proof -
  note rc = ratchet_crypto_ok [OF ok]
  have sk: "is_array 32 (replicate 32 (0x66 :: u8))" by simp
  obtain a b w where pair: "ratchet_pair c w0 (replicate 32 0x66) = (Ok (a, b), w)" "my_turn c 0 a b" and new: "untouched b"
    by (rule pair_turn [OF ok sk])
  let ?ms = "[(ascii ''M1'', []), (ascii ''M2'', []), (ascii ''M3'', [])] :: (bytes \<times> bytes) list"
  obtain sealed a' where send: "send_all c a ?ms = (Ok sealed, a')"
    by (rule turn_sends [OF ok pair(2), where ms = ?ms]) (simp_all add: empty_ad)
  obtain h1 c1 a1 r1 where one: "encrypt c a (ascii ''M1'') [] = (Ok (h1, c1), a1)"
      "send_all c a1 (tl ?ms) = (Ok r1, a')" "sealed = (h1, c1) # r1"
    using send unfolding list.sel by (rule send_all_ConsE)
  obtain h2 c2 a2 r2 where two: "encrypt c a1 (ascii ''M2'') [] = (Ok (h2, c2), a2)"
      "send_all c a2 (tl (tl ?ms)) = (Ok r2, a')" "r1 = (h2, c2) # r2"
    using one(2) unfolding list.sel by (rule send_all_ConsE)
  obtain h3 c3 a3 r3 where three: "encrypt c a2 (ascii ''M3'') [] = (Ok (h3, c3), a3)" "r2 = (h3, c3) # r3"
    using two(2) unfolding list.sel by (rule send_all_ConsE)
  have sealed: "sealed = [(h1, c1), (h2, c2), (h3, c3)] @ r3" by (simp add: one(3) two(3) three(2))
  have front: "send_all c a (take 1 ?ms) = (Ok [(h1, c1)], a1)" using one(1) by simp
  have len: "length ?ms \<le> 900" "1 < length ?ms" by simp_all
  obtain b1 w1 hk ck pub old where d2: "decrypt c w b (fst (sealed ! 1)) (snd (sealed ! 1)) (snd (?ms ! 1)) = (Ok (fst (?ms ! 1)), b1, w1)"
      and st: "mirrors c hk ck 0 (length ?ms) pub old 0 (snd (mailbox_step empty_mailbox 1)) b1"
      and lim: "catch_limits 0 (length ?ms) old 0"
      and msgs: "\<forall>j < length ?ms. chain_msg c hk ck 0 pub j (?ms ! j) (sealed ! j) \<and> no_foreign c hk old (fst (sealed ! j))"
    by (rule new_chain_starts [OF ok pair(2) send len front untouched_fresh [OF new]])
  have m: "chain_msg c hk ck 0 pub 0 (ascii ''M1'', []) (h1, c1) \<and> no_foreign c hk old h1"
      "chain_msg c hk ck 0 pub 2 (ascii ''M3'', []) (h3, c3) \<and> no_foreign c hk old h3"
    using msgs [rule_format, of 0] msgs [rule_format, of 2] by (simp_all add: sealed)
  obtain b2 w2 mb where d3: "decrypt c w1 b1 h3 c3 [] = (Ok (ascii ''M3''), b2, w2)"
      and st2: "mirrors c hk ck 0 (length ?ms) pub old 0 mb b2" and mb: "0 \<in> mb_stored mb"
    by (rule mirrors_accepts [OF rc st lim m(2), where w = w1]) (auto simp: mailbox_step_def)
  obtain b3 w3 where d1: "decrypt c w2 b2 h1 c1 [] = (Ok (ascii ''M1''), b3, w3)"
    by (rule mirrors_accepts [OF rc st2 lim m(1), where w = w2]) (use mb in \<open>auto simp: mailbox_step_def\<close>)
  show ?thesis
    using d2 by (simp add: test_ratchet_integration_out_of_order_def pair(1) one(1) two(1) three(1) sealed d3 d1)
qed

text \<open>The protocol test. The signature must have been made (its nonce is not zero), on a prekey that does
  not hash to the identity.\<close>

lemma exchangeE:
  assumes "exchange c w x y p ad = Ok (x', y', w')"
  obtains eh ct where "encrypt c x p ad = (Ok (eh, ct), x')" "decrypt c w y eh ct ad = (Ok p, y', w')"
proof -
  obtain r x1 where enc: "encrypt c x p ad = (r, x1)" by (cases "encrypt c x p ad")
  with assms obtain eh ct where r: "r = Ok (eh, ct)" by (cases r) (auto simp: exchange_def)
  obtain d y1 w1 where dec: "decrypt c w y eh ct ad = (d, y1, w1)" by (metis prod_cases3)
  show thesis
    by (rule that [of eh ct]) (use assms enc dec r in \<open>cases d; auto simp: exchange_def assert_that_def split: if_splits\<close>)+
qed

lemma e2e_starts:
  assumes ok: "crypto_ok c" and curve: "curve_ok e" and bi: "birational c e"
    and keys: "gen_keypair c w0 = (bob, w1)" "gen_keypair c w1 = (spk, w2)"
    and sign: "vxeddsa_sign c e w2 (secret bob) (public spk) = (Ok out, w3)"
    and base: "vrf_base c e (compress e (snd (calculate_key_pair e (secret bob)))) (public spk) \<noteq> identity e"
  obtains a b ad w where "e2e_initial_message c e w0 = Ok (a, b, ad, w)" "my_turn c (Suc 0) b a" "untouched a"
    "length ad \<le> MAX_AD_SIZE"
proof -
  note rc = ratchet_crypto_ok [OF ok]
  obtain opk w4 where opk: "gen_keypair c w3 = (opk, w4)" "public opk = gen_pubkey c (secret opk)" "is_array 32 (secret opk)"
    by (rule gen_keypair_total)
  obtain alice w5 where alice: "gen_keypair c w4 = (alice, w5)" "public alice = gen_pubkey c (secret alice)" "is_array 32 (secret alice)"
    by (rule gen_keypair_total)
  have pub: "public bob = gen_pubkey c (secret bob)" "is_array 32 (secret bob)"
      "public spk = gen_pubkey c (secret spk)" "is_array 32 (secret spk)"
    using gen_keypair_public [OF keys(1)] gen_keypair_public [OF keys(2)] by simp_all
  have sized: "is_array 32 (x25519_base c k)" if "is_array 32 k" for k
    using x25519_sizedD(1) [OF crypto_okD(4) [OF ok] that] .
  have decoded: "decode_public_key (gen_pubkey c k) = Ok (x25519_base c k)" if "is_array 32 k" for k
    using sized [OF that] by (simp add: gen_pubkey_def pubkey.dec_enc)
  let ?b = "\<lparr> identity_key = gen_pubkey c (secret bob),
             signed_prekey = \<lparr> spk_id = 1, spk_public_key = gen_pubkey c (secret spk), spk_signature = signature out \<rparr>,
             one_time_prekey = Some \<lparr> opk_id = 1, opk_public_key = gen_pubkey c (secret opk) \<rparr> \<rparr>"
  obtain r w6 where x3dh: "x3dh_initiator c e w5 (secret alice) ?b = (Ok r, w6)" "is_array 32 (shared_secret r)"
      "x3dh_responder c e (secret bob) (secret spk) (Some (secret opk)) (gen_pubkey c (secret alice)) (ephemeral_public r) = Ok (shared_secret r)"
    using genuine_agreement [OF ok curve bi alice(3) pub(2,4) _ sign [unfolded pub(3)] base [unfolded pub(3)],
        where opk = "Some (secret opk)" and bndl = ?b and i = 1 and j = 1 and w = w5] opk(3) by auto
  have "vrf_base c e (compress e (key_point e (secret bob))) (gen_pubkey c (secret spk)) \<noteq> identity e"
    using base calculate_key_pair_spec(2) [OF curve pub(2)] by (simp add: pub(3))
  note verified = signed_verifies [OF ok curve bi pub(2) sign [unfolded pub(3)] this]
  obtain a w7 where a: "init_sender_state c w6 (shared_secret r) (x25519_base c (secret spk)) = (Ok a, w7)"
    using init_sender_ok [OF rc x3dh(2) sized [OF pub(4)]] by blast
  obtain b where b: "init_receiver_state c (shared_secret r) (secret spk, x25519_base c (secret spk)) = Ok b"
    using init_receiver_ok [OF rc x3dh(2) pub(4) sized [OF pub(4)]] by blast
  note start = init_turn [OF ok x3dh(2) pub(4) a b]
  define ad where "ad = x25519_base c (secret alice) @ x25519_base c (secret bob) @ ascii ''v1''"
  have ad: "length ad \<le> MAX_AD_SIZE"
    using sized [OF alice(3)] sized [OF pub(2)] by (simp add: ad_def MAX_AD_SIZE_def ascii_def)
  obtain a1 b1 w8 where sent: "exchange c w7 a b (ascii ''Hello Bob! This is an initial message.'') ad = Ok (a1, b1, w8)"
      and t: "my_turn c (Suc 0) b1 a1" and new: "untouched a1"
    by (rule turn [OF ok start(1) le0 ad untouched_fresh [OF start(3)]]) (use start(2,4) in blast)
  obtain eh ct where "encrypt c a (ascii ''Hello Bob! This is an initial message.'') ad = (Ok (eh, ct), a1)"
      "decrypt c w7 b eh ct ad = (Ok (ascii ''Hello Bob! This is an initial message.''), b1, w8)"
    by (rule exchangeE [OF sent])
  then have "e2e_initial_message c e w0 = Ok (a1, b1, ad, w8)"
    unfolding e2e_initial_message_def
    by (simp add: keys sign [unfolded pub(3)] opk(1,2) alice(1,2) pub(1,3) verified x3dh(1,3) decoded pub(2,4) alice(3) a b ad_def)
  with t new ad show thesis by (rule that [rotated])
qed

lemma e2e_passes:
  assumes ok: "crypto_ok c" and curve: "curve_ok e" and bi: "birational c e"
    and keys: "gen_keypair c w0 = (bob, w1)" "gen_keypair c w1 = (spk, w2)"
    and sign: "vxeddsa_sign c e w2 (secret bob) (public spk) = (Ok out, w3)"
    and base: "vrf_base c e (compress e (snd (calculate_key_pair e (secret bob)))) (public spk) \<noteq> identity e"
    and fresh: "\<forall>a b ad w. e2e_reply c e w0 = Ok (a, b, ad, w) \<longrightarrow> fresh_keys c a b (ascii ''Great! How are you?'') ad"
      "\<forall>a b ad w eh ct b1. e2e_second_message c e w0 = Ok (a, b, ad, w) \<and>
         encrypt c b (ascii ''I'm doing well!'') ad = (Ok (eh, ct), b1) \<longrightarrow> fresh_keys c b1 a (ascii ''Thanks for asking.'') ad"
  shows "test_e2e_signal_initial_message_flow c e w0 = Ok ()"
proof -
  note rc = ratchet_crypto_ok [OF ok]
  have small: "Suc 0 \<le> 1000" "Suc (Suc 0) \<le> 1000" "Suc (Suc (Suc 0)) \<le> 1000" by simp_all
  obtain a1 b1 ad w1 where first: "e2e_initial_message c e w0 = Ok (a1, b1, ad, w1)" and t1: "my_turn c (Suc 0) b1 a1"
      and new: "untouched a1" and ad: "length ad \<le> MAX_AD_SIZE"
    by (rule e2e_starts [OF ok curve bi keys sign base])
  obtain b2 a2 w2 where "exchange c w1 b1 a1 (ascii ''Hi Alice! Channel established.'') ad = Ok (b2, a2, w2)"
      and t2: "my_turn c (Suc (Suc 0)) a2 b2"
    by (rule turn [OF ok t1 small(1) ad untouched_fresh [OF new]])
  then have reply: "e2e_reply c e w0 = Ok (a2, b2, ad, w2)" by (simp add: e2e_reply_def first)
  have f3: "fresh_keys c a2 b2 (ascii ''Great! How are you?'') ad" using fresh(1) reply by blast
  obtain a3 b3 w3 where "exchange c w2 a2 b2 (ascii ''Great! How are you?'') ad = Ok (a3, b3, w3)"
      and t3: "my_turn c (Suc (Suc (Suc 0))) b3 a3"
    by (rule turn [OF ok t2 small(2) ad f3])
  then have second: "e2e_second_message c e w0 = Ok (a3, b3, ad, w3)" by (simp add: e2e_second_message_def reply)
  let ?ms = "[(ascii ''I'm doing well!'', ad), (ascii ''Thanks for asking.'', ad)]"
  obtain sealed b5 where send: "send_all c b3 ?ms = (Ok sealed, b5)"
    by (rule turn_sends [OF ok t3 small(3), where ms = ?ms]) (simp_all add: ad)
  obtain h2 c2 b4 r2 where two: "encrypt c b3 (ascii ''I'm doing well!'') ad = (Ok (h2, c2), b4)"
      "send_all c b4 (tl ?ms) = (Ok r2, b5)" "sealed = (h2, c2) # r2"
    using send unfolding list.sel by (rule send_all_ConsE)
  obtain h3 c3 b6 r3 where three: "encrypt c b4 (ascii ''Thanks for asking.'') ad = (Ok (h3, c3), b6)" "r2 = (h3, c3) # r3"
    using two(2) unfolding list.sel by (rule send_all_ConsE)
  have sealed: "sealed = [(h2, c2), (h3, c3)] @ r3" by (simp add: two(3) three(2))
  have front: "send_all c b3 (take 1 ?ms) = (Ok [(h2, c2)], b4)" using two(1) by simp
  have len: "length ?ms \<le> 900" "1 < length ?ms" by simp_all
  have f4: "fresh_keys c b4 a3 (fst (?ms ! 1)) (snd (?ms ! 1))" using fresh(2) second two(1) by simp
  obtain a4 w4 hk ck pub old where d3: "decrypt c w3 a3 (fst (sealed ! 1)) (snd (sealed ! 1)) (snd (?ms ! 1)) = (Ok (fst (?ms ! 1)), a4, w4)"
      and st: "mirrors c hk ck 0 (length ?ms) pub old 0 (snd (mailbox_step empty_mailbox 1)) a4"
      and lim: "catch_limits 0 (length ?ms) old 0"
      and msgs: "\<forall>j < length ?ms. chain_msg c hk ck 0 pub j (?ms ! j) (sealed ! j) \<and> no_foreign c hk old (fst (sealed ! j))"
    by (rule new_chain_starts [OF ok t3 send len front f4])
  have m: "chain_msg c hk ck 0 pub 0 (ascii ''I'm doing well!'', ad) (h2, c2) \<and> no_foreign c hk old h2"
    using msgs [rule_format, of 0] by (simp add: sealed)
  obtain a5 w5 mb where d2: "decrypt c w4 a4 h2 c2 ad = (Ok (ascii ''I'm doing well!''), a5, w5)"
      and st2: "mirrors c hk ck 0 (length ?ms) pub old 0 mb a5" and mb: "0 \<notin> mb_stored mb" "0 < mb_taken mb"
    by (rule mirrors_accepts [OF rc st lim m, where w = w4]) (auto simp: mailbox_step_def)
  obtain err a6 w6 where d2': "decrypt c w5 a5 h2 c2 ad = (Err err, a6, w6)"
    by (rule mirrors_behind [OF rc st2 lim m [THEN conjunct1] m [THEN conjunct2] _ mb, where w = w5]) simp
  show ?thesis
    using d3 by (simp add: test_e2e_signal_initial_message_flow_def second two(1) three(1) sealed d2 d2' is_err_def)
qed

text \<open>The test of the C interface, call by call.\<close>

lemma ffi_test_memory_simps [simp]:
  "next_addr (ffi_test_memory p q w) = 7" "boxes (ffi_test_memory p q w) = Map.empty" "vecs (ffi_test_memory p q w) = Map.empty"
  "c_world (ffi_test_memory p q w) = w" "(ffi_test_memory p q w)\<lparr>c_world := w'\<rparr> = ffi_test_memory p q w'"
  "encrypt_outs (ffi_test_memory p q w) 5 \<noteq> None" "decrypt_outs (ffi_test_memory p q w) 6 \<noteq> None"
  by (simp_all add: ffi_test_memory_def)

lemma ffi_test_blocks:
  assumes "caller_blocks m = caller_blocks (ffi_test_memory p q w)" and "is_array 32 p" and "is_array 32 q"
  shows "points_to bytes_at m (Addr 0) 32 (replicate 32 0x99)" "points_to bytes_at m (Addr 1) 32 p"
    "points_to bytes_at m (Addr 2) 33 (0x05 # q)"
    "points_to bytes_at m (Addr 3) (length (ascii ''Hello FFI'')) (ascii ''Hello FFI'')"
    "points_to bytes_at m (Addr 4) (length (ascii ''AD'')) (ascii ''AD'')"
  using assms by (simp_all add: points_to_def bytes_at_def ffi_test_memory_def)

lemma ffi_test_same_blocks [simp]:
  "caller_blocks (ffi_test_memory p q w) = caller_blocks (ffi_test_memory p q w') \<longleftrightarrow> True"
  by (simp add: ffi_test_memory_def)

lemma ffi_sessions:
  assumes ok: "crypto_ok c" and priv: "is_array 32 priv"
  obtains a b w1 where "my_turn c 0 a b" "untouched b" "header_nonce_counter a = 0"
    "ratchet_init_sender_ffi c (Addr 0) (Addr 2) (ffi_test_memory priv (x25519_base c priv) w) =
       Returned (Addr 7) (let m = ffi_test_memory priv (x25519_base c priv) w1 in m\<lparr>boxes := [7 \<mapsto> a], next_addr := 8\<rparr>)"
    "ratchet_init_receiver_ffi c (Addr 0) (Addr 1) (Addr 2)
         (let m = ffi_test_memory priv (x25519_base c priv) w1 in m\<lparr>boxes := [7 \<mapsto> a], next_addr := 8\<rparr>) =
       Returned (Addr 8) (let m = ffi_test_memory priv (x25519_base c priv) w1 in m\<lparr>boxes := [7 \<mapsto> a, 8 \<mapsto> b], next_addr := 9\<rparr>)"
proof -
  note rc = ratchet_crypto_ok [OF ok]
  have sk: "is_array 32 (replicate 32 (0x99 :: u8))" by simp
  have pub: "is_array 32 (x25519_base c priv)" using x25519_sizedD(1) [OF crypto_okD(4) [OF ok] priv] .
  have dec: "decode_public_key (0x05 # x25519_base c priv) = Ok (x25519_base c priv)" by (simp add: decode_public_key_def)
  obtain a w1 where a: "init_sender_state c w (replicate 32 0x99) (x25519_base c priv) = (Ok a, w1)"
    using init_sender_ok [OF rc sk pub] by blast
  obtain b where b: "init_receiver_state c (replicate 32 0x99) (priv, x25519_base c priv) = Ok b"
    using init_receiver_ok [OF rc sk priv pub] by blast
  have read: "array_ref bytes_at 32 (Addr 0) m = Returned (replicate 32 0x99) m" "array_ref bytes_at 32 (Addr 1) m = Returned priv m"
      "array_ref bytes_at 33 (Addr 2) m = Returned (0x05 # x25519_base c priv) m"
    if "caller_blocks m = caller_blocks (ffi_test_memory priv (x25519_base c priv) w)" for m
    using ffi_test_blocks [OF that priv pub] by simp_all
  note start = init_turn [OF ok sk priv a b]
  show thesis
    by (rule that [OF start(1,3,4)])
      (simp_all add: ratchet_init_sender_ffi_def ratchet_init_receiver_ffi_def c_bind_def read dec a b box_into_raw_def Let_def
        del: One_nat_def)
qed

lemma ffi_flow_passes:
  assumes ok: "crypto_ok c"
  shows "\<exists>m. test_ffi_ratchet_flow c w0 = Returned () m \<and> boxes m = Map.empty \<and> vecs m = Map.empty"
proof -
  let ?msg = "ascii ''Hello FFI''" and ?ad = "ascii ''AD''"
  obtain priv w1 where rng: "os_rng_fill 32 w0 = (priv, w1)" and priv: "is_array 32 priv" by (metis length_os_rng_fill prod.collapse)
  obtain unused w2 where rng': "os_rng_fill 32 w1 = (unused, w2)" by fastforce
  have pub: "is_array 32 (x25519_base c priv)" using x25519_sizedD(1) [OF crypto_okD(4) [OF ok] priv] .
  define m0 where "m0 w = ffi_test_memory priv (x25519_base c priv) w" for w
  obtain a b w3 where t: "my_turn c 0 a b" and new: "untouched b" "header_nonce_counter a = 0"
    and sender: "ratchet_init_sender_ffi c (Addr 0) (Addr 2) (m0 w2) = Returned (Addr 7) ((m0 w3)\<lparr>boxes := [7 \<mapsto> a], next_addr := 8\<rparr>)"
    and receiver: "ratchet_init_receiver_ffi c (Addr 0) (Addr 1) (Addr 2) ((m0 w3)\<lparr>boxes := [7 \<mapsto> a], next_addr := 8\<rparr>) =
        Returned (Addr 8) ((m0 w3)\<lparr>boxes := [7 \<mapsto> a, 8 \<mapsto> b], next_addr := 9\<rparr>)"
    by (rule ffi_sessions [OF ok priv, of w2, unfolded Let_def, folded m0_def])
  define m2 where "m2 = (m0 w3)\<lparr>boxes := [7 \<mapsto> a, 8 \<mapsto> b], next_addr := 9\<rparr>"
  have ad: "length ?ad \<le> MAX_AD_SIZE" by (simp add: short_text)
  obtain a' b' w4 where "exchange c w3 a b ?msg ?ad = Ok (a', b', w4)"
    by (rule turn [OF ok t le0 ad untouched_fresh [OF new(1)]])
  then obtain eh ct where enc: "encrypt c a ?msg ?ad = (Ok (eh, ct), a')" and dec: "decrypt c w3 b eh ct ?ad = (Ok ?msg, b', w4)"
    by (rule exchangeE)
  have inv: "ratchet_inv a" using t by (auto simp: my_turn_def dest: leadD(1))
  have ne: "eh \<noteq> []" "ct \<noteq> []" "?msg \<noteq> []" using encrypt_not_empty [OF ok inv enc] by (simp_all add: ascii_def)
  have blocks: "caller_blocks m2 = caller_blocks (ffi_test_memory priv (x25519_base c priv) w2)" by (simp add: m2_def m0_def)
  have free: "caller_blocks m2 9 = None" "caller_blocks m2 10 = None" "caller_blocks m2 11 = None"
    by (simp_all add: blocks) (simp_all add: ffi_test_memory_def)
  have m2: "boxes m2 7 = Some a" "boxes m2 8 = Some b" "vecs m2 = Map.empty" "c_world m2 = w3" "next_addr m2 = 9"
      "encrypt_outs m2 5 \<noteq> None" "decrypt_outs m2 6 \<noteq> None"
    by (simp_all add: m2_def m0_def)
  let ?er = "\<lparr> er_header = Addr 9, er_header_len = length eh, er_ciphertext = Addr 10, er_ciphertext_len = length ct, er_status = 0 \<rparr>"
  define m3 where "m3 = m2\<lparr>boxes := [7 \<mapsto> a', 8 \<mapsto> b], vecs := [9 \<mapsto> eh, 10 \<mapsto> ct], next_addr := 11, encrypt_outs := (encrypt_outs m2)(5 \<mapsto> ?er)\<rparr>"
  note arg2 = ffi_test_blocks [OF blocks priv pub]
  have encrypted: "ratchet_encrypt_ffi c (Addr 7) (Addr 3) (length ?msg) (Addr 4) (length ?ad) (Addr 5) m2 = Returned 0 m3"
    using encrypt_ffi_run [OF m2(1) optional_slice_points [OF arg2(4)] optional_slice_points [OF arg2(5)] enc]
      return_message_Ok [of "m2\<lparr>boxes := (boxes m2)(7 \<mapsto> a')\<rparr>" 5 eh ct] m2(6) ne
    by (simp add: m3_def m2(3,5)) (simp add: m2_def fun_upd_twist)
  have m3: "boxes m3 8 = Some b" "c_world m3 = w3" "next_addr m3 = 11" "vecs m3 = [9 \<mapsto> eh, 10 \<mapsto> ct]" "decrypt_outs m3 6 \<noteq> None"
      "encrypt_outs m3 5 = Some ?er" "caller_blocks m3 = caller_blocks m2"
    using m2 by (simp_all add: m3_def)
  have at: "bytes_at m3 9 = Some eh" "bytes_at m3 10 = Some ct" using free by (simp_all add: bytes_at_def m3)
  note arg3 = ffi_test_blocks [OF trans [OF m3(7) blocks] priv pub]
  let ?dr = "\<lparr> dr_plaintext = Addr 11, dr_plaintext_len = length ?msg, dr_status = 0 \<rparr>"
  define m4 where "m4 = m3\<lparr>boxes := [7 \<mapsto> a', 8 \<mapsto> b'], c_world := w4, vecs := [9 \<mapsto> eh, 10 \<mapsto> ct, 11 \<mapsto> ?msg],
                  next_addr := 12, decrypt_outs := (decrypt_outs m3)(6 \<mapsto> ?dr)\<rparr>"
  have decrypted: "ratchet_decrypt_ffi c (Addr 8) (Addr 9) (length eh) (Addr 10) (length ct) (Addr 4) (length ?ad) (Addr 6) m3 = Returned 0 m4"
    using decrypt_ffi_run [OF m3(1) points_to_block [OF at(1)] optional_slice_points [OF points_to_block [OF at(2)]]
        optional_slice_points [OF arg3(5)] dec [folded m3(2)]]
      return_plaintext_Ok [of "m3\<lparr>boxes := (boxes m3)(8 \<mapsto> b'), c_world := w4\<rparr>" 6 ?msg] m3(5) ne(3)
    by (simp add: m4_def m3(3,4)) (simp add: m3_def)
  have m4: "decrypt_outs m4 6 = Some ?dr" "vecs m4 = [9 \<mapsto> eh, 10 \<mapsto> ct, 11 \<mapsto> ?msg]" "caller_blocks m4 = caller_blocks m2"
      "boxes m4 = [7 \<mapsto> a', 8 \<mapsto> b']"
    by (simp_all add: m4_def m3(7))
  have "bytes_at m4 11 = Some ?msg" using free by (simp add: bytes_at_def m4(2,3))
  then have read: "from_raw_parts bytes_at (Addr 11) (length ?msg) m4 = Returned ?msg m4"
    by (rule from_raw_parts_valid [OF points_to_block])
  have freed: "ratchet_free_result_buffers (Addr 9) (length eh) (Addr 10) (length ct) m4 = Returned () (m4\<lparr>vecs := [11 \<mapsto> ?msg]\<rparr>)"
      "ratchet_free_byte_buffer (Addr 11) (length ?msg) (m4\<lparr>vecs := [11 \<mapsto> ?msg]\<rparr>) = Returned () (m4\<lparr>vecs := Map.empty\<rparr>)"
      "ratchet_free_ffi (Addr 7) (m4\<lparr>vecs := Map.empty\<rparr>) = Returned () (m4\<lparr>vecs := Map.empty, boxes := [8 \<mapsto> b']\<rparr>)"
      "ratchet_free_ffi (Addr 8) (m4\<lparr>vecs := Map.empty, boxes := [8 \<mapsto> b']\<rparr>) = Returned () (m4\<lparr>vecs := Map.empty, boxes := Map.empty\<rparr>)"
    using ne m4(2,4)
    by (simp_all add: ratchet_free_result_buffers_def ratchet_free_byte_buffer_def ratchet_free_ffi_def drop_vec_def drop_box_def
        c_bind_def fun_eq_iff)
  have "test_ffi_ratchet_flow c w0 = Returned () (m4\<lparr>vecs := Map.empty, boxes := Map.empty\<rparr>)"
    by (simp add: test_ffi_ratchet_flow_def rng rng' m0_def [symmetric] c_bind_def sender receiver m2_def [symmetric] encrypted
        c_assert_def read_struct_def m3(6) decrypted m4(1) read freed Let_def del: One_nat_def)
  then show ?thesis by (intro exI [of _ "m4\<lparr>vecs := Map.empty, boxes := Map.empty\<rparr>"]) simp
qed

text \<open>The tests of signatures that must be refused rely on the hash: the challenge computed from the altered
  input must not be the one in the signature. By \<open>signature_binds\<close> in \<open>Vxeddsa\<close> it could be only after a
  collision, unless the challenge itself was altered.\<close>

definition challenge_misses :: "crypto \<Rightarrow> ('p, 's) curve \<Rightarrow> bytes \<Rightarrow> bytes \<Rightarrow> bytes \<Rightarrow> bool" where
  "challenge_misses c e pk message sig \<longleftrightarrow>
     scalar_from_canonical e (slice 32 64 sig) \<noteq> Some (scalar_from_wide e (hash_i c 4 (checked_bytes c e pk message sig)))"

lemma missed_refused:
  assumes ok: "crypto_ok c" and bi: "birational c e" and k: "is_array 32 k"
    and miss: "challenge_misses c e (gen_pubkey c k) message sig"
  shows "vxeddsa_verify c e (gen_pubkey c k) message sig = (Ok None :: (bytes option, 'e) result)"
proof -
  let ?v = "vxeddsa_verify c e (gen_pubkey c k) message sig :: (bytes option, 'e) result"
  have "?v \<noteq> Ok (Some v)" for v
    using miss by (auto simp: challenge_misses_def elim: accepted_challenge)
  moreover have "?v \<noteq> Panic"
  proof -
    have "decode_public_key (gen_pubkey c k) = Ok (x25519_base c k)"
      using crypto_okD(4) [OF ok] k unfolding gen_pubkey_def by (intro pubkey.dec_enc) (simp add: x25519_sized_def)
    then show ?thesis
      by (simp add: vxeddsa_verify_def convert_public_key [OF bi k] Let_def split: option.split)
  qed
  ultimately show ?thesis
    using vxeddsa_verify_no_Err [of c e "gen_pubkey c k" message sig] by (metis option.exhaust result.exhaust)
qed

text \<open>Bob's identity, prekey and signature as the protocol tests make them, with a nonce that is not zero
  and on a prekey that does not hash to the identity; and a seed with a signed message.\<close>

definition prekey_signed :: "crypto \<Rightarrow> ('p, 's) curve \<Rightarrow> World \<Rightarrow> VKeyPair \<Rightarrow> VKeyPair \<Rightarrow> bytes \<Rightarrow> bool" where
  "prekey_signed c e w0 bob spk sig \<longleftrightarrow>
     (\<exists>w1 w2 out w3. gen_keypair c w0 = (bob, w1) \<and> gen_keypair c w1 = (spk, w2) \<and>
        vxeddsa_sign c e w2 (secret bob) (public spk) = (Ok out, w3) \<and> signature out = sig \<and>
        vrf_base c e (compress e (snd (calculate_key_pair e (secret bob)))) (public spk) \<noteq> identity e)"

definition message_signed :: "crypto \<Rightarrow> ('p, 's) curve \<Rightarrow> World \<Rightarrow> bytes \<Rightarrow> bytes \<Rightarrow> bytes \<Rightarrow> World \<Rightarrow> bool" where
  "message_signed c e w0 seed msg sig w3 \<longleftrightarrow>
     (\<exists>w1 w2 out. gen_secret w0 = (seed, w1) \<and> gen_secret w1 = (msg, w2) \<and>
        vxeddsa_sign c e w2 seed msg = (Ok out, w3) \<and> signature out = sig \<and>
        vrf_base c e (compress e (snd (calculate_key_pair e seed))) msg \<noteq> identity e)"

lemma gen_secret_sized: "gen_secret w = (k, w') \<Longrightarrow> is_array 32 k"
  by (metis fst_conv gen_secret_def length_os_rng_fill)

lemma x3dh_tests_pass:
  assumes ok: "crypto_ok c" and curve: "curve_ok e" and bi: "birational c e" and signed: "prekey_signed c e w0 bob spk sig"
  shows "test_x3dh_success_with_opk c e w0 = Ok ()" "test_x3dh_success_without_opk c e w0 = Ok ()"
    "challenge_misses c e (public bob) (public spk) (flip_at 0 sig) \<Longrightarrow> test_invalid_signature c e w0 = Ok ()"
proof -
  obtain w1 w2 out w3 where keys: "gen_keypair c w0 = (bob, w1)" "gen_keypair c w1 = (spk, w2)"
      and sign: "vxeddsa_sign c e w2 (secret bob) (public spk) = (Ok out, w3)" and sig: "signature out = sig"
      and base: "vrf_base c e (compress e (snd (calculate_key_pair e (secret bob)))) (public spk) \<noteq> identity e"
    using signed by (auto simp: prekey_signed_def)
  have pub: "public bob = gen_pubkey c (secret bob)" "is_array 32 (secret bob)"
      "public spk = gen_pubkey c (secret spk)" "is_array 32 (secret spk)"
    using gen_keypair_public [OF keys(1)] gen_keypair_public [OF keys(2)] by simp_all
  obtain kp w4 where kp: "gen_keypair c w3 = (kp, w4)" "public kp = gen_pubkey c (secret kp)" "is_array 32 (secret kp)"
    by (rule gen_keypair_total)
  obtain kp' w5 where kp': "gen_keypair c w4 = (kp', w5)" "public kp' = gen_pubkey c (secret kp')" "is_array 32 (secret kp')"
    by (rule gen_keypair_total)
  let ?b = "\<lambda>s opk. \<lparr> identity_key = gen_pubkey c (secret bob),
             signed_prekey = \<lparr> spk_id = 1, spk_public_key = gen_pubkey c (secret spk), spk_signature = s \<rparr>,
             one_time_prekey = map_option (\<lambda>k. \<lparr> opk_id = 1, opk_public_key = gen_pubkey c k \<rparr>) opk \<rparr>"
  have agree: "\<exists>r w'. x3dh_initiator c e w ia (?b (signature out) opk) = (Ok r, w') \<and>
      x3dh_responder c e (secret bob) (secret spk) opk (gen_pubkey c ia) (ephemeral_public r) = Ok (shared_secret r)"
    if "is_array 32 ia" "pred_option (is_array 32) opk" for ia opk w
    using genuine_agreement [OF ok curve bi that(1) pub(2,4) that(2) sign [unfolded pub(3)] base [unfolded pub(3)],
        where bndl = "?b (signature out) opk" and i = 1 and j = 1 and w = w] by blast
  obtain r w6 where opk: "x3dh_initiator c e w5 (secret kp') (?b (signature out) (Some (secret kp))) = (Ok r, w6)"
      "x3dh_responder c e (secret bob) (secret spk) (Some (secret kp)) (gen_pubkey c (secret kp')) (ephemeral_public r) = Ok (shared_secret r)"
    using agree [of "secret kp'" "Some (secret kp)" w5] kp(3) kp'(3) by auto
  then show "test_x3dh_success_with_opk c e w0 = Ok ()"
    by (simp add: test_x3dh_success_with_opk_def keys sign [unfolded pub(3)] pub(1,3) kp(1,2) kp'(1,2))
  obtain r w6 where "x3dh_initiator c e w4 (secret kp) (?b (signature out) None) = (Ok r, w6)"
      "x3dh_responder c e (secret bob) (secret spk) None (gen_pubkey c (secret kp)) (ephemeral_public r) = Ok (shared_secret r)"
    using agree [of "secret kp" None w4] kp(3) by auto
  then show "test_x3dh_success_without_opk c e w0 = Ok ()"
    by (simp add: test_x3dh_success_without_opk_def keys sign [unfolded pub(3)] pub(1,3) kp(1,2))
  assume "challenge_misses c e (public bob) (public spk) (flip_at 0 sig)"
  then have miss: "challenge_misses c e (gen_pubkey c (secret bob)) (gen_pubkey c (secret spk)) (flip_at 0 sig)"
    by (simp add: pub(1,3) [symmetric])
  have "check_signature c e (?b (flip_at 0 sig) None) = Err InvalidSignature"
    by (simp add: check_signature_def missed_refused [OF ok bi pub(2) miss])
  then have "x3dh_initiator c e w4 (secret kp) (?b (flip_at 0 sig) None) = (Err InvalidSignature, w4)"
    by (simp add: x3dh_initiator_def check_keys_genuine [OF ok curve bi pub(2,4)] check_one_time_key_def)
  then show "test_invalid_signature c e w0 = Ok ()"
    by (simp add: test_invalid_signature_def keys sign [unfolded pub(3)] pub(1,3) kp(1,2) sig)
qed

lemma signature_tests_pass:
  assumes ok: "crypto_ok c" and curve: "curve_ok e" and bi: "birational c e" and signed: "message_signed c e w0 seed msg sig w3"
  shows "test_sign_and_verify_success c e w0 = Ok ()"
    "challenge_misses c e (gen_pubkey c seed) (flip_at 0 msg) sig \<Longrightarrow> test_verify_fails_on_wrong_message c e w0 = Ok ()"
    "challenge_misses c e (gen_pubkey c (fst (gen_secret w3))) msg sig \<Longrightarrow> test_verify_fails_on_wrong_key c e w0 = Ok ()"
    "\<forall>i \<in> {0, 35, 90}. challenge_misses c e (gen_pubkey c seed) msg (flip_at i sig) \<Longrightarrow>
       test_verify_fails_on_corrupted_signature c e w0 = Ok ()"
proof -
  obtain w1 w2 out where run: "gen_secret w0 = (seed, w1)" "gen_secret w1 = (msg, w2)"
      "vxeddsa_sign c e w2 seed msg = (Ok out, w3)" and sig: "signature out = sig"
      and base: "vrf_base c e (compress e (snd (calculate_key_pair e seed))) msg \<noteq> identity e"
    using signed by (auto simp: message_signed_def)
  note k = gen_secret_sized [OF run(1)] and refused = missed_refused [OF ok bi]
  have "vxeddsa_verify c e (gen_pubkey c seed) msg (signature out) = (Ok (Some (vrf out)) :: (bytes option, unit) result)"
    using signed_verifies [OF ok curve bi k run(3)] base calculate_key_pair_spec(2) [OF curve k] by simp
  then show "test_sign_and_verify_success c e w0 = Ok ()" by (simp add: test_sign_and_verify_success_def run)
  show "test_verify_fails_on_wrong_message c e w0 = Ok ()" if "challenge_misses c e (gen_pubkey c seed) (flip_at 0 msg) sig"
    by (simp add: test_verify_fails_on_wrong_message_def run sig refused [OF k that])
  show "test_verify_fails_on_corrupted_signature c e w0 = Ok ()"
    if "\<forall>i \<in> {0, 35, 90}. challenge_misses c e (gen_pubkey c seed) msg (flip_at i sig)"
  proof -
    have miss: "challenge_misses c e (gen_pubkey c seed) msg (flip_at 0 sig)" "challenge_misses c e (gen_pubkey c seed) msg (flip_at 35 sig)"
        "challenge_misses c e (gen_pubkey c seed) msg (flip_at 90 sig)"
      using that by simp_all
    show ?thesis
      by (simp add: test_verify_fails_on_corrupted_signature_def run sig missed_refused [OF ok bi k miss(1)]
          missed_refused [OF ok bi k miss(2)] missed_refused [OF ok bi k miss(3)])
  qed
  assume miss: "challenge_misses c e (gen_pubkey c (fst (gen_secret w3))) msg sig"
  obtain wrong w4 where wrong: "gen_secret w3 = (wrong, w4)" by (cases "gen_secret w3")
  have "challenge_misses c e (gen_pubkey c wrong) msg sig" using miss by (simp add: wrong)
  note wrong_refused = missed_refused [OF ok bi gen_secret_sized [OF wrong] this]
  show "test_verify_fails_on_wrong_key c e w0 = Ok ()"
    by (simp add: test_verify_fails_on_wrong_key_def run sig wrong wrong_refused)
qed

section \<open>Properties\<close>

text \<open>C36: The repository's integration tests pass whatever randomness they draw: delivery out of order
  and the run of a C caller, which ends with every session and buffer freed, in any case; the
  exchange of three messages and the protocol from the prekey bundle to a refused duplicate
  unless a new key collides with a key held; the tests of the key agreement and of signatures
  when a signature is made on a message that does not hash to the identity, those that must fail
  unless the altered input yields the very challenge in the signature.\<close>

theorem integration_tests_pass:
  assumes "crypto_ok c" and "curve_ok e" and "birational c e"
  shows "test_ratchet_integration_out_of_order c w0 = Ok () \<and>
    (\<exists>m. test_ffi_ratchet_flow c w0 = Returned () m \<and> boxes m = Map.empty \<and> vecs m = Map.empty) \<and>
    ((\<forall>a b w. integration_two_messages c w0 = Ok (a, b, w) \<longrightarrow> fresh_keys c a b (ascii ''How are you?'') []) \<longrightarrow>
       test_ratchet_integration_basic_flow c w0 = Ok ()) \<and>
    (\<forall>bob spk sig. prekey_signed c e w0 bob spk sig \<longrightarrow>
       test_x3dh_success_with_opk c e w0 = Ok () \<and> test_x3dh_success_without_opk c e w0 = Ok () \<and>
       (challenge_misses c e (public bob) (public spk) (flip_at 0 sig) \<longrightarrow> test_invalid_signature c e w0 = Ok ()) \<and>
       ((\<forall>a b ad w. e2e_reply c e w0 = Ok (a, b, ad, w) \<longrightarrow> fresh_keys c a b (ascii ''Great! How are you?'') ad) \<and>
        (\<forall>a b ad w eh ct b1. e2e_second_message c e w0 = Ok (a, b, ad, w) \<and>
           encrypt c b (ascii ''I'm doing well!'') ad = (Ok (eh, ct), b1) \<longrightarrow> fresh_keys c b1 a (ascii ''Thanks for asking.'') ad) \<longrightarrow>
        test_e2e_signal_initial_message_flow c e w0 = Ok ())) \<and>
    (\<forall>seed msg sig w. message_signed c e w0 seed msg sig w \<longrightarrow>
       test_sign_and_verify_success c e w0 = Ok () \<and>
       (challenge_misses c e (gen_pubkey c seed) (flip_at 0 msg) sig \<longrightarrow> test_verify_fails_on_wrong_message c e w0 = Ok ()) \<and>
       (challenge_misses c e (gen_pubkey c (fst (gen_secret w))) msg sig \<longrightarrow> test_verify_fails_on_wrong_key c e w0 = Ok ()) \<and>
       ((\<forall>i \<in> {0, 35, 90}. challenge_misses c e (gen_pubkey c seed) msg (flip_at i sig)) \<longrightarrow>
          test_verify_fails_on_corrupted_signature c e w0 = Ok ()))"
proof (intro conjI allI impI; (elim conjE)?)
  show "test_ratchet_integration_out_of_order c w0 = Ok ()" by (rule integration_out_of_order_passes [OF assms(1)])
  show "\<exists>m. test_ffi_ratchet_flow c w0 = Returned () m \<and> boxes m = Map.empty \<and> vecs m = Map.empty"
    by (rule ffi_flow_passes [OF assms(1)])
  show "test_ratchet_integration_basic_flow c w0 = Ok ()"
    if "\<forall>a b w. integration_two_messages c w0 = Ok (a, b, w) \<longrightarrow> fresh_keys c a b (ascii ''How are you?'') []"
    by (rule integration_basic_flow_passes [OF assms(1) that])
  fix bob spk sig
  assume signed: "prekey_signed c e w0 bob spk sig"
  note x3dh = x3dh_tests_pass [OF assms signed]
  show "test_x3dh_success_with_opk c e w0 = Ok ()" "test_x3dh_success_without_opk c e w0 = Ok ()" by (rule x3dh)+
  show "test_invalid_signature c e w0 = Ok ()" if "challenge_misses c e (public bob) (public spk) (flip_at 0 sig)"
    by (rule x3dh(3) [OF that])
  show "test_e2e_signal_initial_message_flow c e w0 = Ok ()"
    if "\<forall>a b ad w. e2e_reply c e w0 = Ok (a, b, ad, w) \<longrightarrow> fresh_keys c a b (ascii ''Great! How are you?'') ad"
      "\<forall>a b ad w eh ct b1. e2e_second_message c e w0 = Ok (a, b, ad, w) \<and>
         encrypt c b (ascii ''I'm doing well!'') ad = (Ok (eh, ct), b1) \<longrightarrow> fresh_keys c b1 a (ascii ''Thanks for asking.'') ad"
    using signed unfolding prekey_signed_def by (elim exE conjE) (rule e2e_passes [OF assms _ _ _ _ that])
qed (blast intro: signature_tests_pass [OF assms])+

theorem integration_tests_pass_witness:
  "test_ratchet_integration_out_of_order signing_crypto demo_world = Ok () \<and>
   (\<exists>m. test_ffi_ratchet_flow signing_crypto demo_world = Returned () m \<and> boxes m = Map.empty \<and> vecs m = Map.empty) \<and>
   test_x3dh_success_with_opk signing_crypto binary_curve demo_world = Ok ()"
proof -
  note tests = integration_tests_pass [OF signing_crypto_ok binary_curve_ok binary_birational, of demo_world]
  obtain bob w1 spk w2 where keys: "gen_keypair signing_crypto demo_world = (bob, w1)" "gen_keypair signing_crypto w1 = (spk, w2)"
    by (metis prod.collapse)
  obtain out w4 where sign: "vxeddsa_sign signing_crypto binary_curve w2 (secret bob) (public spk) = (Ok out, w4)"
    using binary_signs by blast
  have "vrf_base signing_crypto binary_curve (compress binary_curve (snd (calculate_key_pair binary_curve (secret bob)))) (public spk)
      \<noteq> identity binary_curve"
    by (simp add: vrf_base_def run_simps)
  then have "prekey_signed signing_crypto binary_curve demo_world bob spk (signature out)"
    unfolding prekey_signed_def using keys sign by blast
  then have "test_x3dh_success_with_opk signing_crypto binary_curve demo_world = Ok ()"
    using tests [THEN conjunct2, THEN conjunct2, THEN conjunct2, THEN conjunct1] by blast
  moreover have "test_ratchet_integration_out_of_order signing_crypto demo_world = Ok ()" by (rule tests [THEN conjunct1])
  moreover have "\<exists>m. test_ffi_ratchet_flow signing_crypto demo_world = Returned () m \<and> boxes m = Map.empty \<and> vecs m = Map.empty"
    by (rule tests [THEN conjunct2, THEN conjunct1])
  ultimately show ?thesis by blast
qed

end
