(* ===== verification/Memory_Hygiene.thy ===== *)
theory Memory_Hygiene
  imports Chain_Delivery
begin

text \<open>
  Which secrets outlive their use. The derives \<^verbatim>\<open>Zeroize\<close> and \<^verbatim>\<open>ZeroizeOnDrop\<close> of
  \<^verbatim>\<open>RatchetState\<close> erase the fields that are not marked \<^verbatim>\<open>#[zeroize(skip)]\<close>: an array becomes
  zeros, an option is erased and becomes \<^verbatim>\<open>None\<close> (the documented behaviour of the \<^verbatim>\<open>zeroize\<close>
  crate). What a dropped session leaves in memory is the erased state; its key pair erases
  itself, the map of skipped keys does not.
\<close>

section \<open>Erasing a session\<close>

definition zeroize_array :: "bytes \<Rightarrow> bytes" where
  "zeroize_array b = replicate (length b) 0"

definition zeroize_option :: "bytes option \<Rightarrow> bytes option" where
  "zeroize_option x = None"

definition zeroize_state :: "RatchetState \<Rightarrow> RatchetState" where
  "zeroize_state st =
     st\<lparr>rk := zeroize_array (rk st),
        ck_s := zeroize_option (ck_s st), ck_r := zeroize_option (ck_r st),
        hk_s := zeroize_option (hk_s st), hk_r := zeroize_option (hk_r st),
        nhk_s := zeroize_array (nhk_s st), nhk_r := zeroize_array (nhk_r st)\<rparr>"

lemma zeroize_state_fields:
  "wf_state st \<Longrightarrow> rk (zeroize_state st) = replicate 32 0" "wf_state st \<Longrightarrow> nhk_s (zeroize_state st) = replicate 32 0"
  "wf_state st \<Longrightarrow> nhk_r (zeroize_state st) = replicate 32 0"
  "ck_s (zeroize_state st) = None" "ck_r (zeroize_state st) = None" "hk_s (zeroize_state st) = None"
  "hk_r (zeroize_state st) = None" "mkskipped (zeroize_state st) = mkskipped st"
  by (simp_all add: zeroize_state_def zeroize_array_def zeroize_option_def wf_stateD)

section \<open>A message received over a gap\<close>

text \<open>Message \<open>i\<close> of a batch is the first to arrive: what the receiver holds then.\<close>

lemma first_to_arrive:
  assumes ok: "crypto_ok c" and conv: "conversation c a b" and step: "in_step a b"
    and lim: "batch_limits b (length ms)" and send: "send_all c a ms = (Ok sealed, a')"
    and apart: "sealed_apart c b sealed" and i: "i < length ms"
  obtains hk ck pub b1 w1 where
    "decrypt c w b (fst (sealed ! i)) (snd (sealed ! i)) (snd (ms ! i)) = (Ok (fst (ms ! i)), b1, w1)"
    "catching c hk ck (unat (nr b)) (length ms) pub (dom (map_of (mkskipped b))) (fcard (received_messages b)) {i} 1 b1"
    "\<forall>j < length ms. chain_msg c hk ck (unat (nr b)) pub j (ms ! j) (sealed ! j) \<and>
       no_foreign c hk (dom (map_of (mkskipped b))) (fst (sealed ! j))"
    "\<forall>n. unat (nr b) \<le> unat n \<and> unat n < unat (nr b) + i \<longrightarrow> map_of (mkskipped b1) (hk, n) \<noteq> None"
proof (rule in_step_catching [OF ok conv step lim send apart])
  fix hk ck pub
  let ?n0 = "unat (nr b)" and ?old = "dom (map_of (mkskipped b))" and ?r0 = "fcard (received_messages b)"
  assume st: "catching c hk ck ?n0 (length ms) pub ?old ?r0 {} 0 b" and limits: "catch_limits ?n0 (length ms) ?old ?r0"
    and msgs: "\<And>j. j < length ms \<Longrightarrow> chain_msg c hk ck ?n0 pub j (ms ! j) (sealed ! j) \<and> no_foreign c hk ?old (fst (sealed ! j))"
    and none: "\<And>n. ?n0 \<le> unat n \<Longrightarrow> map_of (mkskipped b) (hk, n) = None"
  have msg: "chain_msg c hk ck ?n0 pub i (fst (ms ! i), snd (ms ! i)) (fst (sealed ! i), snd (sealed ! i))"
      "no_foreign c hk ?old (fst (sealed ! i))"
    using msgs [OF i] by simp_all
  have "map_of (mkskipped b) (hk, n) = None" if "unat n = ?n0 + i" for n using none [of n] that by simp
  from catching_ahead [OF ratchet_crypto_ok [OF ok] st limits i _ _ msg this, of w]
  obtain b1 w1 where "decrypt c w b (fst (sealed ! i)) (snd (sealed ! i)) (snd (ms ! i)) = (Ok (fst (ms ! i)), b1, w1)"
      "catching c hk ck ?n0 (length ms) pub ?old ?r0 {i} 1 b1"
      "\<forall>n. ?n0 \<le> unat n \<and> unat n < ?n0 + i \<longrightarrow> map_of (mkskipped b1) (hk, n) \<noteq> None" by auto
  with msgs show thesis by (intro that) auto
qed

section \<open>Properties\<close>

text \<open>C18: A dropped session keeps its skipped message keys. After the erasure that dropping a session
  performs, the root, chain and header keys are gone, but the map of skipped keys is as it was:
  what is left in memory still decrypts every message that was missed.\<close>

theorem erased_session_reads_missed:
  assumes "crypto_ok c" and "conversation c a b" and "in_step a b" and "batch_limits b (length ms)"
    and "send_all c a ms = (Ok sealed, a')" and "sealed_apart c b sealed" and "i < length ms" and "j < i"
    and "decrypt c w b (fst (sealed ! i)) (snd (sealed ! i)) (snd (ms ! i)) = (r, b1, w1)"
  shows "rk (zeroize_state b1) = replicate 32 0 \<and> ck_r (zeroize_state b1) = None \<and> hk_r (zeroize_state b1) = None \<and>
    (\<exists>z. decrypt c w1 (zeroize_state b1) (fst (sealed ! j)) (snd (sealed ! j)) (snd (ms ! j)) = (Ok (fst (ms ! j)), z, w1))"
proof (rule first_to_arrive [OF assms(1-7), where w = w])
  fix hk ck pub b1' w1'
  let ?n0 = "unat (nr b)" and ?old = "dom (map_of (mkskipped b))" and ?r0 = "fcard (received_messages b)"
  assume dec: "decrypt c w b (fst (sealed ! i)) (snd (sealed ! i)) (snd (ms ! i)) = (Ok (fst (ms ! i)), b1', w1')"
    and st': "catching c hk ck ?n0 (length ms) pub ?old ?r0 {i} 1 b1'"
    and msgs: "\<forall>j < length ms. chain_msg c hk ck ?n0 pub j (ms ! j) (sealed ! j) \<and> no_foreign c hk ?old (fst (sealed ! j))"
    and gap: "\<forall>n. ?n0 \<le> unat n \<and> unat n < ?n0 + i \<longrightarrow> map_of (mkskipped b1') (hk, n) \<noteq> None"
  have st: "catching c hk ck ?n0 (length ms) pub ?old ?r0 {i} 1 b1" using st' dec assms(9) by simp
  have j: "chain_msg c hk ck ?n0 pub j (fst (ms ! j), snd (ms ! j)) (fst (sealed ! j), snd (sealed ! j))"
      "no_foreign c hk ?old (fst (sealed ! j))"
    using msgs assms(7,8) by simp_all
  have "?n0 + j < 2 ^ 32" using assms(4,7,8) by (simp add: batch_limits_def)
  then obtain n :: u32 where n: "unat n = ?n0 + j" by (rule unat_u32)
  then have "map_of (mkskipped b1) (hk, n) \<noteq> None" using gap assms(8,9) dec by simp
  note entry = catching_entry [OF st j this n]
  note wf = ratchet_invD(1) [OF catchingD(1) [OF st]] and store = zeroize_state_fields(8) [of b1]
  have "\<exists>z. decrypt c w1 (zeroize_state b1) (fst (sealed ! j)) (snd (sealed ! j)) (snd (ms ! j)) = (Ok (fst (ms ! j)), z, w1)"
    by (rule exI, rule decrypt_from_store [OF ratchet_crypto_ok [OF assms(1)] entry(1)])
      (unfold store, rule entry(2), erule entry(3))
  then show ?thesis by (auto simp: zeroize_state_fields wf)
qed

theorem erased_session_reads_missed_witness:
  "\<exists>b s0 s1 b1 w1 z. decrypt reference_crypto demo_world b (fst s1) (snd s1) [] = (Ok [2], b1, w1) \<and>
     decrypt reference_crypto w1 (zeroize_state b1) (fst s0) (snd s0) [] = (Ok [1], z, w1)"
proof -
  let ?ms = "[([1], []), ([2], [])] :: (bytes \<times> bytes) list"
  obtain a b sealed a' where run: "conversation reference_crypto a b" "in_step a b" "batch_limits b 3"
    "send_all reference_crypto a ?ms = (Ok sealed, a')" "sealed_apart reference_crypto b sealed"
    by (rule demo_in_step [of ?ms]) auto
  have lim: "batch_limits b (length ?ms)" using run(3) by (simp add: batch_limits_def)
  obtain r b1 w1 where dec: "decrypt reference_crypto demo_world b (fst (sealed ! 1)) (snd (sealed ! 1)) (snd (?ms ! 1)) = (r, b1, w1)"
    by (metis prod_cases3)
  have "1 < length ?ms" "(0 :: nat) < 1" by simp_all
  from erased_session_reads_missed [OF reference_crypto_ok run(1,2) lim run(4,5) this dec]
  obtain z where z: "decrypt reference_crypto w1 (zeroize_state b1) (fst (sealed ! 0)) (snd (sealed ! 0)) [] = (Ok [1], z, w1)"
    by auto
  have "r = Ok [2]"
    by (rule first_to_arrive [OF reference_crypto_ok run(1,2) lim run(4,5) \<open>1 < length ?ms\<close>, where w = demo_world])
      (use dec in simp)
  with dec have "decrypt reference_crypto demo_world b (fst (sealed ! 1)) (snd (sealed ! 1)) [] = (Ok [2], b1, w1)"
    by simp
  with z show ?thesis by blast
qed

text \<open>C17: A consumed message key can be computed again. After a message was received over a gap, the
  session's own receiving chain still yields the key of that message from its header, and the
  key opens the ciphertext: the chain moved by one step only, so the key was not erased.\<close>

theorem consumed_key_recoverable:
  assumes "crypto_ok c" and "conversation c a b" and "in_step a b" and "batch_limits b (length ms)"
    and "send_all c a ms = (Ok sealed, a')" and "sealed_apart c b sealed" and "i < length ms" and "0 < i"
    and "decrypt c w b (fst (sealed ! i)) (snd (sealed ! i)) (snd (ms ! i)) = (r, b1, w1)"
  shows "r = Ok (fst (ms ! i)) \<and>
    (\<exists>h mk. decrypt_header c b1 (fst (sealed ! i)) = Ok (h, False) \<and> compute_message_key c b1 h False = Ok mk \<and>
       decrypt_aead c mk (snd (sealed ! i)) (concat_ad (snd (ms ! i)) (fst (sealed ! i))) = Ok (fst (ms ! i)))"
proof (rule first_to_arrive [OF assms(1-7), where w = w])
  fix hk ck pub b1' w1'
  let ?n0 = "unat (nr b)" and ?old = "dom (map_of (mkskipped b))" and ?r0 = "fcard (received_messages b)"
  assume dec: "decrypt c w b (fst (sealed ! i)) (snd (sealed ! i)) (snd (ms ! i)) = (Ok (fst (ms ! i)), b1', w1')"
    and st': "catching c hk ck ?n0 (length ms) pub ?old ?r0 {i} 1 b1'"
    and msgs: "\<forall>j < length ms. chain_msg c hk ck ?n0 pub j (ms ! j) (sealed ! j) \<and> no_foreign c hk ?old (fst (sealed ! j))"
  have st: "catching c hk ck ?n0 (length ms) pub ?old ?r0 {i} 1 b1" using st' dec assms(9) by simp
  obtain h where h: "decrypt_header_with_key c hk (fst (sealed ! i)) = Ok h" "unat (hdr_n h) = ?n0 + i"
      and p: "decrypt_aead c (message_key c i ck) (snd (sealed ! i)) (concat_ad (snd (ms ! i)) (fst (sealed ! i))) = Ok (fst (ms ! i))"
    using msgs assms(7) by (auto simp: chain_msg_def)
  have "length ms \<le> 1000" "?n0 + length ms + 1000 < 2 ^ 32"
    using assms(4) by (simp_all add: batch_limits_def MAX_SKIPPED_KEYS_def)
  then have "unat (nr b1) + 1000 < 2 ^ 32" "unat (hdr_n h) \<le> unat (nr b1) + 1000" "unat (hdr_n h) - unat (nr b1) = i - 1"
    using catchingD(5) [OF st] h(2) assms(7,8) by simp_all
  then have "compute_message_key c b1 h False = Ok (message_key c (i - 1) (chain_key c 1 ck))"
    using compute_message_key_chain [OF catchingD(3) [OF st]] by simp
  then have "compute_message_key c b1 h False = Ok (message_key c i ck)"
    using assms(8) by (simp add: message_key_shift)
  moreover have "decrypt_header c b1 (fst (sealed ! i)) = Ok (h, False)"
    by (simp add: decrypt_header_def catchingD(2) [OF st] h(1))
  ultimately show ?thesis using p dec assms(9) by auto
qed

theorem consumed_key_recoverable_witness:
  "\<exists>b s1 b1 w1 h mk. decrypt reference_crypto demo_world b (fst s1) (snd s1) [] = (Ok [2], b1, w1) \<and>
     decrypt_header reference_crypto b1 (fst s1) = Ok (h, False) \<and>
     compute_message_key reference_crypto b1 h False = Ok mk \<and>
     decrypt_aead reference_crypto mk (snd s1) (concat_ad [] (fst s1)) = Ok [2]"
proof -
  let ?ms = "[([1], []), ([2], [])] :: (bytes \<times> bytes) list"
  obtain a b sealed a' where run: "conversation reference_crypto a b" "in_step a b" "batch_limits b 3"
    "send_all reference_crypto a ?ms = (Ok sealed, a')" "sealed_apart reference_crypto b sealed"
    by (rule demo_in_step [of ?ms]) auto
  have lim: "batch_limits b (length ?ms)" using run(3) by (simp add: batch_limits_def)
  obtain r b1 w1 where dec: "decrypt reference_crypto demo_world b (fst (sealed ! 1)) (snd (sealed ! 1)) (snd (?ms ! 1)) = (r, b1, w1)"
    by (metis prod_cases3)
  have "1 < length ?ms" "(0 :: nat) < 1" by simp_all
  from consumed_key_recoverable [OF reference_crypto_ok run(1,2) lim run(4,5) this dec]
  obtain h mk where opens: "r = Ok [2]" "decrypt_header reference_crypto b1 (fst (sealed ! 1)) = Ok (h, False)"
      "compute_message_key reference_crypto b1 h False = Ok mk"
      "decrypt_aead reference_crypto mk (snd (sealed ! 1)) (concat_ad [] (fst (sealed ! 1))) = Ok [2]"
    by auto
  with dec have "decrypt reference_crypto demo_world b (fst (sealed ! 1)) (snd (sealed ! 1)) [] = (Ok [2], b1, w1)"
    by simp
  with opens show ?thesis by blast
qed

end
