(* ===== verification/Temporaries.thy ===== *)
theory Temporaries
  imports Memory_Hygiene Tampering X3dh
begin

text \<open>
  The secrets a call leaves behind on its own stack frame. The functions that call \<^verbatim>\<open>zeroize\<close> on
  their local variables are translated again, with the frame of those variables beside the
  result: \<open>keep_local\<close> at a \<^verbatim>\<open>let\<close>, \<open>zeroize_local\<close> at a \<^verbatim>\<open>zeroize\<close>. An early return leaves the
  frame as it is at that point. Arrays are \<^verbatim>\<open>Copy\<close>, so \<^verbatim>\<open>Some(dh4)\<close> makes a second copy, and
  \<^verbatim>\<open>&state.ck_s.expect(..)\<close> borrows an unnamed copy of the chain key, which is in the frame of
  \<^verbatim>\<open>encrypt\<close> under the name of that expression. Otherwise a frame holds the named secret variables
  a function does not return. What is not part of it: the parts of a tuple bound to \<^verbatim>\<open>_\<close>, the
  frames of callees (those of \<open>kdf_ck_locals\<close> and \<open>compute_message_key_locals\<close> are translated on
  their own; \<^verbatim>\<open>encrypt_aead\<close>, \<^verbatim>\<open>decrypt_aead\<close>, \<^verbatim>\<open>kdf_rk_he\<close> and \<^verbatim>\<open>skip_message_keys\<close> call no
  \<^verbatim>\<open>zeroize\<close> at all), registers and buffers the allocator has moved.
\<close>

section \<open>Frames\<close>

type_synonym frame = "string \<Rightarrow> bytes option"

definition keep_local :: "string \<Rightarrow> bytes \<Rightarrow> frame \<Rightarrow> frame" where
  "keep_local x v f = f(x \<mapsto> v)"

definition zeroize_local :: "string \<Rightarrow> frame \<Rightarrow> frame" where
  "zeroize_local x f = f(x := map_option zeroize_array (f x))"

text \<open>A frame whose variables outside \<open>xs\<close> hold zeros only.\<close>

definition erased_except :: "string set \<Rightarrow> frame \<Rightarrow> bool" where
  "erased_except xs f \<longleftrightarrow> (\<forall>x v. f x = Some v \<and> x \<notin> xs \<longrightarrow> v = replicate (length v) 0)"

lemma keep_local_apply [simp]: "keep_local x v f y = (if y = x then Some v else f y)"
  by (simp add: keep_local_def)

lemma zeroize_local_apply [simp]:
  "zeroize_local x f y = (if y = x then map_option zeroize_array (f x) else f y)"
  by (simp add: zeroize_local_def)

lemma zeroize_array_zeros [simp]: "zeroize_array v = replicate (length v) 0"
  by (simp add: zeroize_array_def)

text \<open>A call whose frame is at hand beside its environment, and the call without it.\<close>

definition with_frame :: "frame \<Rightarrow> ('a, 'e) result \<times> 's \<times> 'w \<Rightarrow> ('a, 'e) result \<times> 's \<times> 'w \<times> frame" where
  "with_frame f r = (case r of (x, s, w) \<Rightarrow> (x, s, w, f))"

definition without_frame :: "('a, 'e) result \<times> 's \<times> 'w \<times> frame \<Rightarrow> ('a, 'e) result \<times> 's \<times> 'w" where
  "without_frame r = (case r of (x, s, w, f) \<Rightarrow> (x, s, w))"

lemma frame_simps [simp]:
  "with_frame f (x, s, w) = (x, s, w, f)" "without_frame (x, s, w, f) = (x, s, w)"
  "without_frame (with_frame f r) = r" "snd (snd (snd (with_frame f r))) = f"
  by (simp_all add: with_frame_def without_frame_def split: prod.split)

section \<open>The key derivation functions of the ratchet\<close>

definition kdf_ck_locals :: "crypto \<Rightarrow> bytes \<Rightarrow> (bytes \<times> bytes) \<times> frame" where
  "kdf_ck_locals c ck =
     (let next_ck_bytes = hmac_sha256 c ck [0x01]; f = keep_local ''next_ck_bytes'' next_ck_bytes Map.empty;
          mk_bytes = hmac_sha256 c ck [0x02]; f = keep_local ''mk_bytes'' mk_bytes f;
          next_ck = next_ck_bytes; mk = mk_bytes;
          f = zeroize_local ''mk_bytes'' (zeroize_local ''next_ck_bytes'' f)
      in ((next_ck, mk), f))"

function advance_locals :: "crypto \<Rightarrow> bytes \<Rightarrow> u32 \<Rightarrow> u32 \<Rightarrow> frame \<Rightarrow> bytes \<times> frame" where
  "advance_locals c current_ck n target f =
     (if n < target
      then let f = keep_local ''old_ck'' current_ck f;
               (next_ck, mk) = kdf_ck c current_ck;
               f = keep_local ''next_ck'' next_ck f;
               f = zeroize_local ''old_ck'' f
           in advance_locals c next_ck (n + 1) target (keep_local ''current_ck'' next_ck f)
      else (current_ck, f))"
  by pat_completeness auto
termination
  by (relation "measure (\<lambda>(c, ck, n, target, f). unat target - unat n)")
    (auto simp: checked_incr_less(2) word_less_nat_alt)

declare advance_locals.simps [simp del]

definition compute_message_key_locals :: "crypto \<Rightarrow> RatchetState \<Rightarrow> RatchetHeader \<Rightarrow> bool \<Rightarrow> (bytes, RatchetError) result \<times> frame" where
  "compute_message_key_locals c st header dh_ratchet =
     (let f0 = (case ck_r st of None \<Rightarrow> Map.empty | Some ck \<Rightarrow> keep_local ''ck_r'' ck Map.empty);
          start =
            (if dh_ratchet
             then let dh_bytes = x25519_dh c (fst (dh_pair st)) (dh_pub header);
                      f = keep_local ''dh_bytes'' dh_bytes f0
                  in (case kdf_rk_he c (rk st) dh_bytes of
                        Ok (_, new_ck_r, _) \<Rightarrow>
                          (Ok (Some new_ck_r, 0),
                           keep_local ''ck_r'' new_ck_r (zeroize_local ''dh_bytes'' (keep_local ''new_ck_r'' new_ck_r f)))
                      | Err e \<Rightarrow> (Err e, f)
                      | Panic \<Rightarrow> (Panic, f))
             else (Ok (ck_r st, nr st), f0))
      in case start of
           (Err e, f) \<Rightarrow> (Err e, f)
         | (Panic, f) \<Rightarrow> (Panic, f)
         | (Ok (ckr, n), f) \<Rightarrow>
             if n + MAX_SKIP < hdr_n header then (Err OldMessageKeysLimitReached, f)
             else (case ckr of
                     None \<Rightarrow> (Err RatchetError.InvalidKey, f)
                   | Some current_ck \<Rightarrow>
                       let (ck, f) = advance_locals c current_ck n (hdr_n header) (keep_local ''current_ck'' current_ck f);
                           mk = snd (kdf_ck c ck)
                       in (Ok mk, zeroize_local ''current_ck'' f)))"

section \<open>Encryption and decryption\<close>

definition encrypt_locals :: "crypto \<Rightarrow> RatchetState \<Rightarrow> bytes \<Rightarrow> bytes \<Rightarrow> (bytes \<times> bytes, RatchetError) result \<times> RatchetState \<times> frame" where
  "encrypt_locals c st plaintext associated_data =
     bind_st (validate_encryption_state st, st, Map.empty) (\<lambda>_ st f.
     if length associated_data > MAX_AD_SIZE then (Err ADTooLarge, st, f)
     else bind_st (expect (ck_s st), st, f) (\<lambda>ck st f.
     let (next_ck, mk) = kdf_ck c ck;
         f = keep_local ''mk'' mk (keep_local ''ck_s'' next_ck (keep_local ''state.ck_s.expect'' ck f));
         st = st\<lparr>ck_s := Some next_ck\<rparr>;
         header = \<lparr> dh_pub = snd (dh_pair st), hdr_pn = pn st, hdr_n = ns st \<rparr>
     in bind_st (ok_or CounterOverflow (checked_add (ns st) 1), st, f) (\<lambda>ns' st f.
        let st = st\<lparr>ns := ns'\<rparr>
        in bind_st (encrypt_header c st header, st, f) (\<lambda>(new_nonce_counter, enc_header) st f.
           let st = st\<lparr>header_nonce_counter := new_nonce_counter\<rparr>;
               ad = concat_ad associated_data enc_header
           in bind_st (encrypt_aead c mk plaintext ad, st, f) (\<lambda>ciphertext st f.
              (Ok (enc_header, ciphertext), st, zeroize_local ''mk'' f))))))"

definition decrypt_with_ratchet_locals :: "crypto \<Rightarrow> World \<Rightarrow> RatchetState \<Rightarrow> bytes \<Rightarrow> bytes \<Rightarrow> bytes \<Rightarrow> (bytes, RatchetError) result \<times> RatchetState \<times> World \<times> frame" where
  "decrypt_with_ratchet_locals c w st enc_header ciphertext ad =
     bind_st (decrypt_header c st enc_header, st, w, Map.empty) (\<lambda>(header, dh_ratchet) st (w, f).
       let msg_id = (dh_pub header, hdr_n header)
       in if msg_id |\<in>| received_messages st then (Err DuplicateMessage, st, w, f)
          else bind_st (compute_message_key c st header dh_ratchet, st, w, f) (\<lambda>mk st (w, f).
               let f = keep_local ''mk'' mk f
               in bind_st (decrypt_aead c mk ciphertext ad, st, w, f) (\<lambda>plaintext st (w, f).
                  let f = zeroize_local ''mk'' f
                  in with_frame f (bind_st (commit_state_changes c header dh_ratchet st w) (\<lambda>_.
                       track_received msg_id plaintext)))))"

definition decrypt_locals :: "crypto \<Rightarrow> World \<Rightarrow> RatchetState \<Rightarrow> bytes \<Rightarrow> bytes \<Rightarrow> bytes \<Rightarrow> (bytes, RatchetError) result \<times> RatchetState \<times> World \<times> frame" where
  "decrypt_locals c w st enc_header ciphertext associated_data =
     (if length associated_data > MAX_AD_SIZE then (Err ADTooLarge, st, w, Map.empty)
      else let ad = concat_ad associated_data enc_header
           in bind_st (try_skipped_message_keys c w (mkskipped st) enc_header ciphertext ad, st\<lparr>mkskipped := []\<rparr>, w, Map.empty)
                (\<lambda>(m, found) st (w, f).
                  let st = st\<lparr>mkskipped := m\<rparr>
                  in (case found of
                        Some plaintext \<Rightarrow> (Ok plaintext, st, w, f)
                      | None \<Rightarrow> decrypt_with_ratchet_locals c w st enc_header ciphertext ad)))"

section \<open>The key agreement and the signature\<close>

definition x3dh_initiator_locals :: "crypto \<Rightarrow> ('p, 's) curve \<Rightarrow> World \<Rightarrow> X3DHPrivateKey \<Rightarrow> PreKeyBundle \<Rightarrow> (X3DHInitResult, X3DHError) result \<times> World \<times> frame" where
  "x3dh_initiator_locals c e w identity_private bundle =
     bind_st (and_then (check_keys e (identity_key bundle) (spk_public_key (signed_prekey bundle))) (\<lambda>_.
              and_then (check_one_time_key e (one_time_prekey bundle)) (\<lambda>_. check_signature c e bundle)), w, Map.empty) (\<lambda>_ w f.
     let ((ephemeral_private, ephemeral_pub), w) = generate_ephemeral_keypair c w;
         f = keep_local ''ephemeral_private'' ephemeral_private f
     in bind_st (dh_or_fail c identity_private (spk_public_key (signed_prekey bundle)), w, f) (\<lambda>dh1 w f.
        let f = keep_local ''dh1'' dh1 f
        in bind_st (dh_or_fail c ephemeral_private (identity_key bundle), w, f) (\<lambda>dh2 w f.
        let f = keep_local ''dh2'' dh2 f
        in bind_st (dh_or_fail c ephemeral_private (spk_public_key (signed_prekey bundle)), w, f) (\<lambda>dh3 w f.
        let f = keep_local ''dh3'' dh3 f;
            chained = dh1 @ dh2 @ dh3;
            f = keep_local ''chained_key_material'' chained f
        in bind_st (case one_time_prekey bundle of
                      None \<Rightarrow> (Ok chained, w, f)
                    | Some opk \<Rightarrow> bind_st (dh_or_fail c ephemeral_private (opk_public_key opk), w, f) (\<lambda>dh4 w f.
                        let f = keep_local ''dh4'' dh4 f;
                            chained = chained @ dh4;
                            f = keep_local ''chained_key_material'' chained f;
                            f = keep_local ''dh4_opt'' dh4 f
                        in (Ok chained, w, f))) (\<lambda>chained w f.
           bind_st (kdf c chained, w, f) (\<lambda>secret w f.
             let f = zeroize_local ''ephemeral_private'' f;
                 f = zeroize_local ''dh1'' f; f = zeroize_local ''dh2'' f; f = zeroize_local ''dh3'' f;
                 f = zeroize_local ''dh4_opt'' f;
                 f = zeroize_local ''chained_key_material'' f
             in (Ok \<lparr> shared_secret = secret, ephemeral_public = ephemeral_pub \<rparr>, w, f)))))))"

definition x3dh_responder_locals :: "crypto \<Rightarrow> ('p, 's) curve \<Rightarrow> X3DHPrivateKey \<Rightarrow> X3DHPrivateKey \<Rightarrow> X3DHPrivateKey option \<Rightarrow> X3DHPublicKey \<Rightarrow> X3DHPublicKey \<Rightarrow> (bytes, X3DHError) result \<times> unit \<times> frame" where
  "x3dh_responder_locals c e identity_private signed_prekey_private one_time_prekey_private alice_identity_public alice_ephemeral_public =
     bind_st (check_keys e alice_identity_public alice_ephemeral_public, (), Map.empty) (\<lambda>_ u f.
     bind_st (dh_or_fail c signed_prekey_private alice_identity_public, u, f) (\<lambda>dh1 u f.
     let f = keep_local ''dh1'' dh1 f
     in bind_st (dh_or_fail c identity_private alice_ephemeral_public, u, f) (\<lambda>dh2 u f.
     let f = keep_local ''dh2'' dh2 f
     in bind_st (dh_or_fail c signed_prekey_private alice_ephemeral_public, u, f) (\<lambda>dh3 u f.
     let f = keep_local ''dh3'' dh3 f;
         chained = dh1 @ dh2 @ dh3;
         f = keep_local ''chained_key_material'' chained f
     in bind_st (case one_time_prekey_private of
                   None \<Rightarrow> (Ok chained, u, f)
                 | Some opk_private \<Rightarrow> bind_st (dh_or_fail c opk_private alice_ephemeral_public, u, f) (\<lambda>dh4 u f.
                     let f = keep_local ''dh4'' dh4 f;
                         chained = chained @ dh4;
                         f = keep_local ''chained_key_material'' chained f;
                         f = keep_local ''dh4_opt'' dh4 f
                     in (Ok chained, u, f))) (\<lambda>chained u f.
        bind_st (kdf c chained, u, f) (\<lambda>secret u f.
          let f = zeroize_local ''dh1'' f; f = zeroize_local ''dh2'' f; f = zeroize_local ''dh3'' f;
              f = zeroize_local ''dh4_opt'' f;
              f = zeroize_local ''chained_key_material'' f
          in (Ok secret, u, f)))))))"

definition vxeddsa_sign_locals :: "crypto \<Rightarrow> ('p, 's) curve \<Rightarrow> World \<Rightarrow> bytes \<Rightarrow> bytes \<Rightarrow> (VXEdDSAOutput, VXEdDSAError) result \<times> World \<times> frame" where
  "vxeddsa_sign_locals c e w k message =
     (let (Z, w) = os_rng_fill 64 w;
          f = keep_local ''Z'' Z Map.empty;
          (a, A) = calculate_key_pair e k;
          f = keep_local ''a'' (scalar_to_bytes e a) f;
          a_bytes = compress e A;
          Bv = vrf_base c e a_bytes message;
          V = smul e a Bv;
          V_bytes = compress e V;
          r_msg = scalar_to_bytes e a @ V_bytes @ Z;
          f = keep_local ''r_msg'' r_msg f;
          r_hash = hash_i c 3 r_msg;
          f = keep_local ''r_hash'' r_hash f;
          f = zeroize_local ''Z'' f;
          f = zeroize_local ''r_msg'' f;
          r = scalar_from_wide e r_hash;
          f = keep_local ''r'' (scalar_to_bytes e r) f
      in if r = scalar_zero e then (Err InvalidScalar, w, f)
         else let R_point = smul e r (basepoint e);
                  Rv_point = smul e r Bv;
                  h = challenge c e a_bytes V_bytes R_point Rv_point message;
                  s = scalar_add e r (scalar_mul e h a)
              in (Ok \<lparr> signature = V_bytes @ scalar_to_bytes e h @ scalar_to_bytes e s,
                       vrf = vrf_output c e V \<rparr>, w, f))"

section \<open>The frames do not change the results\<close>

lemma kdf_ck_locals_eq: "fst (kdf_ck_locals c ck) = kdf_ck c ck"
  by (simp add: kdf_ck_locals_def kdf_ck_def Let_def)

lemma advance_locals_eq: "fst (advance_locals c ck n target f) = advance_chain c ck n target"
proof (induction c ck n target arbitrary: f rule: advance_chain.induct)
  case (1 c ck n target)
  show ?case
  proof (cases "n < target")
    case True
    then show ?thesis
      using "1" by (subst advance_locals.simps, subst advance_chain.simps) (simp add: Let_def case_prod_beta)
  next
    case False
    then show ?thesis by (subst advance_locals.simps, subst advance_chain.simps) simp
  qed
qed

lemma advance_locals_fst: "advance_locals c ck n target f = (k, f') \<Longrightarrow> k = advance_chain c ck n target"
  using advance_locals_eq [of c ck n target f] by simp

lemma compute_message_key_locals_eq:
  "fst (compute_message_key_locals c st header r) = compute_message_key c st header r"
  by (auto simp: compute_message_key_locals_def compute_message_key_def Let_def dest!: advance_locals_fst
      split: result.split option.split prod.split)

lemma encrypt_locals_eq: "(fst (encrypt_locals c st p ad), fst (snd (encrypt_locals c st p ad))) = encrypt c st p ad"
  by (auto simp: encrypt_locals_def encrypt_def Let_def split: result.split option.split prod.split)

lemma decrypt_with_ratchet_locals_eq:
  "without_frame (decrypt_with_ratchet_locals c w st eh ct ad) = decrypt_with_ratchet c w st eh ct ad"
  by (auto simp: decrypt_with_ratchet_locals_def decrypt_with_ratchet_def Let_def bind_st_def split: result.split prod.split)

lemma decrypt_locals_eq: "without_frame (decrypt_locals c w st eh ct ad) = decrypt c w st eh ct ad"
  using decrypt_with_ratchet_locals_eq
  by (auto simp: decrypt_locals_def decrypt_def Let_def bind_st_def split: result.split option.split prod.split)

lemma x3dh_initiator_locals_eq:
  "(fst (x3dh_initiator_locals c e w ia bndl), fst (snd (x3dh_initiator_locals c e w ia bndl))) = x3dh_initiator c e w ia bndl"
  by (auto simp: x3dh_initiator_locals_def x3dh_initiator_def Let_def bind_st_def and_then_def split: result.split option.split prod.split)

lemma x3dh_responder_locals_eq:
  "fst (x3dh_responder_locals c e ib spk opk ia ek) = x3dh_responder c e ib spk opk ia ek"
  by (auto simp: x3dh_responder_locals_def x3dh_responder_def Let_def bind_st_def and_then_def split: result.split option.split prod.split)

lemma vxeddsa_sign_locals_eq:
  "(fst (vxeddsa_sign_locals c e w k msg), fst (snd (vxeddsa_sign_locals c e w k msg))) = vxeddsa_sign c e w k msg"
  by (simp add: vxeddsa_sign_locals_def vxeddsa_sign_def Let_def split: prod.split)

section \<open>What a call that succeeds leaves behind\<close>

lemma erased_except_simps [simp]:
  "erased_except xs Map.empty"
  "erased_except xs (keep_local x v f) \<longleftrightarrow> (x \<in> xs \<or> v = replicate (length v) 0) \<and> erased_except (insert x xs) f"
  "erased_except xs (zeroize_local x f) \<longleftrightarrow> erased_except (insert x xs) f"
  by (auto simp: erased_except_def)

lemma initiator_erased:
  assumes "x3dh_initiator_locals c e w ia bndl = (Ok res, w1, f)"
  shows "erased_except {''dh4''} f" and "one_time_prekey bndl = Some k \<Longrightarrow>
    \<exists>ek dh4. ephemeral_public res = gen_pubkey c ek \<and> dh_or_fail c ek (opk_public_key k) = Ok dh4 \<and> f ''dh4'' = Some dh4"
  using assms
  by (auto simp: x3dh_initiator_locals_def generate_ephemeral_keypair_def Let_def bind_st_Ok split: prod.splits option.splits)

lemma responder_erased:
  assumes "x3dh_responder_locals c e ib spk opk ia ek = (Ok s, u, f)"
  shows "erased_except {''dh4''} f" and "opk = Some k \<Longrightarrow> \<exists>dh4. dh_or_fail c k ek = Ok dh4 \<and> f ''dh4'' = Some dh4"
  using assms
  by (auto simp: x3dh_responder_locals_def Let_def bind_st_Ok split: option.splits)

lemma signing_erased:
  assumes "vxeddsa_sign_locals c e w k msg = (Ok out, w1, f)"
  shows "erased_except {''a'', ''r_hash'', ''r''} f" and "f ''a'' = Some (scalar_to_bytes e (fst (calculate_key_pair e k)))"
    and "\<exists>rh V h. f ''r_hash'' = Some rh \<and> f ''r'' = Some (scalar_to_bytes e (scalar_from_wide e rh)) \<and>
      signature out = V @ scalar_to_bytes e h @
        scalar_to_bytes e (scalar_add e (scalar_from_wide e rh) (scalar_mul e h (fst (calculate_key_pair e k))))"
proof -
  show "erased_except {''a'', ''r_hash'', ''r''} f" "f ''a'' = Some (scalar_to_bytes e (fst (calculate_key_pair e k)))"
    using assms by (auto simp: vxeddsa_sign_locals_def Let_def split: prod.splits if_splits)
  show "\<exists>rh V h. f ''r_hash'' = Some rh \<and> f ''r'' = Some (scalar_to_bytes e (scalar_from_wide e rh)) \<and>
      signature out = V @ scalar_to_bytes e h @
        scalar_to_bytes e (scalar_add e (scalar_from_wide e rh) (scalar_mul e h (fst (calculate_key_pair e k))))"
    using assms by (auto simp: vxeddsa_sign_locals_def Let_def split: prod.splits if_splits) (intro exI, rule refl)
qed

lemma encrypt_erased:
  assumes "encrypt_locals c st p ad = (Ok m, st', f)"
  shows "erased_except {''ck_s'', ''state.ck_s.expect''} f" and "f ''ck_s'' = ck_s st'"
    and "f ''state.ck_s.expect'' = ck_s st"
    and "\<exists>k. ck_s st = Some k \<and> encrypt_aead c (snd (kdf_ck c k)) p (concat_ad ad (fst m)) = Ok (snd m)"
  using assms
  by (auto simp: encrypt_locals_def Let_def case_prod_unfold bind_st_Ok split: if_splits)

lemma with_frame_eq: "with_frame f t = (x, s, w, f') \<longleftrightarrow> t = (x, s, w) \<and> f' = f"
  by (cases t) auto

lemma decrypt_with_ratchet_frame:
  assumes "decrypt_with_ratchet_locals c w st eh ct ad = (Ok p, st', w', f)"
  shows "\<exists>h dh mk. decrypt_header c st eh = Ok (h, dh) \<and> compute_message_key c st h dh = Ok mk \<and>
    f = zeroize_local ''mk'' (keep_local ''mk'' mk Map.empty)"
  using assms unfolding decrypt_with_ratchet_locals_def Let_def bind_st_Ok [of "(_, _, _, _)"]
  by (auto simp: bind_st_Ok [of "(_, _, _, _)"] with_frame_eq simp del: bind_st_simps split: if_splits)

lemma decrypt_with_ratchet_erased:
  "decrypt_with_ratchet_locals c w st eh ct ad = (Ok p, st', w', f) \<Longrightarrow> erased_except {} f"
  by (drule decrypt_with_ratchet_frame) auto

lemma decrypt_erased:
  assumes "decrypt_locals c w st eh ct ad = (Ok p, st', w', f)"
  shows "erased_except {} f"
proof -
  let ?ad = "concat_ad ad eh"
  obtain m found where "(case found of Some plaintext \<Rightarrow> (Ok plaintext, st\<lparr>mkskipped := [], mkskipped := m\<rparr>, w, Map.empty)
      | None \<Rightarrow> decrypt_with_ratchet_locals c w (st\<lparr>mkskipped := [], mkskipped := m\<rparr>) eh ct ?ad) = (Ok p, st', w', f)"
    using assms by (cases "try_skipped_message_keys c w (mkskipped st) eh ct ?ad")
      (auto simp: decrypt_locals_def Let_def split: if_splits)
  then show ?thesis by (cases found) (auto dest: decrypt_with_ratchet_erased)
qed

abbreviation chain_locals :: "string set" where
  "chain_locals \<equiv> {''current_ck'', ''next_ck'', ''ck_r'', ''new_ck_r''}"

text \<open>One round of the loop that steps the chain.\<close>

lemma advance_locals_step:
  "n < target \<Longrightarrow> advance_locals c ck n target f = advance_locals c (fst (kdf_ck c ck)) (n + 1) target
     (keep_local ''current_ck'' (fst (kdf_ck c ck)) (zeroize_local ''old_ck''
        (keep_local ''next_ck'' (fst (kdf_ck c ck)) (keep_local ''old_ck'' ck f))))"
  by (subst advance_locals.simps) (simp only: if_True Let_def case_prod_unfold)

lemma advance_locals_done: "\<not> n < target \<Longrightarrow> advance_locals c ck n target f = (ck, f)"
  by (subst advance_locals.simps) simp

lemma advance_erased:
  "erased_except chain_locals f \<Longrightarrow> erased_except chain_locals (snd (advance_locals c ck n target f))"
proof (induction c ck n target arbitrary: f rule: advance_chain.induct)
  case (1 c ck n target)
  have step: "erased_except chain_locals (keep_local ''current_ck'' k (zeroize_local ''old_ck''
      (keep_local ''next_ck'' k (keep_local ''old_ck'' ck f))))" for k
    using "1.prems" by (auto simp: erased_except_def)
  show ?case
    using "1.IH" [OF _ step] "1.prems"
    by (cases "n < target") (simp_all only: advance_locals_step advance_locals_done snd_conv not_False_eq_True)
qed

lemma advance_next_ck:
  "snd (advance_locals c ck n target f) ''next_ck'' =
     (if n < target then Some (advance_chain c ck n target) else f ''next_ck'')"
proof (induction c ck n target arbitrary: f rule: advance_chain.induct)
  case (1 c ck n target)
  show ?case
  proof (cases "n < target")
    case True
    have "advance_chain c (fst (kdf_ck c ck)) (n + 1) target = fst (kdf_ck c ck)" if "\<not> n + 1 < target"
      using that by (subst advance_chain.simps) simp
    then show ?thesis
      using "1.IH" [OF True] True by (simp add: advance_locals_step advance_chain.simps [of c ck n target])
  next
    case False
    then show ?thesis by (simp add: advance_locals_done)
  qed
qed

lemma advance_keeps:
  "x \<notin> {''old_ck'', ''next_ck'', ''current_ck''} \<Longrightarrow> snd (advance_locals c ck n target f) x = f x"
proof (induction c ck n target arbitrary: f rule: advance_chain.induct)
  case (1 c ck n target)
  then show ?case by (cases "n < target") (simp_all add: advance_locals_step advance_locals_done)
qed

text \<open>The chain key a computation of a message key starts from.\<close>

definition starting_chain_key :: "crypto \<Rightarrow> RatchetState \<Rightarrow> RatchetHeader \<Rightarrow> bool \<Rightarrow> bytes \<Rightarrow> bool" where
  "starting_chain_key c st h dh_ratchet k \<longleftrightarrow>
     (if dh_ratchet
      then \<exists>rk1 nhk. kdf_rk_he c (rk st) (x25519_dh c (fst (dh_pair st)) (dh_pub h)) = Ok (rk1, k, nhk)
      else ck_r st = Some k)"

lemma message_key_frame:
  assumes "compute_message_key_locals c st h r = (Ok mk, f)"
  shows "erased_except {''ck_r'', ''new_ck_r'', ''next_ck''} f"
    and "(if r then 0 else nr st) < hdr_n h \<Longrightarrow> \<exists>k. f ''next_ck'' = Some k \<and> snd (kdf_ck c k) = mk"
    and "\<exists>k. f ''ck_r'' = Some k \<and> (r \<longrightarrow> f ''new_ck_r'' = Some k) \<and> starting_chain_key c st h r k \<and>
      mk = snd (kdf_ck c (advance_chain c k (if r then 0 else nr st) (hdr_n h)))"
proof -
  have final: "erased_except {''ck_r'', ''new_ck_r'', ''next_ck''}
      (zeroize_local ''current_ck'' (snd (advance_locals c ck n t f0)))" if "erased_except chain_locals f0" for ck n t f0
    using advance_erased [OF that] by (simp add: insert_commute)
  show "erased_except {''ck_r'', ''new_ck_r'', ''next_ck''} f"
    using assms by (auto simp: compute_message_key_locals_def Let_def case_prod_unfold intro!: final
        split: if_splits option.splits result.splits)
  show "(if r then 0 else nr st) < hdr_n h \<Longrightarrow> \<exists>k. f ''next_ck'' = Some k \<and> snd (kdf_ck c k) = mk"
    using assms by (auto simp: compute_message_key_locals_def Let_def case_prod_unfold advance_locals_eq advance_next_ck
        split: if_splits option.splits result.splits)
  show "\<exists>k. f ''ck_r'' = Some k \<and> (r \<longrightarrow> f ''new_ck_r'' = Some k) \<and> starting_chain_key c st h r k \<and>
      mk = snd (kdf_ck c (advance_chain c k (if r then 0 else nr st) (hdr_n h)))"
    using assms by (auto simp: compute_message_key_locals_def Let_def case_prod_unfold advance_locals_eq advance_keeps
        starting_chain_key_def split: if_splits option.splits result.splits)
qed

section \<open>Properties\<close>

text \<open>C20: Calls that succeed erase the named secret variables of their own frame, with exceptions
  the frames show exactly. The X3DH functions leave a copy of the fourth Diffie-Hellman output.
  Signing leaves the secret scalar, the hash the nonce is reduced from and the nonce itself, the
  one the signature is made with. Encryption leaves the new sending chain key and the copy of the
  old one, from which the key of the message just sent follows. The computation of a message key
  leaves the receiving chain key it started from, twice after a DH ratchet, and, when it stepped
  the chain, the last chain key; the message key follows from either. The frames do not change
  the results.\<close>

theorem temporaries_erased:
  shows "(x3dh_initiator_locals c e w ia bndl = (Ok res, w1, f1) \<longrightarrow>
       x3dh_initiator c e w ia bndl = (Ok res, w1) \<and> erased_except {''dh4''} f1 \<and>
       (\<forall>k. one_time_prekey bndl = Some k \<longrightarrow> (\<exists>ek dh4. ephemeral_public res = gen_pubkey c ek \<and>
          dh_or_fail c ek (opk_public_key k) = Ok dh4 \<and> f1 ''dh4'' = Some dh4))) \<and>
    (x3dh_responder_locals c e ib spk opk iap ekp = (Ok s, u, f2) \<longrightarrow>
       x3dh_responder c e ib spk opk iap ekp = Ok s \<and> erased_except {''dh4''} f2 \<and>
       (\<forall>k. opk = Some k \<longrightarrow> (\<exists>dh4. dh_or_fail c k ekp = Ok dh4 \<and> f2 ''dh4'' = Some dh4))) \<and>
    (vxeddsa_sign_locals c e w k msg = (Ok out, w3, f3) \<longrightarrow>
       vxeddsa_sign c e w k msg = (Ok out, w3) \<and> erased_except {''a'', ''r_hash'', ''r''} f3 \<and>
       f3 ''a'' = Some (scalar_to_bytes e (fst (calculate_key_pair e k))) \<and>
       (\<exists>rh V h. f3 ''r_hash'' = Some rh \<and> f3 ''r'' = Some (scalar_to_bytes e (scalar_from_wide e rh)) \<and>
          signature out = V @ scalar_to_bytes e h @
            scalar_to_bytes e (scalar_add e (scalar_from_wide e rh) (scalar_mul e h (fst (calculate_key_pair e k)))))) \<and>
    (encrypt_locals c st p ad = (Ok m, st4, f4) \<longrightarrow>
       encrypt c st p ad = (Ok m, st4) \<and> erased_except {''ck_s'', ''state.ck_s.expect''} f4 \<and>
       f4 ''ck_s'' = ck_s st4 \<and> f4 ''state.ck_s.expect'' = ck_s st \<and>
       (\<exists>k. ck_s st = Some k \<and> encrypt_aead c (snd (kdf_ck c k)) p (concat_ad ad (fst m)) = Ok (snd m))) \<and>
    (decrypt_locals c w st eh ct ad = (Ok q, st5, w5, f5) \<longrightarrow>
       decrypt c w st eh ct ad = (Ok q, st5, w5) \<and> erased_except {} f5) \<and>
    (compute_message_key_locals c st h r = (Ok mk, f6) \<longrightarrow>
       compute_message_key c st h r = Ok mk \<and> erased_except {''ck_r'', ''new_ck_r'', ''next_ck''} f6 \<and>
       (\<exists>k. f6 ''ck_r'' = Some k \<and> (r \<longrightarrow> f6 ''new_ck_r'' = Some k) \<and> starting_chain_key c st h r k \<and>
          mk = snd (kdf_ck c (advance_chain c k (if r then 0 else nr st) (hdr_n h)))) \<and>
       ((if r then 0 else nr st) < hdr_n h \<longrightarrow> (\<exists>k. f6 ''next_ck'' = Some k \<and> snd (kdf_ck c k) = mk))) \<and>
    kdf_ck_locals c ck0 = (kdf_ck c ck0, snd (kdf_ck_locals c ck0)) \<and> erased_except {} (snd (kdf_ck_locals c ck0))"
proof (intro conjI impI allI)
  assume run: "x3dh_initiator_locals c e w ia bndl = (Ok res, w1, f1)"
  then show "x3dh_initiator c e w ia bndl = (Ok res, w1)" "erased_except {''dh4''} f1"
    using x3dh_initiator_locals_eq [of c e w ia bndl] initiator_erased(1) by simp_all
  fix k assume "one_time_prekey bndl = Some k"
  then show "\<exists>ek dh4. ephemeral_public res = gen_pubkey c ek \<and> dh_or_fail c ek (opk_public_key k) = Ok dh4 \<and> f1 ''dh4'' = Some dh4"
    by (rule initiator_erased(2) [OF run])
next
  assume run: "x3dh_responder_locals c e ib spk opk iap ekp = (Ok s, u, f2)"
  then show "x3dh_responder c e ib spk opk iap ekp = Ok s" "erased_except {''dh4''} f2"
    using x3dh_responder_locals_eq [of c e ib spk opk iap ekp] responder_erased(1) [OF run] by simp_all
  fix k assume "opk = Some k"
  then show "\<exists>dh4. dh_or_fail c k ekp = Ok dh4 \<and> f2 ''dh4'' = Some dh4" by (rule responder_erased(2) [OF run])
next
  assume run: "vxeddsa_sign_locals c e w k msg = (Ok out, w3, f3)"
  then show "vxeddsa_sign c e w k msg = (Ok out, w3)" using vxeddsa_sign_locals_eq [of c e w k msg] by simp
  show "erased_except {''a'', ''r_hash'', ''r''} f3"
      "f3 ''a'' = Some (scalar_to_bytes e (fst (calculate_key_pair e k)))"
      "\<exists>rh V h. f3 ''r_hash'' = Some rh \<and> f3 ''r'' = Some (scalar_to_bytes e (scalar_from_wide e rh)) \<and>
         signature out = V @ scalar_to_bytes e h @
           scalar_to_bytes e (scalar_add e (scalar_from_wide e rh) (scalar_mul e h (fst (calculate_key_pair e k))))"
    by (rule signing_erased [OF run])+
next
  assume run: "encrypt_locals c st p ad = (Ok m, st4, f4)"
  then show "encrypt c st p ad = (Ok m, st4)" using encrypt_locals_eq [of c st p ad] by simp
  show "erased_except {''ck_s'', ''state.ck_s.expect''} f4" "f4 ''ck_s'' = ck_s st4" "f4 ''state.ck_s.expect'' = ck_s st"
      "\<exists>k. ck_s st = Some k \<and> encrypt_aead c (snd (kdf_ck c k)) p (concat_ad ad (fst m)) = Ok (snd m)"
    by (rule encrypt_erased [OF run])+
next
  assume "decrypt_locals c w st eh ct ad = (Ok q, st5, w5, f5)"
  then show "decrypt c w st eh ct ad = (Ok q, st5, w5)" "erased_except {} f5"
    using decrypt_locals_eq [of c w st eh ct ad] decrypt_erased by simp_all
next
  assume run: "compute_message_key_locals c st h r = (Ok mk, f6)"
  then show "compute_message_key c st h r = Ok mk" "erased_except {''ck_r'', ''new_ck_r'', ''next_ck''} f6"
    using compute_message_key_locals_eq [of c st h r] message_key_frame(1) [OF run] by simp_all
  show "\<exists>k. f6 ''ck_r'' = Some k \<and> (r \<longrightarrow> f6 ''new_ck_r'' = Some k) \<and> starting_chain_key c st h r k \<and>
      mk = snd (kdf_ck c (advance_chain c k (if r then 0 else nr st) (hdr_n h)))"
    by (rule message_key_frame(3) [OF run])
  assume "(if r then 0 else nr st) < hdr_n h"
  then show "\<exists>k. f6 ''next_ck'' = Some k \<and> snd (kdf_ck c k) = mk" by (rule message_key_frame(2) [OF run])
next
  show "kdf_ck_locals c ck0 = (kdf_ck c ck0, snd (kdf_ck_locals c ck0))"
    using kdf_ck_locals_eq [of c ck0] by (metis prod.collapse)
  show "erased_except {} (snd (kdf_ck_locals c ck0))" by (simp add: kdf_ck_locals_def Let_def)
qed

theorem temporaries_erased_witness:
  "\<exists>out w1 f. vxeddsa_sign_locals signing_crypto binary_curve demo_world (replicate 32 1) [1] = (Ok out, w1, f) \<and>
     erased_except {''a'', ''r_hash'', ''r''} f \<and>
     f ''a'' = Some (scalar_to_bytes binary_curve (fst (calculate_key_pair binary_curve (replicate 32 1))))"
proof -
  obtain out w1 where "vxeddsa_sign signing_crypto binary_curve demo_world (replicate 32 1) [1] = (Ok out, w1)"
    using binary_signs by blast
  then obtain f where run: "vxeddsa_sign_locals signing_crypto binary_curve demo_world (replicate 32 1) [1] = (Ok out, w1, f)"
    using vxeddsa_sign_locals_eq [of signing_crypto binary_curve demo_world "replicate 32 1" "[1]"]
    by (cases "vxeddsa_sign_locals signing_crypto binary_curve demo_world (replicate 32 1) [1]" rule: prod_cases3) simp
  from temporaries_erased [THEN conjunct2, THEN conjunct2, THEN conjunct1, THEN mp, OF run] run show ?thesis by blast
qed

text \<open>C19: A refused message leaves the key of the genuine one on the stack: when a ciphertext is altered on
  its way, decryption refuses it and returns before it erases its copy of the message key; the
  frame of decrypt then holds the key that opens the genuine message. When the genuine message
  is decrypted, that copy is overwritten with zeros. In both runs the frame of the called
  compute_message_key keeps the chain key it started from, from which the message key
  follows. The message is one within the limits of the receiver (deliverable).\<close>

theorem refused_message_leaves_key:
  assumes "crypto_ok c" and "conversation c a b" and "encrypt c a p ad = (Ok (eh, ct), a')"
    and "deliverable c a b eh" and "ck_s a = Some ck"
    and "\<not> authentic c (message_key c 0 ck) ct' (concat_ad ad eh)"
    and "decrypt_locals c w b eh ct' ad = (r, b1, w1, f)"
  shows "r = Err DecryptionFailed \<and> b1 = b \<and>
    (\<exists>mk. f ''mk'' = Some mk \<and> decrypt_aead c mk ct (concat_ad ad eh) = Ok p \<and>
      (\<exists>b2 w2 f2. decrypt_locals c w b eh ct ad = (Ok p, b2, w2, f2) \<and>
         f2 ''mk'' = Some (replicate (length mk) 0) \<and> erased_except {} f2) \<and>
      (\<exists>h dh f3 k. decrypt_header c b eh = Ok (h, dh) \<and> compute_message_key_locals c b h dh = (Ok mk, f3) \<and>
         f3 ''ck_r'' = Some k \<and> mk = snd (kdf_ck c (advance_chain c k (if dh then 0 else nr b) (hdr_n h)))))"
proof -
  note rc = ratchet_crypto_ok [OF assms(1)]
  let ?mk = "message_key c 0 ck" and ?ad = "concat_ad ad eh"
  have link: "linked c a b" by (rule conversation_linked [OF assms(2,1)])
  obtain dh where store: "\<forall>ct k q. \<not> entry_opens c (mkskipped b) eh ct ?ad k q"
    and hdr: "decrypt_header c b eh = Ok (next_header a, dh)"
    and new: "(dh_pub (next_header a), hdr_n (next_header a)) |\<notin>| received_messages b"
    and key: "compute_message_key c b (next_header a) dh = Ok ?mk"
    by (rule announced [OF assms(1) link assms(3-5)])
  have ad: "length ad \<le> MAX_AD_SIZE" using assms(3) by (rule encrypt_OkD)
  have to_ratchet: "decrypt_locals c w b eh x ad = decrypt_with_ratchet_locals c w b eh x ?ad" for x
    using ad try_skipped_miss [OF ratchet_cryptoD(2) [OF rc] store [rule_format]]
    by (simp add: decrypt_locals_def Let_def)
  have "decrypt_locals c w b eh ct' ad = (Err DecryptionFailed, b, w, keep_local ''mk'' ?mk Map.empty)"
    using hdr new key not_authentic [OF ratchet_cryptoD(2) [OF rc] assms(6)]
    by (simp add: to_ratchet decrypt_with_ratchet_locals_def Let_def)
  then have refused: "r = Err DecryptionFailed" "b1 = b" "f ''mk'' = Some ?mk" using assms(7) by auto
  have opens: "decrypt_aead c ?mk ct ?ad = Ok p"
    by (rule encrypt_opens [OF assms(1) conjunct1 [OF linked_inv [OF link]] assms(3)]) (use assms(5) in simp)
  obtain b2 w2 where "decrypt c w b eh ct ad = (Ok p, b2, w2)"
    using linked_delivered [OF assms(1) link assms(3,4)] by blast
  then have "without_frame (decrypt_locals c w b eh ct ad) = (Ok p, b2, w2)" by (simp add: decrypt_locals_eq)
  then obtain f2 where run: "decrypt_locals c w b eh ct ad = (Ok p, b2, w2, f2)"
    by (cases "decrypt_locals c w b eh ct ad" rule: prod_cases4) auto
  then have "f2 = zeroize_local ''mk'' (keep_local ''mk'' ?mk Map.empty)"
    using decrypt_with_ratchet_frame [of c w b eh ct ?ad p b2 w2 f2] hdr key by (auto simp: to_ratchet)
  with run decrypt_erased [OF run]
  have genuine: "\<exists>b2 w2 f2. decrypt_locals c w b eh ct ad = (Ok p, b2, w2, f2) \<and>
      f2 ''mk'' = Some (replicate (length ?mk) 0) \<and> erased_except {} f2" by auto
  obtain f3 where callee: "compute_message_key_locals c b (next_header a) dh = (Ok ?mk, f3)"
    using compute_message_key_locals_eq [of c b "next_header a" dh] key
    by (cases "compute_message_key_locals c b (next_header a) dh") auto
  from message_key_frame(3) [OF callee] refused opens genuine hdr callee show ?thesis by blast
qed

theorem refused_message_leaves_key_witness:
  "\<exists>a b eh ct a' f mk. encrypt reference_crypto a [1, 2] [3] = (Ok (eh, ct), a') \<and>
     decrypt_locals reference_crypto demo_world b eh (replicate 10 0) [3] = (Err DecryptionFailed, b, demo_world, f) \<and>
     f ''mk'' = Some mk \<and> decrypt_aead reference_crypto mk ct (concat_ad [3] eh) = Ok [1, 2]"
proof -
  obtain a b eh ct a' where conv: "conversation reference_crypto a b"
    and enc: "encrypt reference_crypto a [1, 2] [3] = (Ok (eh, ct), a')" and guard: "deliverable reference_crypto a b eh"
    by (rule demo_conversation)
  obtain ck where ck: "ck_s a = Some ck" using enc by (rule encrypt_OkD)
  obtain r b1 w1 f where dec: "decrypt_locals reference_crypto demo_world b eh (replicate 10 0) [3] = (r, b1, w1, f)"
    by (metis prod_cases4)
  have forged: "\<not> authentic reference_crypto (message_key reference_crypto 0 ck) (replicate 10 0) (concat_ad [3] eh)"
    by (simp add: authentic_def)
  have "w1 = demo_world"
    using forged_refused [OF reference_crypto_ok conversation_linked [OF conv reference_crypto_ok] enc guard ck forged]
      decrypt_locals_eq [of reference_crypto demo_world b eh "replicate 10 0" "[3]"] by (simp add: dec)
  with refused_message_leaves_key [OF reference_crypto_ok conv enc guard ck forged dec] enc dec show ?thesis by blast
qed

end
