(* ===== verification/Late_Delivery.thy ===== *)
theory Late_Delivery
  imports Chain_Delivery Progress
begin

text \<open>
  Messages that arrive after the conversation has moved on. A DH ratchet announces how long the
  previous chain was; the receiver stores the message keys it still misses, and the messages of
  the old chain can be opened in any order later.
\<close>

section \<open>A receiver that waits for messages of a chain\<close>

text \<open>The store has the keys of the messages in \<open>J\<close>, and no other stored key reads their headers.\<close>

definition waiting :: "crypto \<Rightarrow> bytes \<Rightarrow> bytes \<Rightarrow> nat \<Rightarrow> (bytes \<times> bytes) list \<Rightarrow> nat set \<Rightarrow> RatchetState \<Rightarrow> bool" where
  "waiting c hk ck n0 sealed J st \<longleftrightarrow>
     ratchet_inv st \<and>
     (\<forall>i \<in> J. \<forall>n. unat n = n0 + i \<longrightarrow>
        (\<exists>s. map_of (mkskipped st) (hk, n) = Some s \<and> skipped_mk s = message_key c i ck)) \<and>
     (\<forall>h n. map_of (mkskipped st) (h, n) \<noteq> None \<and> h \<noteq> hk \<longrightarrow>
        (\<forall>s \<in> set sealed. \<not> is_ok (decrypt_header_with_key c h (fst s))))"

lemma waiting_opens:
  assumes c: "ratchet_crypto c" and wait: "waiting c hk ck n0 sealed J st" and i: "i \<in> J" and s: "s \<in> set sealed"
    and msg: "chain_msg c hk ck n0 pub i m s"
  obtains st' where "decrypt c w st (fst s) (snd s) (snd m) = (Ok (fst m), st', w)"
    "waiting c hk ck n0 sealed (J - {i}) st'"
proof -
  obtain h where h: "decrypt_header_with_key c hk (fst s) = Ok h" "unat (hdr_n h) = n0 + i"
      and ad: "length (snd m) \<le> MAX_AD_SIZE"
      and p: "decrypt_aead c (message_key c i ck) (snd s) (concat_ad (snd m) (fst s)) = Ok (fst m)"
    using msg by (auto simp: chain_msg_def)
  let ?opens = "entry_opens c (mkskipped st) (fst s) (snd s) (concat_ad (snd m) (fst s))"
  let ?st' = "st\<lparr>mkskipped := AList.delete (hk, hdr_n h) (mkskipped st)\<rparr>"
  obtain k where k: "map_of (mkskipped st) (hk, hdr_n h) = Some k" "skipped_mk k = message_key c i ck"
    using wait i h(2) unfolding waiting_def by blast
  have opens: "?opens (hk, hdr_n h) (fst m)" by (rule entry_opensI [OF k(1) h(1) refl]) (simp only: k(2) p)
  have only: "key = (hk, hdr_n h)" if op: "?opens key q" for key q
  proof -
    obtain k' h' where "map_of (mkskipped st) key = Some k'" "decrypt_header_with_key c (fst key) (fst s) = Ok h'"
        "hdr_n h' = snd key"
      using op by (rule entry_opensE)
    moreover from this have "fst key = hk" using wait s by (cases key) (fastforce simp: waiting_def)
    ultimately show ?thesis using h(1) by (metis prod.collapse result.inject(1))
  qed
  have dec: "decrypt c w st (fst s) (snd s) (snd m) = (Ok (fst m), ?st', w)"
    by (rule decrypt_from_store [OF c ad opens only])
  then have "ratchet_inv ?st'"
    using st_safeD decrypt_safe [OF c, of st w "fst s" "snd s" "snd m"] wait by (metis waiting_def)
  moreover have "n \<noteq> hdr_n h" if "unat n = n0 + j" "j \<noteq> i" for n j using that h(2) by auto
  ultimately have "waiting c hk ck n0 sealed (J - {i}) ?st'"
    using wait unfolding waiting_def by (simp add: delete_conv') blast
  with dec show thesis by (rule that)
qed

lemma waiting_receive:
  assumes c: "ratchet_crypto c" and len: "length sealed = length ms"
    and msgs: "\<And>i. i < length ms \<Longrightarrow> chain_msg c hk ck n0 pub i (ms ! i) (sealed ! i)"
    and "waiting c hk ck n0 sealed J st" and "distinct idx" and "set idx \<subseteq> J" and "J \<subseteq> {..<length ms}"
  shows "receive_all c w st (map (\<lambda>i. (snd (ms ! i), sealed ! i)) idx) = map (\<lambda>i. Ok (fst (ms ! i))) idx"
  using assms(4-)
proof (induction idx arbitrary: J st)
  case (Cons i idx)
  have i: "i \<in> J" "i < length ms" using Cons.prems by auto
  then have "sealed ! i \<in> set sealed" using len by simp
  from waiting_opens [OF c Cons.prems(1) i(1) this msgs [OF i(2)], of w]
  obtain st' where "decrypt c w st (fst (sealed ! i)) (snd (sealed ! i)) (snd (ms ! i)) = (Ok (fst (ms ! i)), st', w)"
      and "waiting c hk ck n0 sealed (J - {i}) st'" .
  moreover from this(2) have "receive_all c w st' (map (\<lambda>i. (snd (ms ! i), sealed ! i)) idx) = map (\<lambda>i. Ok (fst (ms ! i))) idx"
    by (rule Cons.IH) (use Cons.prems in auto)
  ultimately show ?case by (cases "sealed ! i") simp
qed simp

text \<open>What the gap before a ratchet leaves in the store.\<close>

lemma gap_waiting:
  assumes gap: "store_chain_gap c target b w = (Ok (), b\<lparr>mkskipped := m\<rparr>, w')"
    and keys: "hk_r b = Some hk" "ck_r b = Some ck" and inv: "ratchet_inv b" "ratchet_inv st"
    and store: "mkskipped st = m" and target: "unat target = unat (nr b) + length sealed"
    and room: "length (mkskipped b) + length sealed \<le> MAX_SKIPPED_KEYS" and apart: "sealed_apart c b sealed"
  shows "waiting c hk ck (unat (nr b)) sealed {..<length sealed} st"
proof -
  obtain v where skip: "skip_loop c hk target (nr b) ck (mkskipped b) w = (Ok m, v)"
    by (rule store_chain_gap_skips [OF gap keys])
  have "length (mkskipped b) + (unat target - unat (nr b)) \<le> MAX_SKIPPED_KEYS" using target room by simp
  note full = skip_loop_complete [OF skip this wf_skippedD [OF wf_stateD(11) [OF ratchet_invD(1) [OF inv(1)]]]]
  have "\<exists>s. map_of m (hk, n) = Some s \<and> skipped_mk s = message_key c i ck"
    if "i < length sealed" "unat n = unat (nr b) + i" for i n
    using full [THEN conjunct1, rule_format, of n] that target by (simp add: word_le_nat_alt word_less_nat_alt)
  moreover have "\<not> is_ok (decrypt_header_with_key c h (fst s))"
    if "map_of m (h, n) \<noteq> None" "h \<noteq> hk" "s \<in> set sealed" for h n s
  proof -
    have "map_of (mkskipped b) (h, n) \<noteq> None" using full that(1,2) by auto
    then have "h \<in> set (held_keys b)" using held_keysI(1) by blast
    with that show ?thesis using apart keys(1) by (auto simp: sealed_apart_def)
  qed
  ultimately show ?thesis using inv(2) unfolding waiting_def store by blast
qed

section \<open>A ratchet while messages are under way\<close>

text \<open>
  \<open>a\<close> sends a batch that is held up, receives a message of \<open>b\<close> that moves it to a new chain, and
  sends the first message of that chain, which overtakes the batch.
\<close>

lemma overtaken_waiting:
  assumes ok: "crypto_ok c" and conv: "conversation c a b" and step: "in_step a b" and lim: "batch_limits b (length ms)"
    and send: "send_all c a ms = (Ok sealed, a1)" and apart: "sealed_apart c b sealed"
    and enc: "encrypt c b q ad = (Ok (eh, ct), b1)" and guard: "deliverable c b a1 eh"
    and enc': "encrypt c a2 r ad' = (Ok (eh', ct'), a3)" and dec: "decrypt c w a1 eh ct ad = (res, a2, w1)"
    and guard': "deliverable c a2 b1 eh'"
  obtains hk ck b2 w3 where "res = Ok q" "decrypt c w2 b1 eh' ct' ad' = (Ok r, b2, w3)"
    "waiting c hk ck (unat (nr b)) sealed {..<length ms} b2" "length sealed = length ms"
    "\<forall>i < length ms. chain_msg c hk ck (unat (nr b)) (snd (dh_pair a)) i (ms ! i) (sealed ! i)"
proof -
  have l: "lead c b a" by (rule in_step_lead [OF conversation_linked [OF conv ok] step])
  note rc = ratchet_crypto_ok [OF ok] and inv = leadD(1,2) [OF l]
  note sent = send_all_state [OF ok inv(2) send]
  have "\<not> lead c a1 b"
    using step sent leadD(7) [of c a1 b] held_keysI(2) [of b "nhk_r b"] by (auto simp: in_step_def)
  then have l1: "lead c b a1"
    using conversation_linked [OF send_all_conversation [OF conv send] ok] by (simp add: linked_def)
  obtain hk ck where hk: "hk_r b = Some hk" "hk_s a = Some hk" and ck: "ck_r b = Some ck" "ck_s a = Some ck"
    using step l ratchet_invD(4) [OF inv(2)] by (auto simp: in_step_def lead_def follows_def)
  have ns: "nr b = ns a" using step by (simp add: in_step_def)
  note msgs = send_all_msgs [OF ok inv(2) ck(2) hk(2) send, folded ns]
  obtain a2' w1' where "decrypt c w a1 eh ct ad = (Ok q, a2', w1')" "lead c a2' b1" "pn a2' = ns a1" "ns a2' = 0"
    by (rule delivered_with_ratchet [OF ok l1 enc guard, of w])
  with dec have a2: "res = Ok q" "lead c a2 b1" "pn a2 = ns a1" "ns a2 = 0" by simp_all
  obtain cks ctr where b1: "b1 = b\<lparr>ck_s := Some (chain_key c 1 cks), ns := ns b + 1, header_nonce_counter := ctr\<rparr>"
    by (rule encrypt_opens [OF ok inv(1) enc])
  obtain b2 w3 m m' t ckn u1 u2 where dec': "decrypt c w2 b1 eh' ct' ad' = (Ok r, b2, w3)" "lead c b2 a3"
      and b2: "mkskipped b2 = m'" and gap: "store_chain_gap c (pn a2) b1 w2 = (Ok (), b1\<lparr>mkskipped := m\<rparr>, w2\<lparr>ticks := t\<rparr>)"
      and skip: "skip_loop c (nhk_r b1) (ns a2) 0 ckn m u1 = (Ok m', u2)"
    by (rule decrypts_by_ratchet [OF ok a2(2) enc' guard', of w2]) simp
  have "waiting c hk ck (unat (nr b1)) sealed {..<length sealed} b2"
  proof (rule gap_waiting [OF gap])
    show "hk_r b1 = Some hk" "ck_r b1 = Some ck" using hk ck by (simp_all add: b1)
    show "ratchet_inv b1" "ratchet_inv b2" using leadD(1,2) a2(2) dec'(2) by blast+
    show "mkskipped b2 = m" using skip by (simp add: b2 a2(4) skip_loop_done)
    show "unat (pn a2) = unat (nr b1) + length sealed" using sent msgs by (simp add: a2(3) b1 ns)
    show "length (mkskipped b1) + length sealed \<le> MAX_SKIPPED_KEYS"
      using lim msgs by (simp add: b1 batch_limits_def)
    show "sealed_apart c b1 sealed" using apart by (simp add: b1 sealed_apart_def held_keys_def)
  qed
  then have "waiting c hk ck (unat (nr b)) sealed {..<length ms} b2" using msgs by (simp add: b1)
  from that [OF a2(1) dec'(1) this] msgs show thesis by blast
qed

section \<open>A run on the executable instance\<close>

lemma wrong_header_key:
  assumes "encrypt reference_crypto st p ad = (Ok (eh, ct), st')" and "hk_s st = Some (replicate 32 x)" and "x \<noteq> y"
  shows "\<not> is_ok (decrypt_header_with_key reference_crypto (replicate 32 y) eh)"
  using assms(1)
proof (rule encrypt_OkD)
  fix hk
  assume "hk_s st = Some hk" and seal: "seal_header reference_crypto hk (header_nonce (is_sender st) (header_nonce_counter st))
       \<lparr> dh_pub = snd (dh_pair st), hdr_pn = pn st, hdr_n = ns st \<rparr> = Ok eh"
  then have hk: "hk = replicate 32 x" using assms(2) by simp
  have "replicate 16 x \<noteq> replicate 16 y" using assms(3) by simp
  with seal show ?thesis
    by (auto simp: hk seal_header_def decrypt_header_with_key_def reference_crypto_simps ref_unseal_def ref_tag_def)
qed

text \<open>Two messages of \<open>a\<close> are held up, \<open>b\<close> answers, and \<open>a\<close> sends on its new chain.\<close>

lemma demo_overtaken:
  assumes ms: "length ms = 2" "\<forall>m \<in> set ms. snd m = []"
  obtains a b sealed a1 eh ct b1 w r1 a2 w1 eh' ct' a3 where
    "conversation reference_crypto a b" "in_step a b" "batch_limits b 2" "send_all reference_crypto a ms = (Ok sealed, a1)"
    "sealed_apart reference_crypto b sealed"
    "encrypt reference_crypto b [3] [] = (Ok (eh, ct), b1)" "deliverable reference_crypto b a1 eh"
    "decrypt reference_crypto w a1 eh ct [] = (r1, a2, w1)"
    "encrypt reference_crypto a2 [4] [] = (Ok (eh', ct'), a3)" "deliverable reference_crypto a2 b1 eh'"
proof (rule demo_exchange)
  let ?c = reference_crypto and ?w = "demo_world\<lparr>rand_pos := 32\<rparr>"
  fix a b
  assume conv: "conversation ?c a b" and lead: "lead ?c b a"
    and a: "hk_s a = Some (replicate 32 143)" "ns a = 1" "header_nonce_counter a = 1" "ck_s a \<noteq> None" "snd (dh_pair a) = replicate 32 3"
      "hk_r a = None" "ck_r a = None" "mkskipped a = []" "received_messages a = {||}"
    and b: "hk_r b = hk_s a" "nhk_r b = replicate 32 147" "nr b = 1" "mkskipped b = []" "fcard (received_messages b) = 1"
      "ns b = 0" "header_nonce_counter b = 0"
  have step: "in_step a b" "batch_limits b 2"
    using a b by (simp_all add: in_step_def batch_limits_def held_keys_def MAX_SKIPPED_KEYS_def MAX_RECEIVED_TRACKING_def)
  obtain sealed a1 where send: "send_all ?c a ms = (Ok sealed, a1)"
    using send_all_total [OF reference_crypto_ok leadD(2) [OF lead] a(4), of ms] ms a by (auto simp: MAX_AD_SIZE_def)
  have apart: "sealed_apart ?c b sealed" using a b by (simp add: sealed_apart_def held_keys_def)
  note a1 = send_all_receiving [OF send] send_all_state [OF reference_crypto_ok leadD(2) [OF lead] send]
  have l1: "lead ?c b a1"
    using conversation_linked [OF send_all_conversation [OF conv send] reference_crypto_ok] a1 a(1) b(2) leadD(7) [of ?c a1 b]
    by (auto simp: linked_def)
  have "counters_left b" using b by (simp add: counters_left_def)
  then obtain eh ct b1 where enc: "encrypt ?c b [3] [] = (Ok (eh, ct), b1)"
    using can_send [OF reference_crypto_ok leadD(1) [OF l1] leader_can_send [OF l1], of "[]" "[3]"] by (auto simp: MAX_AD_SIZE_def)
  obtain cks ctr where b1: "b1 = b\<lparr>ck_s := Some (chain_key ?c 1 cks), ns := ns b + 1, header_nonce_counter := ctr\<rparr>"
    by (rule encrypt_opens [OF reference_crypto_ok leadD(1) [OF l1] enc])
  have guard: "deliverable ?c b a1 eh"
    using a a1 b leadD(7) [OF l1] by (simp add: deliverable_def held_keys_def within_limits_def)
  obtain a2 w1 where dec: "decrypt ?c ?w a1 eh ct [] = (Ok [3], a2, w1)" and l2: "lead ?c a2 b1"
      and a2: "pn a2 = ns a1" "ns a2 = 0" "snd (dh_pair a2) = x25519_base ?c (fst (os_rng_fill 32 ?w))"
    by (rule delivered_with_ratchet [OF reference_crypto_ok l1 enc guard, of ?w])
  have key: "snd (dh_pair a2) = replicate 32 4"
    unfolding a2(3)
    by (auto simp: os_rng_fill_def demo_world_def list_eq_iff_nth_eq reference_crypto_simps(2) simp del: upt_rec_numeral)
  have hk: "hk_s a2 = Some (replicate 32 147)" using leadD(7) [OF l2] b(2) by (simp add: b1)
  have "counters_left a2"
    using a2(2) decrypt_counters(1) [OF dec] a1 a(3) ms(1) by (simp add: counters_left_def)
  then obtain eh' ct' a3 where enc': "encrypt ?c a2 [4] [] = (Ok (eh', ct'), a3)"
    using can_send [OF reference_crypto_ok leadD(1) [OF l2] leader_can_send [OF l2], of "[]" "[4]"] by (auto simp: MAX_AD_SIZE_def)
  have "dh_remote b = Some (replicate 32 3)"
    using leadD(10) [OF lead] a(1,4,5) by (auto simp: follows_def)
  then have new: "(snd (dh_pair a2), 0) |\<notin>| received_messages b"
    using leadD(5) [OF lead] key by (auto simp: received_from_remote_def)
  have "deliverable ?c a2 b1 eh'"
    using wrong_header_key [OF enc' hk, of 143] new a1 a(1,2) b a2(1,2) hk ms(1)
    by (simp add: deliverable_def held_keys_def within_limits_def b1)
  then show thesis by (rule that [OF conv step send apart enc guard dec enc'])
qed

section \<open>Properties\<close>

text \<open>C8: Messages overtaken by a DH ratchet are not lost: a batch is held up, its sender moves to a new
  chain on an answer of the peer, and the first message of the new chain arrives before the
  batch; every selection of the batch, in whatever order it then arrives, still decrypts. The
  batch leaves room in the counters and memories of the receiver (batch_limits), no key of
  another chain opens its headers, and the answer and the first message of the new chain are
  within the limits of their receivers (deliverable).\<close>

theorem late_after_ratchet:
  assumes "crypto_ok c" and "conversation c a b" and "in_step a b" and "batch_limits b (length ms)"
    and "send_all c a ms = (Ok sealed, a1)" and "sealed_apart c b sealed"
    and "encrypt c b q ad = (Ok (eh, ct), b1)" and "deliverable c b a1 eh" and "decrypt c w a1 eh ct ad = (r1, a2, w1)"
    and "encrypt c a2 r ad' = (Ok (eh', ct'), a3)" and "deliverable c a2 b1 eh'"
    and "decrypt c w2 b1 eh' ct' ad' = (r2, b2, w3)"
    and "distinct idx" and "set idx \<subseteq> {..<length ms}"
  shows "r1 = Ok q \<and> r2 = Ok r \<and>
    receive_all c w3 b2 (map (\<lambda>i. (snd (ms ! i), sealed ! i)) idx) = map (\<lambda>i. Ok (fst (ms ! i))) idx"
proof (rule overtaken_waiting [OF assms(1-8,10,9,11), of w2])
  fix hk ck b2' w3'
  assume "r1 = Ok q" and "decrypt c w2 b1 eh' ct' ad' = (Ok r, b2', w3')"
    and wait: "waiting c hk ck (unat (nr b)) sealed {..<length ms} b2'" and len: "length sealed = length ms"
    and msgs: "\<forall>i < length ms. chain_msg c hk ck (unat (nr b)) (snd (dh_pair a)) i (ms ! i) (sealed ! i)"
  moreover from this assms(12) have "r2 = Ok r" "b2' = b2" "w3' = w3" by simp_all
  moreover have "receive_all c w3 b2' (map (\<lambda>i. (snd (ms ! i), sealed ! i)) idx) = map (\<lambda>i. Ok (fst (ms ! i))) idx"
    by (rule waiting_receive [OF ratchet_crypto_ok [OF assms(1)] len _ wait assms(13,14)]) (use msgs in auto)
  ultimately show ?thesis by simp
qed

theorem late_after_ratchet_witness:
  "\<exists>a b m0 m1 a1 eh ct b1 w a2 w1 eh' ct' a3 b2 w3. send_all reference_crypto a [([1], []), ([2], [])] = (Ok [m0, m1], a1) \<and>
     encrypt reference_crypto b [3] [] = (Ok (eh, ct), b1) \<and> decrypt reference_crypto w a1 eh ct [] = (Ok [3], a2, w1) \<and>
     encrypt reference_crypto a2 [4] [] = (Ok (eh', ct'), a3) \<and>
     decrypt reference_crypto demo_world b1 eh' ct' [] = (Ok [4], b2, w3) \<and>
     receive_all reference_crypto w3 b2 [([], m1), ([], m0)] = [Ok [2], Ok [1]]"
proof -
  let ?ms = "[([1], []), ([2], [])] :: (bytes \<times> bytes) list" and ?c = reference_crypto
  have "length ?ms = 2" "\<forall>m \<in> set ?ms. snd m = []" by simp_all
  then obtain a b sealed a1 eh ct b1 w r1 a2 w1 eh' ct' a3 where run: "conversation ?c a b" "in_step a b" "batch_limits b 2"
      "send_all ?c a ?ms = (Ok sealed, a1)" "sealed_apart ?c b sealed"
      "encrypt ?c b [3] [] = (Ok (eh, ct), b1)" "deliverable ?c b a1 eh" "decrypt ?c w a1 eh ct [] = (r1, a2, w1)"
      "encrypt ?c a2 [4] [] = (Ok (eh', ct'), a3)" "deliverable ?c a2 b1 eh'"
    by (rule demo_overtaken)
  have lim: "batch_limits b (length ?ms)" using run(3) by (simp add: numeral_2_eq_2)
  obtain r2 b2 w3 where dec: "decrypt ?c demo_world b1 eh' ct' [] = (r2, b2, w3)" by (metis prod_cases3)
  have "length sealed = length ?ms"
    by (rule in_step_catching [OF reference_crypto_ok run(1,2) lim run(4,5)]) blast
  then obtain m0 m1 where sealed: "sealed = [m0, m1]" by (auto simp: length_Suc_conv)
  have "distinct [1, 0 :: nat]" "set [1, 0 :: nat] \<subseteq> {..<length ?ms}" by simp_all
  from late_after_ratchet [OF reference_crypto_ok run(1,2) lim run(4-10) dec this]
  have "r1 = Ok [3]" "r2 = Ok [4]" "receive_all ?c w3 b2 [([], m1), ([], m0)] = [Ok [2], Ok [1]]"
    by (simp_all add: sealed)
  with run(4,6,8,9) dec sealed show ?thesis by blast
qed

end
