(* ===== verification/Spec2Isabelle.thy ===== *)
theory Spec2Isabelle
  imports Bindings Decrypt_Work Integration_Tests Temporaries Replay Mailbox Late_Delivery
begin

text \<open>
  A verification of \<^verbatim>\<open>libsignal-dezire\<close>, a Rust implementation of the Signal protocols with
  bindings for C and Java.

  \<^bold>\<open>The program.\<close> Two parties agree on a secret with X3DH (\<^verbatim>\<open>src/x3dh.rs\<close>), whose
  prekeys are signed with VXEdDSA (\<^verbatim>\<open>src/vxeddsa.rs\<close>) over the curve helpers and hashes of
  \<^verbatim>\<open>src/utils.rs\<close> and \<^verbatim>\<open>src/hashes.rs\<close>, and then exchange messages in a Double Ratchet
  session with encrypted headers (\<^verbatim>\<open>src/ratchet.rs\<close>). \<^verbatim>\<open>src/ffi\<close> and \<^verbatim>\<open>src/jni\<close> export
  all of it to C and to Java. All state is in the session (\<^verbatim>\<open>RatchetState\<close>) and, for the
  bindings, in the memory that holds sessions and buffers.

  \<^bold>\<open>The theories.\<close>

  \<^item> \<open>Rust_Prelude\<close>: results with panics, state passing, bytes, checked arithmetic, big-endian
    integers, the environment (randomness, clock, iteration order of hash maps), and the shared
    interfaces as locales: fixed-width codecs, hash maps, machines with an invariant and
    machines that issue distinct values (and in \<open>Ratchet_Kdf\<close> an authenticated encryption, in
    \<open>C_Interface\<close> a caller that keeps to a contract, in \<open>Session_Machine\<close> what decryption
    leaves alone). Every locale is interpreted on definitions of the model.
  \<^item> \<open>Primitives\<close>: the third-party cryptography as a record of functions with its documented
    laws as predicates, and an executable instance for the witnesses.
  \<^item> \<open>Ratchet_Types\<close>, \<open>Ratchet_Kdf\<close>, \<open>Skipped_Keys\<close>, \<open>Ratchet\<close>: \<^verbatim>\<open>src/ratchet.rs\<close> in the
    order of the file, one definition per function; a part of a long function that has a
    definition of its own (\<open>store_chain_gap\<close>, \<open>perform_dh_ratchet\<close>, \<open>advance_receiving\<close>,
    \<open>track_received\<close>) is a phase of it, named in the comments of the source. A function on
    \<^verbatim>\<open>&mut RatchetState\<close> returns the state in every outcome, so that what an error leaves
    behind is visible.
  \<^item> \<open>Ratchet_Invariant\<close>, \<open>Session_Machine\<close>: the session invariant, kept by every operation in
    every outcome and excluding every panic; one party's session as a machine.
  \<^item> \<open>Delivery\<close>, \<open>Decrypt_Work\<close>, \<open>Conversation\<close>, \<open>Chain_Delivery\<close>: what decryption does to a
    state and what it costs; the relation between the two sessions of a conversation; delivery of a batch in any order.
  \<^item> \<open>Session_Json\<close>: a session as JSON text, with \<^verbatim>\<open>serde_json\<close> and the derived instances as a
    parameter; conversations go on with sessions that were stored and read back.
  \<^item> \<open>Foreign_Sessions\<close>: what encryption and decryption keep on a session that was read from a text
    this program did not write, of which only the types are known: they do not panic. The locale
    \<open>session_kept\<close> is the interface of the bindings to the session; it is interpreted with the
    session invariant and with well-typedness.
  \<^item> \<open>Late_Delivery\<close>, \<open>Progress\<close>, \<open>Tampering\<close>, \<open>Memory_Hygiene\<close>: that messages overtaken by a DH
    ratchet can still be read, that conversations do not get stuck, that altered
    messages do no harm, and which message keys outlive their use: the erasure of a dropped session (the derives \<^verbatim>\<open>Zeroize\<close> and \<^verbatim>\<open>ZeroizeOnDrop\<close> of \<^verbatim>\<open>RatchetState\<close>) is
    \<open>zeroize_state\<close>.
  \<^item> \<open>Temporaries\<close>: the calls of \<^verbatim>\<open>zeroize\<close> on local variables. The functions that make them are
    translated a second time with the frame of their secret variables beside the result
    (\<open>encrypt_locals\<close> and so on), and shown to compute the same; what those frames still hold at the
    end is stated exactly.
  \<^item> \<open>Mailbox\<close>: the receiving chain as a refinement of a mailbox that knows only numbers, for a chain
    already begun and (\<open>new_chain_refines_mailbox\<close>) for one whose first message to arrive brings a DH ratchet.
  \<^item> \<open>Replay\<close>: the two ways a message is accepted, and that it is refused when it comes again at once.
  \<^item> \<open>Curve_Utils\<close>, \<open>Vxeddsa\<close>, \<open>X3dh\<close>: \<^verbatim>\<open>src/utils.rs\<close>, \<^verbatim>\<open>src/hashes.rs\<close>,
    \<^verbatim>\<open>src/vxeddsa.rs\<close> and \<^verbatim>\<open>src/x3dh.rs\<close>, over a record of the operations of
    \<^verbatim>\<open>curve25519-dalek\<close> with the group and encoding laws as predicates.
  \<^item> \<open>C_Interface\<close>, \<open>Ratchet_C\<close>, \<open>Ratchet_C_Safe\<close>, \<open>Crypto_C\<close>: \<^verbatim>\<open>src/ffi\<close>. A call acts
    on a memory of blocks and returns, is undefined behaviour, or aborts.
  \<^item> \<open>Jni\<close>, \<open>Jni_Safe\<close>: \<^verbatim>\<open>src/jni\<close>, over a JVM each of whose calls may fail.
  \<^item> \<open>Bindings\<close>: what a C and a Java caller read of a call, and that the two bindings agree.
  \<^item> \<open>Unit_Tests\<close>: the test modules of \<^verbatim>\<open>src/ratchet.rs\<close> and \<^verbatim>\<open>src/x3dh.rs\<close> as functions of the
    primitives and the environment.
  \<^item> \<open>Integration_Tests\<close>: the tests under \<^verbatim>\<open>src/tests\<close>, in the same way.

  \<^bold>\<open>What is shown.\<close> For the session: no sequence of calls panics or exceeds the memory limits;
  header nonces are unique; in every conversation the messages within the limits of the code
  (\<open>deliverable\<close>, \<open>batch_limits\<close>) are delivered, also out of order, after being overtaken by a DH
  ratchet, and after losses and refused garbage; while counters are left one of the parties can
  send; altered messages and those refused before the commit change nothing; an accepted message is refused when it is repeated at once; what each error leaves behind; the store of skipped keys
  refines a partial map and the receiving chain a mailbox. For the key agreement: both sides agree, failures are the documented
  ones, signatures verify and are bound to message and key up to hash collisions (\<open>signature_binds\<close>). For the bindings: a C caller who keeps to the documented pointer rules, or
  a Java caller who passes live handles, meets neither undefined behaviour nor an abort, whatever
  text is read as a session, messages and sessions survive the passage
  through raw memory and JSON text, status codes are faithful, and the two bindings agree and
  understand each other. The unit and the integration tests pass whatever randomness they draw (up
  to the chance collisions their theorems name). Below, the parts are composed
  from the key agreement to the first message, and the sizes of all results are stated.
  Some theorems state behaviour that is likely not intended: a message received over a gap or read from the store can be accepted
  twice (\<open>receiving_refines_mailbox\<close> says when), the key of the former computed again
  (\<open>consumed_key_recoverable\<close>), dropping a session leaves its skipped message keys in memory
  (\<open>erased_session_reads_missed\<close>), a refused message leaves the key of the genuine one on the stack
  (\<open>refused_message_leaves_key\<close>) and several temporaries are not erased (\<open>temporaries_erased\<close>), a failed commit
  empties the store of skipped keys (\<open>failed_commit_empties_store\<close>), the tracking limit drops
  a valid plaintext (\<open>tracking_limit_drops_plaintext\<close>), the skip limit wraps around
  (\<open>skip_limit_wraps\<close>), a null header of length zero is undefined behaviour
  (\<open>ffi_null_arguments\<close>), and the Java bindings ignore a one-time prekey of the wrong length
  (\<open>jni_one_time_key_dropped\<close>).

  \<^bold>\<open>Bounds.\<close> Message counters are 32-bit and the nonce counter 64-bit words; sums the source
  writes with \<^verbatim>\<open>+\<close> wrap, as in the release profile. Loops are total functions, with the
  distance to the target as measure; no fuel is used. Lengths (\<^verbatim>\<open>usize\<close>) are natural numbers;
  a length prefix is 64 bits wide, and the framing lemmas assume lengths below \<open>2 ^ 64\<close>.

  \<^bold>\<open>Not modelled.\<close> Copies of secrets in registers, in the frames of called functions and in
  buffers the allocator has moved, timing, the secrecy and
  unforgeability of the primitives (no theorem claims them; where a foreign key must not open
  a header, that is a hypothesis about the keys at hand), the internals of \<^verbatim>\<open>serde_json\<close>, the
  JVM and the allocator, pointers into the middle of a block, reuse of freed addresses, pending
  Java exceptions and the C header (declarations only).
\<close>

section \<open>From the key agreement to the first message\<close>

lemma fresh_deliverable:
  assumes "init_sender_state c w sk pub = (Ok a, w')" and "init_receiver_state c sk kp = Ok b"
  shows "deliverable c a b eh"
proof -
  have "mkskipped b = []" "hk_r b = None" "ck_r b = None" "received_messages b = {||}"
    using assms(2) by (auto simp: init_receiver_state_def)
  moreover obtain hk where "ns a = 0" "hk_s a = Some hk"
    using assms(1) by (auto simp: init_sender_state_def Let_def split: prod.splits)
  ultimately show ?thesis by (simp add: deliverable_def held_keys_def within_limits_def)
qed

text \<open>C4: The protocol end to end: after X3DH on a bundle signed by Bob, Alice's and Bob's sessions can be
  initialised from the agreed secret and the signed prekey, Alice's first message can be
  encrypted, and Bob decrypts it to the plaintext.\<close>

theorem handshake_then_message:
  assumes "crypto_ok c" and "curve_ok e" and "birational c e"
    and "is_array 32 ia" "is_array 32 ib" "is_array 32 spk" "pred_option (is_array 32) opk"
    and "vxeddsa_sign c e w0 ib (gen_pubkey c spk) = (Ok out, w0')"
    and "vrf_base c e (compress e (snd (calculate_key_pair e ib))) (gen_pubkey c spk) \<noteq> identity e"
    and "bndl = \<lparr> identity_key = gen_pubkey c ib,
           signed_prekey = \<lparr> spk_id = i, spk_public_key = gen_pubkey c spk, spk_signature = signature out \<rparr>,
           one_time_prekey = map_option (\<lambda>k. \<lparr> opk_id = j, opk_public_key = gen_pubkey c k \<rparr>) opk \<rparr>"
    and "length ad \<le> MAX_AD_SIZE"
  shows "\<exists>r w1 s pub a w2 b eh ct a'. x3dh_initiator c e w ia bndl = (Ok r, w1) \<and>
     x3dh_responder c e ib spk opk (gen_pubkey c ia) (ephemeral_public r) = Ok s \<and>
     decode_public_key (spk_public_key (signed_prekey bndl)) = Ok pub \<and>
     init_sender_state c w1 (shared_secret r) pub = (Ok a, w2) \<and>
     init_receiver_state c s (spk, x25519_base c spk) = Ok b \<and>
     encrypt c a p ad = (Ok (eh, ct), a') \<and>
     (\<exists>b' w3. decrypt c w2 b eh ct ad = (Ok p, b', w3))"
proof -
  note rc = ratchet_crypto_ok [OF assms(1)]
  obtain r w1 where x3dh: "x3dh_initiator c e w ia bndl = (Ok r, w1)" "is_array 32 (shared_secret r)"
      "x3dh_responder c e ib spk opk (gen_pubkey c ia) (ephemeral_public r) = Ok (shared_secret r)"
    using genuine_agreement [OF assms(1-10)] by blast
  have pub: "is_array 32 (x25519_base c spk)" using x25519_sizedD(1) [OF crypto_okD(4) [OF assms(1)] assms(6)] .
  then have dec: "decode_public_key (spk_public_key (signed_prekey bndl)) = Ok (x25519_base c spk)"
    by (simp add: assms(10) gen_pubkey_def pubkey.dec_enc)
  obtain a w2 where a: "init_sender_state c w1 (shared_secret r) (x25519_base c spk) = (Ok a, w2)" "ratchet_inv a"
    using init_sender_ok [OF rc x3dh(2) pub] by blast
  obtain b where b: "init_receiver_state c (shared_secret r) (spk, x25519_base c spk) = Ok b"
    using init_receiver_ok [OF rc x3dh(2) assms(6) pub] by blast
  obtain ck where "ck_s a = Some ck" "ns a = 0" "header_nonce_counter a = 0"
    using a(1) by (auto simp: init_sender_state_def Let_def split: prod.splits)
  then obtain eh ct a' where enc: "encrypt c a p ad = (Ok (eh, ct), a')"
    using encrypt_succeeds [OF assms(1) a(2) _ assms(11), where p = p] by auto
  have "conversation c a b" using a(1) b x3dh(2) assms(6) by (rule conversation.start)
  then have "\<exists>b' w3. decrypt c w2 b eh ct ad = (Ok p, b', w3)"
    using linked_delivered [OF assms(1) conversation_linked [OF _ assms(1)] enc fresh_deliverable [OF a(1) b]] by blast
  with x3dh dec a(1) b enc show ?thesis by blast
qed

theorem handshake_then_message_witness:
  "\<exists>out w0 r w1 s pub a w2 b eh ct a' b' w3.
     vxeddsa_sign signing_crypto binary_curve demo_world (replicate 32 2) (gen_pubkey signing_crypto (replicate 32 3)) = (Ok out, w0) \<and>
     x3dh_initiator signing_crypto binary_curve w0 (replicate 32 1)
       \<lparr> identity_key = gen_pubkey signing_crypto (replicate 32 2),
         signed_prekey = \<lparr> spk_id = 1, spk_public_key = gen_pubkey signing_crypto (replicate 32 3), spk_signature = signature out \<rparr>,
         one_time_prekey = None \<rparr> = (Ok r, w1) \<and>
     x3dh_responder signing_crypto binary_curve (replicate 32 2) (replicate 32 3) None
       (gen_pubkey signing_crypto (replicate 32 1)) (ephemeral_public r) = Ok s \<and>
     init_sender_state signing_crypto w1 (shared_secret r) pub = (Ok a, w2) \<and>
     init_receiver_state signing_crypto s (replicate 32 3, x25519_base signing_crypto (replicate 32 3)) = Ok b \<and>
     encrypt signing_crypto a [104, 105] [] = (Ok (eh, ct), a') \<and>
     decrypt signing_crypto w2 b eh ct [] = (Ok [104, 105], b', w3)"
proof -
  obtain out w0 where sign: "vxeddsa_sign signing_crypto binary_curve demo_world (replicate 32 2)
      (gen_pubkey signing_crypto (replicate 32 3)) = (Ok out, w0)"
    using binary_signs by blast
  have base: "vrf_base signing_crypto binary_curve (compress binary_curve (snd (calculate_key_pair binary_curve (replicate 32 2))))
      (gen_pubkey signing_crypto (replicate 32 3)) \<noteq> identity binary_curve"
    by (simp add: vrf_base_def run_simps)
  have "\<exists>r w1 s pub a w2 b eh ct a'.
     x3dh_initiator signing_crypto binary_curve w0 (replicate 32 1)
       \<lparr> identity_key = gen_pubkey signing_crypto (replicate 32 2),
         signed_prekey = \<lparr> spk_id = 1, spk_public_key = gen_pubkey signing_crypto (replicate 32 3), spk_signature = signature out \<rparr>,
         one_time_prekey = None \<rparr> = (Ok r, w1) \<and>
     x3dh_responder signing_crypto binary_curve (replicate 32 2) (replicate 32 3) None
       (gen_pubkey signing_crypto (replicate 32 1)) (ephemeral_public r) = Ok s \<and>
     decode_public_key (spk_public_key (signed_prekey \<lparr> identity_key = gen_pubkey signing_crypto (replicate 32 2),
         signed_prekey = \<lparr> spk_id = 1, spk_public_key = gen_pubkey signing_crypto (replicate 32 3), spk_signature = signature out \<rparr>,
         one_time_prekey = None \<rparr>)) = Ok pub \<and>
     init_sender_state signing_crypto w1 (shared_secret r) pub = (Ok a, w2) \<and>
     init_receiver_state signing_crypto s (replicate 32 3, x25519_base signing_crypto (replicate 32 3)) = Ok b \<and>
     encrypt signing_crypto a [104, 105] [] = (Ok (eh, ct), a') \<and>
     (\<exists>b' w3. decrypt signing_crypto w2 b eh ct [] = (Ok [104, 105], b', w3))"
    by (rule handshake_then_message [OF signing_crypto_ok binary_curve_ok binary_birational _ _ _ _ sign base])
      simp_all
  with sign show ?thesis by blast
qed

section \<open>The sizes of all results\<close>

text \<open>C13: Rust's array types are kept by the byte lists of the model: every key, signature, VRF output,
  shared secret and header the public functions return has the length its type or its
  documentation says, whatever the randomness and the other arguments.\<close>

theorem api_types:
  assumes "crypto_ok c" and "encoding_laws e"
  shows "is_array 32 (fst (gen_secret w)) \<and>
    is_array 32 (secret (fst (gen_keypair c w))) \<and> is_array 33 (public (fst (gen_keypair c w))) \<and>
    (vxeddsa_sign c e w k msg = (Ok out, w1) \<longrightarrow> is_array 96 (signature out) \<and> is_array 32 (vrf out)) \<and>
    (vxeddsa_verify c e pk msg sg = (Ok (Some v) :: (bytes option, unit) result) \<longrightarrow> is_array 32 v) \<and>
    (x3dh_initiator c e w ia bndl = (Ok res, w2) \<longrightarrow>
       is_array 32 (shared_secret res) \<and> is_array 33 (ephemeral_public res)) \<and>
    (x3dh_responder c e ib spk opk iap ek = Ok s \<longrightarrow> is_array 32 s) \<and>
    (ratchet_inv st \<and> encrypt c st p ad = (Ok (eh, ct), st') \<longrightarrow>
       is_array 68 eh \<and> is_array (16 * Suc (length p div 16) + 32) ct \<and> wf_state st')"
proof (intro conjI impI; (elim conjE)?)
  show "is_array 32 (fst (gen_secret w))" by (simp add: gen_secret_def)
  obtain kp w0 where kp: "gen_keypair c w = (kp, w0)" by fastforce
  then show "is_array 32 (secret (fst (gen_keypair c w)))" "is_array 33 (public (fst (gen_keypair c w)))"
    using gen_keypair_public [OF kp] gen_pubkey_sized [OF assms(1)] by simp_all
next
  assume "vxeddsa_sign c e w k msg = (Ok out, w1)"
  then show "is_array 96 (signature out)" "is_array 32 (vrf out)"
    using vxeddsa_sign_sized [OF crypto_okD(3) [OF assms(1)] assms(2)] by blast+
next
  assume "vxeddsa_verify c e pk msg sg = (Ok (Some v) :: (bytes option, unit) result)"
  then show "is_array 32 v" by (rule vxeddsa_verify_sized [OF crypto_okD(3) [OF assms(1)]])
next
  assume res: "x3dh_initiator c e w ia bndl = (Ok res, w2)"
  then show "is_array 32 (shared_secret res)" using initiator_cases [OF assms(1), where e = e and w = w and ia = ia and bndl = bndl] by simp
  show "is_array 33 (ephemeral_public res)"
    using initiator_ephemeral [OF res] gen_pubkey_sized [OF assms(1)] by metis
next
  assume "x3dh_responder c e ib spk opk iap ek = Ok s"
  then show "is_array 32 s" using responder_cases [OF assms(1), where e = e and ib = ib and spk = spk and opk = opk and ia = iap and ek = ek] by simp
next
  assume inv: "ratchet_inv st" and enc: "encrypt c st p ad = (Ok (eh, ct), st')"
  then show "wf_state st'" using encrypt_inv(1) [OF ratchet_crypto_ok [OF assms(1)]] ratchet_invD(1) by blast
  from encrypt_sized [OF assms(1) inv enc] show "is_array 68 eh" "is_array (16 * Suc (length p div 16) + 32) ct"
    by simp_all
qed

theorem api_types_witness:
  "\<exists>out w1. vxeddsa_sign signing_crypto binary_curve demo_world (replicate 32 1) [1] = (Ok out, w1) \<and>
     is_array 96 (signature out) \<and> is_array 32 (vrf out)"
proof -
  obtain out w1 where sign: "vxeddsa_sign signing_crypto binary_curve demo_world (replicate 32 1) [1] = (Ok out, w1)"
    using binary_signs by blast
  then have "is_array 96 (signature out) \<and> is_array 32 (vrf out)"
    by (rule api_types [OF signing_crypto_ok curve_okD(2) [OF binary_curve_ok],
          THEN conjunct2, THEN conjunct2, THEN conjunct2, THEN conjunct1, THEN mp])
  with sign show ?thesis by blast
qed

end
